(* ===== verification/Prelude.thy ===== *)
theory Prelude
  imports Main "HOL-Library.Word" "HOL-Library.AList"
begin

text \<open>
  The shared vocabulary of the development: the types that stand for Python values, the
  result type of code that may raise, Python slices, and the generic lemmas and rule
  collections that the component theories share.

  \<^item> A Python \<open>bytes\<close> object is a list of 8-bit words.
  \<^item> A Python \<open>str\<close> is a list of code points. It is not Isabelle's \<open>string\<close>, because the
    code handles text outside ASCII; \<open>ascii\<close> converts a literal of the source.
  \<^item> A Python \<open>int\<close> is \<open>int\<close>; the result of \<open>len\<close> is \<open>nat\<close>.
  \<^item> Code that may raise returns \<open>'e + 'a\<close>: \<open>Inl\<close> the exception or \<open>Inr\<close> the value.
\<close>

unbundle bit_operations_syntax

type_synonym byte = "8 word"
type_synonym bytes = "byte list"
type_synonym ustr = "nat list"

text \<open>
  \<open>res_simps\<close> evaluates sequencing of fallible code, \<open>bytes_simps\<close> computes lengths and
  slices of assembled byte strings, and \<open>const_defs\<close> unfolds the numeric constants of the
  wire format.
\<close>

named_theorems res_simps
named_theorems bytes_simps
named_theorems const_defs

section \<open>Literals of the source\<close>

definition ascii :: "string \<Rightarrow> ustr" where
  "ascii s = map of_char s"

definition ascii_bytes :: "string \<Rightarrow> bytes" where
  "ascii_bytes s = map of_char s"

lemma length_ascii [simp]: "length (ascii s) = length s"
  by (simp add: ascii_def)

lemma length_ascii_bytes [simp]: "length (ascii_bytes s) = length s"
  by (simp add: ascii_bytes_def)

lemma ascii_less_256: "c \<in> set (ascii s) \<Longrightarrow> c < 256"
  unfolding ascii_def by (auto simp: of_char_def intro: order.strict_trans1 nat_of_char_less_256)

section \<open>Code that may raise\<close>

definition rbind :: "'e + 'a \<Rightarrow> ('a \<Rightarrow> 'e + 'b) \<Rightarrow> 'e + 'b" where
  "rbind m f = (case m of Inl e \<Rightarrow> Inl e | Inr x \<Rightarrow> f x)"

lemma rbind_Inl [simp, res_simps]: "rbind (Inl e) f = Inl e"
  by (simp add: rbind_def)

lemma rbind_Inr [simp, res_simps]: "rbind (Inr x) f = f x"
  by (simp add: rbind_def)

lemma rbind_eq_Inr_iff [res_simps]: "rbind m f = Inr y \<longleftrightarrow> (\<exists>x. m = Inr x \<and> f x = Inr y)"
  by (cases m) auto

lemma rbind_eq_Inl_iff [res_simps]:
  "rbind m f = Inl e \<longleftrightarrow> m = Inl e \<or> (\<exists>x. m = Inr x \<and> f x = Inl e)"
  by (cases m) auto

lemma if_Inl_eq_Inr_iff [res_simps]: "(if b then Inl e else m) = Inr y \<longleftrightarrow> \<not> b \<and> m = Inr y"
  by simp

section \<open>Python slices with non-negative bounds\<close>

definition pyslice :: "nat \<Rightarrow> nat \<Rightarrow> 'a list \<Rightarrow> 'a list" where
  "pyslice i j xs = take (j - i) (drop i xs)"

lemma length_pyslice [bytes_simps]: "length (pyslice i j xs) = min j (length xs) - i"
  by (auto simp: pyslice_def min_def)

lemma pyslice_0 [bytes_simps]: "pyslice 0 j xs = take j xs"
  by (simp add: pyslice_def)

lemma pyslice_append [bytes_simps]:
  "j \<le> length xs \<Longrightarrow> pyslice i j (xs @ ys) = pyslice i j xs"
  by (simp add: pyslice_def)

lemma pyslice_append_skip [bytes_simps]:
  "length xs \<le> i \<Longrightarrow> pyslice i j (xs @ ys) = pyslice (i - length xs) (j - length xs) ys"
  by (simp add: pyslice_def)

lemma pyslice_all [bytes_simps]: "length xs \<le> j \<Longrightarrow> pyslice 0 j xs = xs"
  by (simp add: pyslice_def)

lemma take_pyslice_drop:
  "i \<le> j \<Longrightarrow> take i xs @ pyslice i j xs @ drop j xs = xs"
  unfolding pyslice_def by (metis append_take_drop_id drop_drop le_add_diff_inverse2)

lemma take_pyslice:
  "i \<le> j \<Longrightarrow> take i xs @ pyslice i j xs = take j xs"
  unfolding pyslice_def by (metis le_add_diff_inverse take_add)

lemma pyslice_join: "i \<le> j \<Longrightarrow> j \<le> k \<Longrightarrow> pyslice i j xs @ pyslice j k xs = pyslice i k xs"
proof -
  assume "i \<le> j" "j \<le> k"
  then have "k - i = (j - i) + (k - j)" "drop j xs = drop (j - i) (drop i xs)" by simp_all
  then show ?thesis unfolding pyslice_def by (simp only: take_add)
qed

section \<open>Words as bytes\<close>

lemma unat_byte_less [simp]: "unat (b :: byte) < 256"
  using unsigned_less [of b] by simp

lemma unat_of_nat_byte [simp]: "unat (word_of_nat n :: byte) = n mod 256"
  by (simp add: unat_of_nat)

lemma of_nat_unat_byte [simp]: "word_of_nat (unat b) = (b :: byte)"
  by simp

lemma of_nat_mod_byte [simp]: "word_of_nat (n mod 256) = (word_of_nat n :: byte)"
  by (rule word_unat_eq_iff [THEN iffD2]) simp

end
