(* ===== verification/Errors.thy ===== *)
theory Errors
  imports Prelude
begin

text \<open>
  \<^verbatim>\<open>src/wireline/protocol/errors.py\<close>: the error codes of the protocol and the exceptions
  the modelled code can raise. \<open>ProtocolError\<close> is the project's own exception; the other
  constructors are the exceptions of the Python runtime that the modelled functions can let
  escape.
\<close>

section \<open>Error codes\<close>

datatype error_code =
    ERR_VERSION | ERR_MAGIC | ERR_LENGTH | ERR_CRC | ERR_AUTH | ERR_TYPE | ERR_STATE
  | ERR_SEQ | ERR_FLAGS | ERR_TIMEOUT | ERR_INTERNAL

fun code_val :: "error_code \<Rightarrow> int" where
  "code_val ERR_VERSION = 1"
| "code_val ERR_MAGIC = 2"
| "code_val ERR_LENGTH = 3"
| "code_val ERR_CRC = 4"
| "code_val ERR_AUTH = 5"
| "code_val ERR_TYPE = 6"
| "code_val ERR_STATE = 7"
| "code_val ERR_SEQ = 8"
| "code_val ERR_FLAGS = 9"
| "code_val ERR_TIMEOUT = 10"
| "code_val ERR_INTERNAL = 99"

definition error_codes :: "error_code list" where
  "error_codes = [ERR_VERSION, ERR_MAGIC, ERR_LENGTH, ERR_CRC, ERR_AUTH, ERR_TYPE, ERR_STATE,
     ERR_SEQ, ERR_FLAGS, ERR_TIMEOUT, ERR_INTERNAL]"

text \<open>The enum's constructor \<^verbatim>\<open>ErrorCode(raw)\<close>; \<open>None\<close> is its \<^verbatim>\<open>ValueError\<close>.\<close>

definition code_of_val :: "int \<Rightarrow> error_code option" where
  "code_of_val v = find (\<lambda>c. code_val c = v) error_codes"

fun code_name :: "error_code \<Rightarrow> ustr" where
  "code_name ERR_VERSION = ascii ''ERR_VERSION''"
| "code_name ERR_MAGIC = ascii ''ERR_MAGIC''"
| "code_name ERR_LENGTH = ascii ''ERR_LENGTH''"
| "code_name ERR_CRC = ascii ''ERR_CRC''"
| "code_name ERR_AUTH = ascii ''ERR_AUTH''"
| "code_name ERR_TYPE = ascii ''ERR_TYPE''"
| "code_name ERR_STATE = ascii ''ERR_STATE''"
| "code_name ERR_SEQ = ascii ''ERR_SEQ''"
| "code_name ERR_FLAGS = ascii ''ERR_FLAGS''"
| "code_name ERR_TIMEOUT = ascii ''ERR_TIMEOUT''"
| "code_name ERR_INTERNAL = ascii ''ERR_INTERNAL''"

lemma code_val_bounds: "1 \<le> code_val c \<and> code_val c \<le> 99"
  by (cases c) simp_all

lemma code_of_val_code_val [simp]: "code_of_val (code_val c) = Some c"
  by (cases c) (simp_all add: code_of_val_def error_codes_def)

lemma code_of_val_Some: "code_of_val v = Some c \<Longrightarrow> code_val c = v"
  by (auto simp: code_of_val_def find_Some_iff)

lemma code_val_inject [simp]: "code_val c = code_val d \<longleftrightarrow> c = d"
  by (metis code_of_val_code_val option.inject)

text \<open>An \<^verbatim>\<open>IntEnum\<close> is ordered by its values.\<close>

instantiation error_code :: linorder
begin

definition less_eq_error_code :: "error_code \<Rightarrow> error_code \<Rightarrow> bool" where
  "less_eq_error_code c d \<longleftrightarrow> code_val c \<le> code_val d"

definition less_error_code :: "error_code \<Rightarrow> error_code \<Rightarrow> bool" where
  "less_error_code c d \<longleftrightarrow> code_val c < code_val d"

instance
  by standard (auto simp: less_eq_error_code_def less_error_code_def)

end

section \<open>Exceptions\<close>

datatype exn =
    ProtocolError error_code ustr
  | StructError
  | ValueError
  | RecursionError
  | UnicodeEncodeError
  | IndexError
  | KeyError
  | IncompleteReadError
  | TimeoutError
  | ConnectionResetError
  | AssertionError
  | PcapError ustr
  | OSError
  | ConnectionRefusedError
  | KeyboardInterrupt
  | RuntimeError ustr
  | TypeError
  | ZeroDivisionError
  | OverflowError
  | UnicodeError

type_synonym 'a res = "exn + 'a"

text \<open>\<^verbatim>\<open>str(exc)\<close> of a \<open>ProtocolError\<close>, and the reason a session reports for it.\<close>

definition error_text :: "error_code \<Rightarrow> ustr \<Rightarrow> ustr" where
  "error_text code message = code_name code @ ascii '': '' @ message"

definition is_protocol_error :: "exn \<Rightarrow> bool" where
  "is_protocol_error e = (case e of ProtocolError _ _ \<Rightarrow> True | _ \<Rightarrow> False)"

lemma is_protocol_error_simps [simp]:
  "is_protocol_error (ProtocolError c m)"
  "\<not> is_protocol_error StructError" "\<not> is_protocol_error ValueError"
  "\<not> is_protocol_error RecursionError" "\<not> is_protocol_error UnicodeEncodeError"
  "\<not> is_protocol_error IndexError" "\<not> is_protocol_error KeyError"
  "\<not> is_protocol_error IncompleteReadError" "\<not> is_protocol_error TimeoutError"
  "\<not> is_protocol_error ConnectionResetError" "\<not> is_protocol_error AssertionError"
  "\<not> is_protocol_error (PcapError t)" "\<not> is_protocol_error OSError"
  "\<not> is_protocol_error ConnectionRefusedError" "\<not> is_protocol_error KeyboardInterrupt"
  "\<not> is_protocol_error (RuntimeError t)"
  "\<not> is_protocol_error TypeError" "\<not> is_protocol_error ZeroDivisionError"
  "\<not> is_protocol_error OverflowError" "\<not> is_protocol_error UnicodeError"
  by (simp_all add: is_protocol_error_def)

lemma is_protocol_errorE:
  assumes "is_protocol_error e"
  obtains c m where "e = ProtocolError c m"
  using assms by (cases e) auto

end
