(* ===== verification/Bytes.thy ===== *)
theory Bytes
  imports Errors
begin

text \<open>
  Fixed-width integers as bytes, in the two byte orders that Python's \<^verbatim>\<open>struct\<close> is used
  with: big-endian (format prefix \<^verbatim>\<open>!\<close> or \<^verbatim>\<open>>\<close>) and little-endian (\<^verbatim>\<open><\<close>). The locale
  \<open>int_layout\<close> states what a layout promises; what the codecs need is proved once inside
  it, and both byte orders are interpreted.
\<close>

section \<open>The two byte orders\<close>

fun le_bytes :: "nat \<Rightarrow> nat \<Rightarrow> bytes" where
  "le_bytes 0 n = []"
| "le_bytes (Suc w) n = word_of_nat n # le_bytes w (n div 256)"

fun le_nat :: "bytes \<Rightarrow> nat" where
  "le_nat [] = 0"
| "le_nat (b # bs) = unat b + 256 * le_nat bs"

definition be_bytes :: "nat \<Rightarrow> nat \<Rightarrow> bytes" where
  "be_bytes w n = rev (le_bytes w n)"

definition be_nat :: "bytes \<Rightarrow> nat" where
  "be_nat bs = le_nat (rev bs)"

text \<open>
  \<^verbatim>\<open>struct.pack\<close> of one unsigned field of \<open>w\<close> bytes raises \<^verbatim>\<open>struct.error\<close> for a value
  that does not fit.
\<close>

definition pack_uint :: "(nat \<Rightarrow> nat \<Rightarrow> bytes) \<Rightarrow> nat \<Rightarrow> int \<Rightarrow> bytes res" where
  "pack_uint put w v = (if 0 \<le> v \<and> v < 256 ^ w then Inr (put w (nat v)) else Inl StructError)"

section \<open>What a layout promises\<close>

locale int_layout =
  fixes put :: "nat \<Rightarrow> nat \<Rightarrow> bytes"
    and get :: "bytes \<Rightarrow> nat"
  assumes length_put: "length (put w n) = w"
    and get_put: "n < 256 ^ w \<Longrightarrow> get (put w n) = n"
    and put_get: "put (length bs) (get bs) = bs"
    and get_bound: "get bs < 256 ^ length bs"
begin

lemma get_eq_iff:
  assumes "length bs = w"
  shows "get bs = n \<longleftrightarrow> n < 256 ^ w \<and> bs = put w n"
  using assms get_bound [of bs] put_get [of bs] get_put [of n w] by auto

lemma put_inject: "n < 256 ^ w \<Longrightarrow> m < 256 ^ w \<Longrightarrow> put w n = put w m \<longleftrightarrow> n = m"
  by (metis get_put)

lemma pack_uint_ok:
  "0 \<le> v \<Longrightarrow> v < 256 ^ w \<Longrightarrow> pack_uint put w v = Inr (put w (nat v))"
  by (simp add: pack_uint_def)

lemma pack_uint_length: "pack_uint put w v = Inr bs \<Longrightarrow> length bs = w"
  by (auto simp: pack_uint_def length_put split: if_splits)

lemma pack_uint_get:
  assumes "pack_uint put w v = Inr bs"
  shows "int (get bs) = v"
proof -
  from assms have v: "0 \<le> v" "v < 256 ^ w" "bs = put w (nat v)"
    by (auto simp: pack_uint_def split: if_splits)
  then have "nat v < 256 ^ w"
    by (metis nat_less_iff of_nat_numeral of_nat_power)
  with v show ?thesis by (simp add: get_put)
qed

lemma pack_uint_of_get: "length bs = w \<Longrightarrow> pack_uint put w (int (get bs)) = Inr bs"
  using get_bound [of bs] put_get [of bs]
  by (auto simp: pack_uint_def)

end

lemma length_le_bytes: "length (le_bytes w n) = w"
  by (induction w arbitrary: n) simp_all

lemma le_nat_le_bytes: "n < 256 ^ w \<Longrightarrow> le_nat (le_bytes w n) = n"
proof (induction w arbitrary: n)
  case 0
  then show ?case by simp
next
  case (Suc w)
  then have "n div 256 < 256 ^ w"
    by (simp add: less_mult_imp_div_less mult.commute)
  with Suc.IH show ?case by simp
qed

lemma le_bytes_le_nat: "le_bytes (length bs) (le_nat bs) = bs"
  by (induction bs) (simp_all add: word_unat_eq_iff del: of_nat_add of_nat_mult)

lemma le_nat_bound: "le_nat bs < 256 ^ length bs"
proof (induction bs)
  case Nil
  then show ?case by simp
next
  case (Cons b bs)
  then have "le_nat bs + 1 \<le> 256 ^ length bs" by simp
  then have "256 * le_nat bs + 256 \<le> 256 * 256 ^ length bs" by simp
  moreover have "unat b < 256" by simp
  ultimately have "unat b + 256 * le_nat bs < 256 * 256 ^ length bs" by linarith
  then show ?case by simp
qed

interpretation le: int_layout le_bytes le_nat
  by unfold_locales
    (simp_all add: length_le_bytes le_nat_le_bytes le_bytes_le_nat le_nat_bound)

lemma be_bytes_be_nat: "be_bytes (length bs) (be_nat bs) = bs"
  by (metis be_bytes_def be_nat_def le_bytes_le_nat length_rev rev_rev_ident)

interpretation be: int_layout be_bytes be_nat
  by unfold_locales
    (auto simp: be_bytes_def be_nat_def length_le_bytes le_nat_le_bytes be_bytes_be_nat
       le_bytes_le_nat [of "rev bs" for bs, simplified] intro: le_nat_bound [of "rev bs" for bs, simplified])

declare be.length_put [simp, bytes_simps] le.length_put [simp, bytes_simps]

end
