(* ===== verification/Pytext.thy ===== *)
theory Pytext
  imports Bytes
begin

text \<open>
  The text that the code's f-strings produce: decimal and hexadecimal integers
  (\<^verbatim>\<open>{n}\<close>, \<^verbatim>\<open>{n:#x}\<close>, \<^verbatim>\<open>{n:#010x}\<close>, \<^verbatim>\<open>{n:02x}\<close>), \<^verbatim>\<open>secrets.token_hex\<close> and the \<^verbatim>\<open>repr\<close> of a
  \<^verbatim>\<open>bytes\<close> object. Error messages go on the wire inside \<^verbatim>\<open>ERROR\<close> frames, so their text is
  part of the program's output.
\<close>

section \<open>Decimal\<close>

fun dec_nat :: "nat \<Rightarrow> ustr" where
  "dec_nat n = (if n < 10 then [48 + n] else dec_nat (n div 10) @ [48 + n mod 10])"

declare dec_nat.simps [simp del]

definition dec_int :: "int \<Rightarrow> ustr" where
  "dec_int v = (if v < 0 then 45 # dec_nat (nat (- v)) else dec_nat (nat v))"

text \<open>Reading decimal digits back, as \<^verbatim>\<open>int(text)\<close> does.\<close>

definition digits_nat :: "ustr \<Rightarrow> nat" where
  "digits_nat ds = foldl (\<lambda>a d. 10 * a + (d - 48)) 0 ds"

definition is_digit :: "nat \<Rightarrow> bool" where
  "is_digit c \<longleftrightarrow> 48 \<le> c \<and> c \<le> 57"

lemma digits_nat_snoc [simp]: "digits_nat (ds @ [d]) = 10 * digits_nat ds + (d - 48)"
  by (simp add: digits_nat_def)

lemma is_digit_add [simp]: "n < 10 \<Longrightarrow> is_digit (48 + n)"
  by (simp add: is_digit_def)

lemma dec_nat_digits: "list_all is_digit (dec_nat n)"
proof (induction n rule: dec_nat.induct)
  case (1 n)
  then show ?case by (subst dec_nat.simps) simp
qed

lemma dec_nat_not_Nil [simp]: "dec_nat n \<noteq> []"
  by (subst dec_nat.simps) simp

lemma digits_nat_dec_nat [simp]: "digits_nat (dec_nat n) = n"
proof (induction n rule: dec_nat.induct)
  case (1 n)
  show ?case
  proof (cases "n < 10")
    case True
    then show ?thesis by (subst dec_nat.simps) (simp add: digits_nat_def)
  next
    case False
    with 1 show ?thesis by (subst dec_nat.simps) simp
  qed
qed

lemma dec_nat_inject: "dec_nat m = dec_nat n \<longleftrightarrow> m = n"
  by (metis digits_nat_dec_nat)

lemma hd_dec_nat: "hd (dec_nat n) = 48 \<longleftrightarrow> n = 0"
proof (induction n rule: dec_nat.induct)
  case (1 n)
  show ?case
  proof (cases "n < 10")
    case True
    then show ?thesis by (subst dec_nat.simps) simp
  next
    case False
    with 1 have "hd (dec_nat (n div 10)) = 48 \<longleftrightarrow> n div 10 = 0" by simp
    with False show ?thesis by (subst dec_nat.simps) (simp add: hd_append)
  qed
qed

lemma length_dec_nat: "n < 10 ^ k \<Longrightarrow> 0 < k \<Longrightarrow> length (dec_nat n) \<le> k"
proof (induction k arbitrary: n)
  case 0
  then show ?case by simp
next
  case (Suc k)
  show ?case
  proof (cases "n < 10")
    case True
    then show ?thesis by (subst dec_nat.simps) simp
  next
    case False
    with Suc.prems have "n div 10 < 10 ^ k" "0 < k"
      by (auto intro: gr0I simp: less_mult_imp_div_less mult.commute)
    with Suc.IH have "length (dec_nat (n div 10)) \<le> k" by blast
    with False show ?thesis by (subst dec_nat.simps) simp
  qed
qed

section \<open>Hexadecimal\<close>

definition hex_digit :: "nat \<Rightarrow> nat" where
  "hex_digit d = (if d < 10 then 48 + d else 87 + d)"

fun hex_nat :: "nat \<Rightarrow> ustr" where
  "hex_nat n = (if n < 16 then [hex_digit n] else hex_nat (n div 16) @ [hex_digit (n mod 16)])"

declare hex_nat.simps [simp del]

text \<open>Exactly \<open>w\<close> digits: \<^verbatim>\<open>{n:0wx}\<close> for \<open>n\<close> below \<open>16 ^ w\<close>.\<close>

fun hex_fixed :: "nat \<Rightarrow> nat \<Rightarrow> ustr" where
  "hex_fixed 0 n = []"
| "hex_fixed (Suc w) n = hex_fixed w (n div 16) @ [hex_digit (n mod 16)]"

text \<open>\<^verbatim>\<open>{v:#x}\<close> and, for a 32-bit value, \<^verbatim>\<open>{v:#010x}\<close>.\<close>

definition hex_alt :: "int \<Rightarrow> ustr" where
  "hex_alt v = (if v < 0 then [45] else []) @ ascii ''0x'' @ hex_nat (nat \<bar>v\<bar>)"

definition hex_crc :: "int \<Rightarrow> ustr" where
  "hex_crc v = ascii ''0x'' @ hex_fixed 8 (nat v)"

lemma length_hex_fixed [simp]: "length (hex_fixed w n) = w"
  by (induction w arbitrary: n) simp_all

definition hex_bytes :: "bytes \<Rightarrow> ustr" where
  "hex_bytes bs = concat (map (\<lambda>b. hex_fixed 2 (unat b)) bs)"

lemma length_hex_bytes [simp]: "length (hex_bytes bs) = 2 * length bs"
  by (induction bs) (simp_all add: hex_bytes_def)

lemma hex_digit_printable: "d < 16 \<Longrightarrow> 48 \<le> hex_digit d \<and> hex_digit d \<le> 102"
  by (simp add: hex_digit_def)

lemma hex_fixed_printable: "c \<in> set (hex_fixed w n) \<Longrightarrow> 48 \<le> c \<and> c \<le> 102"
  by (induction w arbitrary: n) (auto simp: hex_digit_def)

lemma hex_bytes_printable: "c \<in> set (hex_bytes bs) \<Longrightarrow> 48 \<le> c \<and> c \<le> 102"
  by (auto simp: hex_bytes_def dest: hex_fixed_printable simp del: hex_fixed.simps)

lemma hex_nat_printable: "c \<in> set (hex_nat n) \<Longrightarrow> 48 \<le> c \<and> c \<le> 102"
proof (induction n rule: hex_nat.induct)
  case (1 n)
  then show ?case
    by (subst (asm) hex_nat.simps) (auto simp: hex_digit_def split: if_splits)
qed

lemma length_hex_nat: "n < 16 ^ k \<Longrightarrow> 0 < k \<Longrightarrow> length (hex_nat n) \<le> k"
proof (induction k arbitrary: n)
  case 0
  then show ?case by simp
next
  case (Suc k)
  show ?case
  proof (cases "n < 16")
    case True
    then show ?thesis by (subst hex_nat.simps) simp
  next
    case False
    with Suc.prems have "n div 16 < 16 ^ k" "0 < k"
      by (auto intro: gr0I simp: less_mult_imp_div_less mult.commute)
    with Suc.IH have "length (hex_nat (n div 16)) \<le> k" by blast
    with False show ?thesis by (subst hex_nat.simps) simp
  qed
qed

section \<open>Joining texts\<close>

text \<open>\<^verbatim>\<open>sep.join(parts)\<close>\<close>

fun joined :: "ustr \<Rightarrow> ustr list \<Rightarrow> ustr" where
  "joined sep [] = []"
| "joined sep [t] = t"
| "joined sep (t # ts) = t @ sep @ joined sep ts"

section \<open>The \<^verbatim>\<open>repr\<close> of a bytes object\<close>

definition repr_byte :: "nat \<Rightarrow> nat \<Rightarrow> ustr" where
  "repr_byte q c =
     (if c = q \<or> c = 92 then [92, c]
      else if c = 9 then ascii [CHR 92, CHR ''t'']
      else if c = 10 then ascii [CHR 92, CHR ''n'']
      else if c = 13 then ascii [CHR 92, CHR ''r'']
      else if c < 32 \<or> 127 \<le> c then ascii [CHR 92, CHR ''x''] @ hex_fixed 2 c
      else [c])"

definition repr_bytes :: "bytes \<Rightarrow> ustr" where
  "repr_bytes bs =
     (let cs = map unat bs; q = (if 39 \<in> set cs \<and> 34 \<notin> set cs then 34 else 39)
      in [98, q] @ concat (map (repr_byte q) cs) @ [q])"

lemma length_repr_byte: "length (repr_byte q c) \<le> 4"
  by (simp add: repr_byte_def numeral_2_eq_2)

lemma length_repr_bytes: "length (repr_bytes bs) \<le> 4 * length bs + 3"
proof -
  have "length (concat (map (repr_byte q) cs)) \<le> 4 * length cs" for q cs
  proof (induction cs)
    case Nil
    then show ?case by simp
  next
    case (Cons c cs)
    with length_repr_byte [of q c] show ?case by simp
  qed
  from this [of "if 39 \<in> set (map unat bs) \<and> 34 \<notin> set (map unat bs) then 34 else 39"
      "map unat bs"]
  show ?thesis by (simp add: repr_bytes_def Let_def)
qed

lemma repr_byte_ascii: "q < 128 \<Longrightarrow> x \<in> set (repr_byte q c) \<Longrightarrow> x < 128"
  by (auto simp: repr_byte_def ascii_def simp del: hex_fixed.simps dest: hex_fixed_printable
      split: if_splits)

lemma repr_bytes_ascii: "x \<in> set (repr_bytes bs) \<Longrightarrow> x < 128"
  by (auto simp: repr_bytes_def Let_def dest: repr_byte_ascii [rotated] split: if_splits)

end
