(* ===== verification/Crc32.thy ===== *)
theory Crc32
  imports Bytes
begin

text \<open>
  \<^verbatim>\<open>zlib.crc32\<close>, which the codec calls: the reflected CRC with polynomial 0xEDB88320, initial
  value and final exclusive-or 0xFFFFFFFF, one bit at a time.
\<close>

definition crc_bit :: "32 word \<Rightarrow> 32 word" where
  "crc_bit c = (if c AND 1 = 1 then drop_bit 1 c XOR 0xEDB88320 else drop_bit 1 c)"

definition crc_byte :: "32 word \<Rightarrow> byte \<Rightarrow> 32 word" where
  "crc_byte c b = (crc_bit ^^ 8) (c XOR ucast b)"

definition crc32_word :: "bytes \<Rightarrow> 32 word" where
  "crc32_word bs = foldl crc_byte 0xFFFFFFFF bs XOR 0xFFFFFFFF"

definition crc32 :: "bytes \<Rightarrow> int" where
  "crc32 bs = uint (crc32_word bs)"

lemma crc32_bounds: "0 \<le> crc32 bs" "crc32 bs < 2 ^ 32"
  using unsigned_less [of "crc32_word bs", where ?'a = int]
  by (simp_all add: crc32_def)

text \<open>The published check value of this CRC, over the ASCII digits 1 to 9.\<close>

lemma funpow_8: "(f ^^ 8) x = f (f (f (f (f (f (f (f x)))))))"
  by (simp add: eval_nat_numeral)

lemma crc32_check: "crc32 (ascii_bytes ''123456789'') = 0xCBF43926"
  by (simp add: crc32_def crc32_word_def crc_byte_def crc_bit_def ascii_bytes_def funpow_8)

lemma crc32_Nil: "crc32 [] = 0"
  by (simp add: crc32_def crc32_word_def)

section \<open>A change of one byte always changes the CRC\<close>

lemma xor_right_inject: "a XOR c = b XOR c \<longleftrightarrow> a = b" for a b c :: "32 word"
proof
  assume "a XOR c = b XOR c"
  then have "(a XOR c) XOR c = (b XOR c) XOR c" by (rule arg_cong)
  then show "a = b" by (simp add: xor.assoc)
qed simp

lemma bit_31_poly: "bit (0xEDB88320 :: 32 word) 31"
  by simp

lemma crc_bit_bit_31: "bit (crc_bit c) 31 \<longleftrightarrow> bit c 0"
proof -
  have "\<not> bit c 32" using bit_imp_le_length [of c 32] by auto
  moreover have "c AND 1 = 1 \<longleftrightarrow> bit c 0"
    by (simp add: and_one_eq mod_2_eq_odd bit_0)
  ultimately show ?thesis
    using bit_31_poly by (simp add: crc_bit_def bit_simps)
qed

lemma crc_bit_inject: "crc_bit c = crc_bit d \<longleftrightarrow> c = d"
proof
  assume eq: "crc_bit c = crc_bit d"
  then have low: "bit c 0 = bit d 0" by (metis crc_bit_bit_31)
  have "c AND 1 = 1 \<longleftrightarrow> bit c 0" "d AND 1 = 1 \<longleftrightarrow> bit d 0"
    by (simp_all add: and_one_eq mod_2_eq_odd bit_0)
  with eq low have high: "drop_bit 1 c = drop_bit 1 d"
    by (auto simp: crc_bit_def xor_right_inject split: if_splits)
  show "c = d"
  proof (rule bit_eqI)
    fix n
    show "bit c n = bit d n"
      using low arg_cong [OF high, of "\<lambda>w. bit w (n - 1)"]
      by (cases n) (simp_all add: bit_simps)
  qed
qed simp

lemma crc_bits_inject: "(crc_bit ^^ n) c = (crc_bit ^^ n) d \<longleftrightarrow> c = d"
  by (induction n) (simp_all add: crc_bit_inject)

lemma crc_byte_inject_state: "crc_byte c b = crc_byte d b \<longleftrightarrow> c = d"
  by (simp add: crc_byte_def crc_bits_inject xor_right_inject)

lemma unat_byte_to_32: "unat (ucast b :: 32 word) = unat b" for b :: byte
proof -
  have "unat b < 2 ^ 32" by (rule less_trans [OF unat_byte_less]) simp
  then show ?thesis by (simp add: unsigned_ucast_eq take_bit_nat_eq_self)
qed

lemma crc_byte_inject_byte: "crc_byte c a = crc_byte c b \<longleftrightarrow> a = b"
proof -
  have "crc_byte c a = crc_byte c b \<longleftrightarrow> (ucast a :: 32 word) = ucast b"
    by (simp add: crc_byte_def crc_bits_inject xor_right_inject xor.commute [of c])
  also have "\<dots> \<longleftrightarrow> a = b"
    by (metis unat_byte_to_32 word_unat_eq_iff)
  finally show ?thesis .
qed

lemma crc_run_inject: "foldl crc_byte c bs = foldl crc_byte d bs \<longleftrightarrow> c = d"
  by (induction bs arbitrary: c d) (simp_all add: crc_byte_inject_state)

lemma crc32_one_byte: "crc32 (xs @ a # ys) = crc32 (xs @ b # ys) \<longleftrightarrow> a = b"
  by (simp add: crc32_def crc32_word_def word_uint_eq_iff [symmetric] crc_run_inject
      crc_byte_inject_byte xor_right_inject)


end
