(* ===== verification/Sha256.thy ===== *)
theory Sha256
  imports Bytes
begin

text \<open>
  \<^verbatim>\<open>hashlib.sha256\<close> (FIPS 180-4) and \<^verbatim>\<open>hmac.new(key, msg, sha256).digest()\<close> (RFC 2104), the
  standard-library functions behind \<^verbatim>\<open>codec.sign\<close>. The development uses one fact about them,
  the length of the digest; no theorem rests on a cryptographic assumption.
\<close>

section \<open>SHA-256\<close>

text \<open>The round constants, eight words of 32 bits to a row.\<close>

definition sha256_k :: "32 word list" where
  "sha256_k = concat (map
     (\<lambda>row :: int. map (\<lambda>i. word_of_int (drop_bit (224 - 32 * i) row)) [0..<8])
     [0x428a2f9871374491b5c0fbcfe9b5dba53956c25b59f111f1923f82a4ab1c5ed5,
      0xd807aa9812835b01243185be550c7dc372be5d7480deb1fe9bdc06a7c19bf174,
      0xe49b69c1efbe47860fc19dc6240ca1cc2de92c6f4a7484aa5cb0a9dc76f988da,
      0x983e5152a831c66db00327c8bf597fc7c6e00bf3d5a7914706ca635114292967,
      0x27b70a852e1b21384d2c6dfc53380d13650a7354766a0abb81c2c92e92722c85,
      0xa2bfe8a1a81a664bc24b8b70c76c51a3d192e819d6990624f40e3585106aa070,
      0x19a4c1161e376c082748774c34b0bcb5391c0cb34ed8aa4a5b9cca4f682e6ff3,
      0x748f82ee78a5636f84c878148cc7020890befffaa4506cebbef9a3f7c67178f2])"

type_synonym hash_state =
  "32 word \<times> 32 word \<times> 32 word \<times> 32 word \<times> 32 word \<times> 32 word \<times> 32 word \<times> 32 word"

definition sha256_init :: hash_state where
  "sha256_init = (0x6a09e667, 0xbb67ae85, 0x3c6ef372, 0xa54ff53a,
     0x510e527f, 0x9b05688c, 0x1f83d9ab, 0x5be0cd19)"

definition rotr :: "nat \<Rightarrow> 32 word \<Rightarrow> 32 word" where
  "rotr n x = drop_bit n x OR push_bit (32 - n) x"

text \<open>The message schedule, kept in reverse: the newest word first.\<close>

fun extend_schedule :: "nat \<Rightarrow> 32 word list \<Rightarrow> 32 word list" where
  "extend_schedule 0 w = w"
| "extend_schedule (Suc n) w =
     (let w2 = w ! 1; w7 = w ! 6; w15 = w ! 14; w16 = w ! 15;
          s0 = rotr 7 w15 XOR rotr 18 w15 XOR drop_bit 3 w15;
          s1 = rotr 17 w2 XOR rotr 19 w2 XOR drop_bit 10 w2
      in extend_schedule n ((w16 + s0 + w7 + s1) # w))"

fun sha256_round :: "hash_state \<Rightarrow> 32 word \<times> 32 word \<Rightarrow> hash_state" where
  "sha256_round (a, b, c, d, e, f, g, h) (k, w) =
     (let s1 = rotr 6 e XOR rotr 11 e XOR rotr 25 e;
          ch = (e AND f) XOR (NOT e AND g);
          t1 = h + s1 + ch + k + w;
          s0 = rotr 2 a XOR rotr 13 a XOR rotr 22 a;
          maj = (a AND b) XOR (a AND c) XOR (b AND c)
      in (t1 + (s0 + maj), a, b, c, d + t1, e, f, g))"

fun sha256_add :: "hash_state \<Rightarrow> hash_state \<Rightarrow> hash_state" where
  "sha256_add (a, b, c, d, e, f, g, h) (a', b', c', d', e', f', g', h') =
     (a + a', b + b', c + c', d + d', e + e', f + f', g + g', h + h')"

definition sha256_block :: "hash_state \<Rightarrow> 32 word list \<Rightarrow> hash_state" where
  "sha256_block st ws =
     sha256_add st (foldl sha256_round st (zip sha256_k (rev (extend_schedule 48 (rev ws)))))"

fun words32 :: "bytes \<Rightarrow> 32 word list" where
  "words32 (a # b # c # d # bs) = word_of_nat (be_nat [a, b, c, d]) # words32 bs"
| "words32 _ = []"

function sha256_blocks :: "hash_state \<Rightarrow> bytes \<Rightarrow> hash_state" where
  "sha256_blocks st bs =
     (if bs = [] then st
      else sha256_blocks (sha256_block st (words32 (take 64 bs))) (drop 64 bs))"
  by pat_completeness auto
termination
  by (relation "measure (\<lambda>(_, bs). length bs)") auto

declare sha256_blocks.simps [simp del]

definition sha256_pad :: "bytes \<Rightarrow> bytes" where
  "sha256_pad bs =
     bs @ [0x80] @ replicate ((119 - length bs mod 64) mod 64) 0 @ be_bytes 8 (8 * length bs)"

definition sha256 :: "bytes \<Rightarrow> bytes" where
  "sha256 bs =
     (case sha256_blocks sha256_init (sha256_pad bs) of (a, b, c, d, e, f, g, h) \<Rightarrow>
        concat (map (\<lambda>w. be_bytes 4 (unat w)) [a, b, c, d, e, f, g, h]))"

section \<open>HMAC\<close>

definition hmac_sha256 :: "bytes \<Rightarrow> bytes \<Rightarrow> bytes" where
  "hmac_sha256 key msg =
     (let k0 = (if 64 < length key then sha256 key else key);
          k = k0 @ replicate (64 - length k0) 0
      in sha256 (map (\<lambda>b. b XOR 0x5c) k @ sha256 (map (\<lambda>b. b XOR 0x36) k @ msg)))"

section \<open>The digest has 32 bytes\<close>

lemma length_sha256 [simp]: "length (sha256 bs) = 32"
  by (simp add: sha256_def be.length_put split: prod.split)

lemma length_hmac_sha256 [simp, bytes_simps]: "length (hmac_sha256 key msg) = 32"
  by (simp add: hmac_sha256_def Let_def)

text \<open>Padding fills whole blocks, so every byte of the message is hashed.\<close>

lemma pad_to_block: "(m + 9 + (119 - m mod 64) mod 64) mod 64 = (0::nat)"
proof -
  define r where "r = m mod 64"
  have "r + 9 + (119 - r) mod 64 = (if r \<le> 55 then 64 else 128)" if "r < 64"
  proof (cases "r \<le> 55")
    case True
    then have "119 - r = (55 - r) + 64" by simp
    then have "(119 - r) mod 64 = (55 - r + 64) mod 64" by (simp only:)
    also have "\<dots> = 55 - r" by simp
    finally show ?thesis using True by simp
  next
    case False
    with that show ?thesis by simp
  qed
  then have "(r + 9 + (119 - r) mod 64) mod 64 = 0"
    by (simp add: r_def)
  then show ?thesis
    unfolding r_def by (metis mod_add_left_eq)
qed

lemma sha256_pad_whole_blocks: "length (sha256_pad bs) mod 64 = 0"
  using pad_to_block [of "length bs"] by (simp add: sha256_pad_def be.length_put ac_simps)

end
