(* ===== verification/Codec.thy ===== *)
theory Codec
  imports Pytext Crc32 Sha256
begin

text \<open>
  \<^verbatim>\<open>src/wireline/protocol/codec.py\<close>: the wire format of a frame. One definition per function
  of the module, in its order; every \<^verbatim>\<open>raise\<close> is a branch with the error code and the text of
  the message. The lemmas show that \<open>encode\<close> never raises \<^verbatim>\<open>struct.error\<close>, that decoding
  inverts encoding and accepts nothing else (a frame has exactly one encoding), and which
  check fails first.
\<close>

section \<open>Constants\<close>

definition MAGIC :: bytes where [const_defs]: "MAGIC = ascii_bytes ''WIRE''"
definition VERSION :: int where [const_defs]: "VERSION = 1"
definition HEADER_SIZE :: nat where [const_defs]: "HEADER_SIZE = 4 + 1 + 1 + 1 + 4 + 4 + 4"
definition MAC_SIZE :: nat where [const_defs]: "MAC_SIZE = 32"
definition MAX_PAYLOAD :: nat where [const_defs]: "MAX_PAYLOAD = 2 ^ 20"
definition MAX_SEQ :: int where [const_defs]: "MAX_SEQ = 2 ^ 32 - 1"
definition FLAG_REQUIRE_ACK :: int where [const_defs]: "FLAG_REQUIRE_ACK = 1"
definition FLAG_RETRANSMIT :: int where [const_defs]: "FLAG_RETRANSMIT = 2"
definition FLAG_COMPRESSED :: int where [const_defs]: "FLAG_COMPRESSED = 4"
definition KNOWN_FLAGS :: int where [const_defs]:
  "KNOWN_FLAGS = FLAG_REQUIRE_ACK OR FLAG_RETRANSMIT"

lemma header_size [simp, bytes_simps]: "HEADER_SIZE = 19"
  by (simp add: HEADER_SIZE_def)

lemma mac_size [simp, bytes_simps]: "MAC_SIZE = 32"
  by (simp add: MAC_SIZE_def)

lemma length_MAGIC [simp]: "length MAGIC = 4"
  by (simp add: MAGIC_def)

lemma known_flags: "KNOWN_FLAGS = 3"
  by (simp add: const_defs)

section \<open>Message types\<close>

datatype msg_type = HELLO | HELLO_ACK | DATA | ACK | PING | PONG | ERROR | BYE

fun msg_val :: "msg_type \<Rightarrow> int" where
  "msg_val HELLO = 1"
| "msg_val HELLO_ACK = 2"
| "msg_val DATA = 3"
| "msg_val ACK = 4"
| "msg_val PING = 5"
| "msg_val PONG = 6"
| "msg_val ERROR = 7"
| "msg_val BYE = 8"

definition msg_types :: "msg_type list" where
  "msg_types = [HELLO, HELLO_ACK, DATA, ACK, PING, PONG, ERROR, BYE]"

text \<open>The enum's constructor \<^verbatim>\<open>MsgType(typ)\<close>; \<open>None\<close> is its \<^verbatim>\<open>ValueError\<close>.\<close>

definition msg_of_val :: "int \<Rightarrow> msg_type option" where
  "msg_of_val v = find (\<lambda>t. msg_val t = v) msg_types"

fun msg_name :: "msg_type \<Rightarrow> ustr" where
  "msg_name HELLO = ascii ''HELLO''"
| "msg_name HELLO_ACK = ascii ''HELLO_ACK''"
| "msg_name DATA = ascii ''DATA''"
| "msg_name ACK = ascii ''ACK''"
| "msg_name PING = ascii ''PING''"
| "msg_name PONG = ascii ''PONG''"
| "msg_name ERROR = ascii ''ERROR''"
| "msg_name BYE = ascii ''BYE''"

lemma msg_val_bounds: "1 \<le> msg_val t \<and> msg_val t \<le> 8"
  by (cases t) simp_all

lemma msg_of_val_msg_val [simp]: "msg_of_val (msg_val t) = Some t"
  by (cases t) (simp_all add: msg_of_val_def msg_types_def)

lemma msg_of_val_Some: "msg_of_val v = Some t \<longleftrightarrow> v = msg_val t"
  by (auto simp: msg_of_val_def find_Some_iff) (metis msg_of_val_def msg_of_val_msg_val find_Some_iff)

lemma msg_of_val_None: "msg_of_val v = None \<longleftrightarrow> v < 1 \<or> 8 < v"
proof -
  have "v \<in> msg_val ` set msg_types \<longleftrightarrow> 1 \<le> v \<and> v \<le> 8"
    by (auto simp: msg_types_def)
  then show ?thesis by (auto simp: msg_of_val_def find_None_iff image_iff)
qed

lemma msg_val_inject [simp]: "msg_val s = msg_val t \<longleftrightarrow> s = t"
  by (metis msg_of_val_msg_val option.inject)

instantiation msg_type :: linorder
begin

definition less_eq_msg_type :: "msg_type \<Rightarrow> msg_type \<Rightarrow> bool" where
  "less_eq_msg_type s t \<longleftrightarrow> msg_val s \<le> msg_val t"

definition less_msg_type :: "msg_type \<Rightarrow> msg_type \<Rightarrow> bool" where
  "less_msg_type s t \<longleftrightarrow> msg_val s < msg_val t"

instance
  by standard (auto simp: less_eq_msg_type_def less_msg_type_def)

end

section \<open>Headers and frames\<close>

record header =
  h_type :: msg_type
  h_flags :: int
  h_seq :: int
  h_length :: nat
  h_crc :: int

record frame =
  f_type :: msg_type
  f_seq :: int
  f_payload :: bytes
  f_flags :: int

definition mk_frame :: "msg_type \<Rightarrow> int \<Rightarrow> bytes \<Rightarrow> int \<Rightarrow> frame" where
  "mk_frame t s p fl = \<lparr>f_type = t, f_seq = s, f_payload = p, f_flags = fl\<rparr>"

lemma mk_frame_sel [simp]:
  "f_type (mk_frame t s p fl) = t" "f_seq (mk_frame t s p fl) = s"
  "f_payload (mk_frame t s p fl) = p" "f_flags (mk_frame t s p fl) = fl"
  by (simp_all add: mk_frame_def)

lemma mk_frame_eta: "mk_frame (f_type f) (f_seq f) (f_payload f) (f_flags f) = f"
  by (simp add: mk_frame_def)

text \<open>\<^verbatim>\<open>Frame.__repr__\<close>; the format \<^verbatim>\<open>02x\<close> counts a sign and pads after it.\<close>

definition hex_02 :: "int \<Rightarrow> ustr" where
  "hex_02 v =
     (let sign = (if v < 0 then [45] else []); digits = hex_nat (nat \<bar>v\<bar>)
      in sign @ replicate (2 - length sign - length digits) 48 @ digits)"

definition frame_repr :: "frame \<Rightarrow> ustr" where
  "frame_repr f =
     ascii ''Frame('' @ msg_name (f_type f) @ ascii '', seq='' @ dec_int (f_seq f) @ ascii '', len=''
       @ dec_nat (length (f_payload f)) @ ascii '', flags=0x'' @ hex_02 (f_flags f) @ ascii '')''"

text \<open>\<^verbatim>\<open>HEADER.pack\<close> and \<^verbatim>\<open>HEADER.unpack\<close> for the format \<^verbatim>\<open>!4sBBBIII\<close>.\<close>

definition header_pack :: "bytes \<Rightarrow> int \<Rightarrow> int \<Rightarrow> int \<Rightarrow> int \<Rightarrow> int \<Rightarrow> int \<Rightarrow> bytes res" where
  "header_pack magic ver typ flags seq len crc =
     rbind (pack_uint be_bytes 1 ver) (\<lambda>v.
     rbind (pack_uint be_bytes 1 typ) (\<lambda>t.
     rbind (pack_uint be_bytes 1 flags) (\<lambda>fl.
     rbind (pack_uint be_bytes 4 seq) (\<lambda>s.
     rbind (pack_uint be_bytes 4 len) (\<lambda>n.
     rbind (pack_uint be_bytes 4 crc) (\<lambda>c.
       Inr (take 4 (magic @ replicate 4 0) @ v @ t @ fl @ s @ n @ c)))))))"

definition header_unpack :: "bytes \<Rightarrow> bytes \<times> nat \<times> nat \<times> nat \<times> nat \<times> nat \<times> nat" where
  "header_unpack raw =
     (take 4 raw, be_nat (pyslice 4 5 raw), be_nat (pyslice 5 6 raw), be_nat (pyslice 6 7 raw),
      be_nat (pyslice 7 11 raw), be_nat (pyslice 11 15 raw), be_nat (pyslice 15 19 raw))"

section \<open>Encoding\<close>

definition sign :: "bytes \<Rightarrow> bytes \<Rightarrow> bytes \<Rightarrow> bytes" where
  "sign header payload secret = hmac_sha256 secret (header @ payload)"

definition encode :: "frame \<Rightarrow> bytes \<Rightarrow> bytes res" where
  "encode frame secret =
     (if MAX_PAYLOAD < length (f_payload frame) then
        Inl (ProtocolError ERR_LENGTH
          (ascii ''payload too large: '' @ dec_nat (length (f_payload frame))))
      else if \<not> (0 \<le> f_seq frame \<and> f_seq frame \<le> MAX_SEQ) then
        Inl (ProtocolError ERR_SEQ (ascii ''seq out of range: '' @ dec_int (f_seq frame)))
      else if f_flags frame AND NOT KNOWN_FLAGS \<noteq> 0 then
        Inl (ProtocolError ERR_FLAGS (ascii ''unsupported flags: '' @ hex_alt (f_flags frame)))
      else
        let crc = crc32 (f_payload frame) AND 0xFFFFFFFF
        in rbind (header_pack MAGIC VERSION (msg_val (f_type frame)) (f_flags frame)
               (f_seq frame) (int (length (f_payload frame))) crc)
             (\<lambda>header. Inr (header @ f_payload frame @ sign header (f_payload frame) secret)))"

section \<open>Decoding\<close>

definition decode_header :: "bytes \<Rightarrow> header res" where
  "decode_header raw =
     (if length raw \<noteq> HEADER_SIZE then
        Inl (ProtocolError ERR_LENGTH
          (ascii ''short header: '' @ dec_nat (length raw) @ ascii '' bytes''))
      else
        case header_unpack raw of (magic, ver, typ, flags, seq, len, crc) \<Rightarrow>
          if magic \<noteq> MAGIC then
            Inl (ProtocolError ERR_MAGIC (ascii ''bad magic '' @ repr_bytes magic))
          else if int ver \<noteq> VERSION then
            Inl (ProtocolError ERR_VERSION (ascii ''unsupported version '' @ dec_nat ver))
          else if MAX_PAYLOAD < len then
            Inl (ProtocolError ERR_LENGTH
              (ascii ''declared length '' @ dec_nat len @ ascii '' exceeds limit ''
                 @ dec_nat MAX_PAYLOAD))
          else if int flags AND NOT KNOWN_FLAGS \<noteq> 0 then
            Inl (ProtocolError ERR_FLAGS (ascii ''unsupported flags: '' @ hex_alt (int flags)))
          else
            case msg_of_val (int typ) of
              None \<Rightarrow>
                Inl (ProtocolError ERR_TYPE (ascii ''unknown message type '' @ dec_nat typ))
            | Some t \<Rightarrow>
                Inr \<lparr>h_type = t, h_flags = int flags, h_seq = int seq, h_length = len,
                     h_crc = int crc\<rparr>)"

definition verify_crc :: "bytes \<Rightarrow> int \<Rightarrow> unit res" where
  "verify_crc payload expected =
     (let actual = crc32 payload AND 0xFFFFFFFF
      in if actual \<noteq> expected then
           Inl (ProtocolError ERR_CRC (ascii ''crc mismatch: got '' @ hex_crc actual
                  @ ascii '', want '' @ hex_crc expected))
         else Inr ())"

text \<open>\<^verbatim>\<open>hmac.compare_digest\<close> decides equality of the two byte strings.\<close>

definition verify_mac :: "bytes \<Rightarrow> bytes \<Rightarrow> bytes \<Rightarrow> bytes \<Rightarrow> unit res" where
  "verify_mac header payload mac secret =
     (if sign header payload secret \<noteq> mac then
        Inl (ProtocolError ERR_AUTH (ascii ''hmac mismatch''))
      else Inr ())"

definition decode_frame :: "bytes \<Rightarrow> bytes \<Rightarrow> bytes \<Rightarrow> bytes option \<Rightarrow> frame res" where
  "decode_frame raw_header payload mac secret =
     rbind (decode_header raw_header) (\<lambda>header.
       if length payload \<noteq> h_length header then
         Inl (ProtocolError ERR_LENGTH
           (ascii ''body is '' @ dec_nat (length payload) @ ascii '' bytes, header declared ''
              @ dec_nat (h_length header)))
       else if length mac \<noteq> MAC_SIZE then
         Inl (ProtocolError ERR_AUTH
           (ascii ''short mac: '' @ dec_nat (length mac) @ ascii '' bytes''))
       else
         rbind (verify_crc payload (h_crc header)) (\<lambda>_.
         rbind (case secret of None \<Rightarrow> Inr () | Some key \<Rightarrow> verify_mac raw_header payload mac key)
           (\<lambda>_. Inr (mk_frame (h_type header) (h_seq header) payload (h_flags header)))))"

text \<open>\<^verbatim>\<open>raw[HEADER.size : -MAC_SIZE]\<close> and \<^verbatim>\<open>raw[-MAC_SIZE:]\<close> count from the end.\<close>

definition decode :: "bytes \<Rightarrow> bytes option \<Rightarrow> frame res" where
  "decode raw secret =
     (if length raw < HEADER_SIZE + MAC_SIZE then
        Inl (ProtocolError ERR_LENGTH
          (ascii ''runt frame: '' @ dec_nat (length raw) @ ascii '' bytes''))
      else
        decode_frame (take HEADER_SIZE raw)
          (pyslice HEADER_SIZE (length raw - MAC_SIZE) raw)
          (drop (length raw - MAC_SIZE) raw) secret)"

section \<open>Well-formed headers and frames, and their bytes\<close>

definition header_ok :: "header \<Rightarrow> bool" where
  "header_ok h \<longleftrightarrow> 0 \<le> h_flags h \<and> h_flags h < 4 \<and> 0 \<le> h_seq h \<and> h_seq h \<le> MAX_SEQ
     \<and> h_length h \<le> MAX_PAYLOAD \<and> 0 \<le> h_crc h \<and> h_crc h < 2 ^ 32"

definition header_bytes :: "header \<Rightarrow> bytes" where
  "header_bytes h =
     MAGIC @ be_bytes 1 1 @ be_bytes 1 (nat (msg_val (h_type h))) @ be_bytes 1 (nat (h_flags h))
       @ be_bytes 4 (nat (h_seq h)) @ be_bytes 4 (h_length h) @ be_bytes 4 (nat (h_crc h))"

definition frame_ok :: "frame \<Rightarrow> bool" where
  "frame_ok f \<longleftrightarrow> length (f_payload f) \<le> MAX_PAYLOAD \<and> 0 \<le> f_seq f \<and> f_seq f \<le> MAX_SEQ
     \<and> 0 \<le> f_flags f \<and> f_flags f < 4"

definition header_of :: "frame \<Rightarrow> header" where
  "header_of f = \<lparr>h_type = f_type f, h_flags = f_flags f, h_seq = f_seq f,
     h_length = length (f_payload f), h_crc = crc32 (f_payload f)\<rparr>"

definition frame_bytes :: "frame \<Rightarrow> bytes \<Rightarrow> bytes" where
  "frame_bytes f mac = header_bytes (header_of f) @ f_payload f @ mac"

definition frame_mac :: "frame \<Rightarrow> bytes \<Rightarrow> bytes" where
  "frame_mac f secret = sign (header_bytes (header_of f)) (f_payload f) secret"

lemma length_sign [simp, bytes_simps]: "length (sign h p k) = 32"
  by (simp add: sign_def)

lemma length_frame_mac [simp, bytes_simps]: "length (frame_mac f k) = 32"
  by (simp add: frame_mac_def)

lemma length_header_bytes [simp, bytes_simps]: "length (header_bytes h) = 19"
  by (simp add: header_bytes_def)

lemma length_frame_bytes [simp, bytes_simps]:
  "length (frame_bytes f mac) = 19 + length (f_payload f) + length mac"
  by (simp add: frame_bytes_def)

lemma header_of_ok: "frame_ok f \<Longrightarrow> header_ok (header_of f)"
  using crc32_bounds [of "f_payload f"] by (simp add: header_ok_def header_of_def frame_ok_def)

lemma header_of_sel [simp]:
  "h_type (header_of f) = f_type f" "h_flags (header_of f) = f_flags f"
  "h_seq (header_of f) = f_seq f" "h_length (header_of f) = length (f_payload f)"
  "h_crc (header_of f) = crc32 (f_payload f)"
  by (simp_all add: header_of_def)

section \<open>The flag check and the CRC mask\<close>

lemma and_not_mask: "(v :: int) AND NOT (mask n) = push_bit n (drop_bit n v)"
  by (rule bit_eqI) (auto simp: bit_simps)

lemma flags_ok_iff: "(v :: int) AND NOT KNOWN_FLAGS = 0 \<longleftrightarrow> 0 \<le> v \<and> v < 4"
proof -
  have known: "KNOWN_FLAGS = mask 2" by (simp add: known_flags mask_eq_exp_minus_1)
  have "v AND NOT KNOWN_FLAGS = v div 4 * 4"
    unfolding known and_not_mask by (simp add: push_bit_eq_mult drop_bit_eq_div)
  then show ?thesis by auto
qed

lemma and_mask_32: "0 \<le> v \<Longrightarrow> v < 2 ^ 32 \<Longrightarrow> (v :: int) AND 0xFFFFFFFF = v"
proof -
  assume v: "0 \<le> v" "v < 2 ^ 32"
  have "(0xFFFFFFFF :: int) = mask 32" by (simp add: mask_eq_exp_minus_1)
  then have "v AND 0xFFFFFFFF = take_bit 32 v" by (simp only: take_bit_eq_mask)
  with v show ?thesis by (simp add: take_bit_int_eq_self)
qed

lemma crc32_masked [simp]: "crc32 p AND 0xFFFFFFFF = crc32 p"
  by (rule and_mask_32) (rule crc32_bounds)+

section \<open>Encoding succeeds exactly on well-formed frames\<close>

lemma header_pack_ok:
  assumes "frame_ok f"
  shows "header_pack MAGIC VERSION (msg_val (f_type f)) (f_flags f) (f_seq f)
           (int (length (f_payload f))) (crc32 (f_payload f)) = Inr (header_bytes (header_of f))"
  using assms msg_val_bounds [of "f_type f"] crc32_bounds [of "f_payload f"]
  by (simp add: header_pack_def be.pack_uint_ok frame_ok_def header_bytes_def VERSION_def
      MAX_SEQ_def MAX_PAYLOAD_def)

lemma encode_frame_ok:
  assumes "frame_ok f"
  shows "encode f secret = Inr (frame_bytes f (frame_mac f secret))"
proof -
  have "encode f secret =
      rbind (header_pack MAGIC VERSION (msg_val (f_type f)) (f_flags f) (f_seq f)
               (int (length (f_payload f))) (crc32 (f_payload f)))
        (\<lambda>header. Inr (header @ f_payload f @ sign header (f_payload f) secret))"
    using assms by (simp add: encode_def frame_ok_def flags_ok_iff Let_def)
  with assms show ?thesis
    by (simp add: header_pack_ok frame_bytes_def frame_mac_def)
qed

lemma encode_not_ok: "\<not> frame_ok f \<Longrightarrow> \<exists>c m. encode f secret = Inl (ProtocolError c m)"
  by (auto simp: encode_def frame_ok_def flags_ok_iff)

lemma encode_eq_Inr_iff:
  "encode f secret = Inr raw \<longleftrightarrow> frame_ok f \<and> raw = frame_bytes f (frame_mac f secret)"
  using encode_not_ok [of f secret] by (cases "frame_ok f") (auto simp: encode_frame_ok)

section \<open>Decoding a header\<close>

lemma header_fields:
  assumes "length raw = 19"
  shows "raw = take 4 raw @ pyslice 4 5 raw @ pyslice 5 6 raw @ pyslice 6 7 raw
           @ pyslice 7 11 raw @ pyslice 11 15 raw @ pyslice 15 19 raw"
  using assms by (simp add: pyslice_join pyslice_0 [symmetric] pyslice_all)

lemma header_unpack_eqD:
  assumes "length raw = 19"
    and "header_unpack raw = (magic, ver, typ, flags, seq, len, crc)"
  shows "raw = magic @ be_bytes 1 ver @ be_bytes 1 typ @ be_bytes 1 flags
           @ be_bytes 4 seq @ be_bytes 4 len @ be_bytes 4 crc"
    and "ver < 256" "typ < 256" "flags < 256" "seq < 2 ^ 32" "len < 2 ^ 32" "crc < 2 ^ 32"
proof -
  have eqs: "take 4 raw = magic" "be_nat (pyslice 4 5 raw) = ver" "be_nat (pyslice 5 6 raw) = typ"
    "be_nat (pyslice 6 7 raw) = flags" "be_nat (pyslice 7 11 raw) = seq"
    "be_nat (pyslice 11 15 raw) = len" "be_nat (pyslice 15 19 raw) = crc"
    using assms(2) by (auto simp: header_unpack_def)
  have lens: "length (pyslice 4 5 raw) = 1" "length (pyslice 5 6 raw) = 1"
    "length (pyslice 6 7 raw) = 1" "length (pyslice 7 11 raw) = 4" "length (pyslice 11 15 raw) = 4"
    "length (pyslice 15 19 raw) = 4"
    using assms(1) by (simp_all add: length_pyslice)
  note iffs = lens [THEN be.get_eq_iff, THEN iffD1]
  from eqs iffs show "ver < 256" "typ < 256" "flags < 256" "seq < 2 ^ 32" "len < 2 ^ 32"
    "crc < 2 ^ 32"
    by fastforce+
  have "pyslice 4 5 raw = be_bytes 1 ver" "pyslice 5 6 raw = be_bytes 1 typ"
    "pyslice 6 7 raw = be_bytes 1 flags" "pyslice 7 11 raw = be_bytes 4 seq"
    "pyslice 11 15 raw = be_bytes 4 len" "pyslice 15 19 raw = be_bytes 4 crc"
    using eqs iffs by blast+
  with eqs(1) header_fields [OF assms(1)]
  show "raw = magic @ be_bytes 1 ver @ be_bytes 1 typ @ be_bytes 1 flags
           @ be_bytes 4 seq @ be_bytes 4 len @ be_bytes 4 crc"
    by simp
qed

lemma header_unpack_header_bytes:
  assumes "header_ok h"
  shows "header_unpack (header_bytes h) =
    (MAGIC, 1, nat (msg_val (h_type h)), nat (h_flags h), nat (h_seq h), h_length h, nat (h_crc h))"
  using assms msg_val_bounds [of "h_type h"]
  by (simp add: header_unpack_def header_bytes_def pyslice_append pyslice_append_skip be.get_put
      pyslice_all header_ok_def MAX_SEQ_def MAX_PAYLOAD_def nat_less_iff)

lemma decode_header_bytes: "header_ok h \<Longrightarrow> decode_header (header_bytes h) = Inr h"
  using msg_val_bounds [of "h_type h"]
  by (simp add: decode_header_def header_unpack_header_bytes header_ok_def VERSION_def
      flags_ok_iff)

lemma decode_header_InrD:
  assumes "decode_header raw = Inr h"
  shows "header_ok h" and "raw = header_bytes h"
proof -
  have len: "length raw = 19"
    using assms by (auto simp: decode_header_def split: if_splits)
  obtain magic ver ty flags seq len crc where
    u: "header_unpack raw = (magic, ver, ty, flags, seq, len, crc)"
    by (cases "header_unpack raw") auto
  note hraw = header_unpack_eqD [OF len u]
  from assms len u obtain t where fields:
    "magic = MAGIC" "ver = 1" "len \<le> MAX_PAYLOAD" "flags < 4" "int ty = msg_val t"
    "h = \<lparr>h_type = t, h_flags = int flags, h_seq = int seq, h_length = len, h_crc = int crc\<rparr>"
    by (auto simp: decode_header_def VERSION_def flags_ok_iff msg_of_val_Some
        split: if_splits option.splits)
  with hraw show "header_ok h" by (simp add: header_ok_def MAX_SEQ_def)
  from fields(5) have "ty = nat (msg_val t)" by simp
  with fields hraw(1) show "raw = header_bytes h" by (simp add: header_bytes_def)
qed

lemma decode_header_eq_Inr_iff: "decode_header raw = Inr h \<longleftrightarrow> header_ok h \<and> raw = header_bytes h"
  using decode_header_InrD decode_header_bytes by blast

lemma header_bytes_inject: "header_ok h \<Longrightarrow> header_ok h' \<Longrightarrow> header_bytes h = header_bytes h' \<longleftrightarrow> h = h'"
  by (metis decode_header_bytes sum.inject(2))

lemma decode_header_Inl: "decode_header raw = Inl e \<Longrightarrow> is_protocol_error e"
  by (auto simp: decode_header_def split: if_splits option.splits prod.splits)

section \<open>Decoding a frame\<close>

definition mac_ok :: "frame \<Rightarrow> bytes option \<Rightarrow> bytes \<Rightarrow> bool" where
  "mac_ok f secret mac \<longleftrightarrow> length mac = 32
     \<and> (case secret of None \<Rightarrow> True | Some key \<Rightarrow> mac = frame_mac f key)"

lemma verify_crc_eq_Inr_iff: "verify_crc p c = Inr u \<longleftrightarrow> c = crc32 p"
  by (auto simp: verify_crc_def Let_def)

lemma verify_mac_eq_Inr_iff: "verify_mac h p m k = Inr u \<longleftrightarrow> m = sign h p k"
  by (auto simp: verify_mac_def)

lemma decode_frame_Inl: "decode_frame h p m k = Inl e \<Longrightarrow> is_protocol_error e"
  by (auto simp: decode_frame_def verify_crc_def verify_mac_def Let_def rbind_eq_Inl_iff
      dest: decode_header_Inl split: if_splits option.splits)

lemma decode_frame_eq_Inr_iff:
  "decode_frame hb p mac secret = Inr f \<longleftrightarrow>
     frame_ok f \<and> hb = header_bytes (header_of f) \<and> p = f_payload f \<and> mac_ok f secret mac"
proof
  assume "decode_frame hb p mac secret = Inr f"
  then obtain h where h: "decode_header hb = Inr h" "length p = h_length h" "length mac = 32"
    "h_crc h = crc32 p"
    "f = mk_frame (h_type h) (h_seq h) p (h_flags h)"
    "\<And>key. secret = Some key \<Longrightarrow> mac = sign hb p key"
    by (auto simp: decode_frame_def rbind_eq_Inr_iff verify_crc_eq_Inr_iff
        verify_mac_eq_Inr_iff split: if_splits option.splits)
  have sel: "f_type f = h_type h" "f_seq f = h_seq h" "f_payload f = p" "f_flags f = h_flags h"
    by (simp_all add: h(5))
  with h(2,4) have hf: "header_of f = h" by (simp add: header_of_def)
  note ok = decode_header_InrD [OF h(1)]
  from ok(1) sel h(2) have "frame_ok f" by (simp add: frame_ok_def header_ok_def)
  moreover from h(3,6) ok(2) sel hf have "mac_ok f secret mac"
    by (simp add: mac_ok_def frame_mac_def split: option.split)
  ultimately
  show "frame_ok f \<and> hb = header_bytes (header_of f) \<and> p = f_payload f \<and> mac_ok f secret mac"
    using ok(2) sel hf by simp
next
  assume r: "frame_ok f \<and> hb = header_bytes (header_of f) \<and> p = f_payload f \<and> mac_ok f secret mac"
  then have "decode_header hb = Inr (header_of f)"
    by (simp add: decode_header_bytes header_of_ok)
  with r show "decode_frame hb p mac secret = Inr f"
    by (cases secret)
      (auto simp: decode_frame_def mac_ok_def verify_crc_def verify_mac_def frame_mac_def mk_frame_eta)
qed

lemma frame_bytes_parts:
  "take 19 (frame_bytes f mac) = header_bytes (header_of f)"
  "pyslice 19 (19 + length (f_payload f)) (frame_bytes f mac) = f_payload f"
  "drop (19 + length (f_payload f)) (frame_bytes f mac) = mac"
  by (simp_all add: frame_bytes_def pyslice_append_skip pyslice_append pyslice_all)

lemma frame_bytes_split:
  assumes "51 \<le> length raw"
  shows "raw = take 19 raw @ pyslice 19 (length raw - 32) raw @ drop (length raw - 32) raw"
  using assms take_pyslice_drop [of 19 "length raw - 32" raw] by simp

text \<open>
  The central fact of the codec: what decodes to \<open>f\<close> is the one byte string made of \<open>f\<close>'s
  header, its payload and an acceptable MAC.
\<close>

lemma decode_eq_Inr_iff:
  "decode raw secret = Inr f \<longleftrightarrow>
     (\<exists>mac. raw = frame_bytes f mac \<and> frame_ok f \<and> mac_ok f secret mac)"
proof
  assume d: "decode raw secret = Inr f"
  then have "51 \<le> length raw" by (auto simp: decode_def split: if_splits)
  moreover from d have "frame_ok f" "take 19 raw = header_bytes (header_of f)"
    "pyslice 19 (length raw - 32) raw = f_payload f"
    "mac_ok f secret (drop (length raw - 32) raw)"
    by (auto simp: decode_def decode_frame_eq_Inr_iff split: if_splits)
  ultimately show "\<exists>mac. raw = frame_bytes f mac \<and> frame_ok f \<and> mac_ok f secret mac"
    using frame_bytes_split [of raw] by (auto simp: frame_bytes_def)
next
  assume "\<exists>mac. raw = frame_bytes f mac \<and> frame_ok f \<and> mac_ok f secret mac"
  then show "decode raw secret = Inr f"
    by (auto simp: decode_def decode_frame_eq_Inr_iff frame_bytes_parts mac_ok_def
        split: option.split)
qed

lemma decode_Inl: "decode raw secret = Inl e \<Longrightarrow> is_protocol_error e"
  by (auto simp: decode_def dest: decode_frame_Inl split: if_splits)

lemma frame_bytes_inject:
  assumes "frame_ok f" "frame_ok g" "frame_bytes f m = frame_bytes g n"
    "length m = 32" "length n = 32"
  shows "f = g \<and> m = n"
proof -
  have "decode (frame_bytes f m) None = Inr f" "decode (frame_bytes g n) None = Inr g"
    using assms(1,2,4,5) by (auto simp: decode_eq_Inr_iff mac_ok_def)
  with assms(3) have "f = g" by simp
  with assms(3) show ?thesis by (simp add: frame_bytes_def)
qed

lemma decode_parts:
  assumes "length mac = 32"
  shows "decode (hb @ p @ mac) secret =
    (if length hb = 19 then decode_frame hb p mac secret else decode (hb @ p @ mac) secret)"
  using assms by (simp add: decode_def pyslice_append_skip pyslice_append pyslice_all)

lemma decode_good_header:
  assumes "frame_ok f" "length p = length (f_payload f)" "length mac = 32"
  shows "decode (header_bytes (header_of f) @ p @ mac) secret =
    rbind (verify_crc p (crc32 (f_payload f))) (\<lambda>_.
    rbind (case secret of None \<Rightarrow> Inr ()
           | Some key \<Rightarrow> verify_mac (header_bytes (header_of f)) p mac key)
      (\<lambda>_. Inr (mk_frame (f_type f) (f_seq f) p (f_flags f))))"
  using assms
  by (simp add: decode_parts decode_frame_def decode_header_bytes header_of_ok)

lemma crc32_update:
  assumes "i < length p" "p ! i \<noteq> b"
  shows "crc32 (p[i := b]) \<noteq> crc32 p"
proof -
  from assms(1) have "p = take i p @ p ! i # drop (Suc i) p" by (rule id_take_nth_drop)
  moreover have "p[i := b] = take i p @ b # drop (Suc i) p"
    using assms(1) by (rule upd_conv_take_nth_drop)
  ultimately show ?thesis using crc32_one_byte assms(2) by metis
qed

section \<open>Properties\<close>

text \<open>
  C1. With a key, decoding accepts exactly the output of encoding: a byte string decodes to a
  frame if and only if it is that frame's encoding under the same key. Round trip in one
  direction, and no second encoding of any frame in the other.
\<close>

theorem decode_iff_encode: "decode raw (Some secret) = Inr f \<longleftrightarrow> encode f secret = Inr raw"
  by (auto simp: decode_eq_Inr_iff encode_eq_Inr_iff mac_ok_def)


text \<open>
  C3. Changing any one byte of the payload of an encoded frame is detected by the CRC check,
  with or without the key: decoding raises \<open>ERR_CRC\<close>.
\<close>

theorem decode_detects_payload_byte:
  assumes "encode f secret = Inr raw" and "i < length (f_payload f)" and "raw ! (19 + i) \<noteq> b"
  shows "\<exists>m. decode (raw[19 + i := b]) key = Inl (ProtocolError ERR_CRC m)"
proof -
  let ?p = "(f_payload f)[i := b]"
  from assms(1) have ok: "frame_ok f" and raw: "raw = frame_bytes f (frame_mac f secret)"
    by (simp_all add: encode_eq_Inr_iff)
  have upd: "raw[19 + i := b] = header_bytes (header_of f) @ ?p @ frame_mac f secret"
    using assms(2) by (simp add: raw frame_bytes_def list_update_append)
  have "f_payload f ! i \<noteq> b"
    using assms(2,3) by (simp add: raw frame_bytes_def nth_append)
  with assms(2) have "crc32 ?p \<noteq> crc32 (f_payload f)" by (rule crc32_update)
  then show ?thesis
    unfolding upd using ok by (simp add: decode_good_header verify_crc_def Let_def)
qed

theorem decode_detects_payload_byte_witness:
  "\<exists>m. decode ((frame_bytes (mk_frame DATA 1 [7, 8] 0) (frame_mac (mk_frame DATA 1 [7, 8] 0) [1]))
          [19 + 1 := 9]) None = Inl (ProtocolError ERR_CRC m)"
proof -
  let ?f = "mk_frame DATA 1 [7, 8] 0"
  have ok: "frame_ok ?f" by (simp add: frame_ok_def MAX_PAYLOAD_def MAX_SEQ_def)
  have "frame_bytes ?f (frame_mac ?f [1]) ! (19 + 1) = 8"
    by (simp add: frame_bytes_def nth_append)
  then show ?thesis
    using decode_detects_payload_byte
      [OF encode_frame_ok [OF ok], where secret = "[1]" and i = 1 and b = 9 and key = None] by simp
qed

text \<open>
  C4. Holding the key changes decoding in one way: after every check that observer mode makes has
  passed, the MAC is compared, and a difference raises \<open>ERR_AUTH\<close>. The key never makes a
  frame acceptable that an observer would reject, nor changes what it decodes to.
\<close>

theorem decode_key_vs_observer:
  "decode raw (Some secret) =
     rbind (decode raw None) (\<lambda>f.
       if drop (length raw - 32) raw = frame_mac f secret then Inr f
       else Inl (ProtocolError ERR_AUTH (ascii ''hmac mismatch'')))"
proof (cases "decode raw None")
  case (Inl e)
  then show ?thesis
    by (auto simp: decode_def decode_frame_def rbind_eq_Inl_iff rbind_eq_Inr_iff split: if_splits)
next
  case (Inr f)
  then obtain mac where f: "frame_ok f" "raw = frame_bytes f mac" "length mac = 32"
    by (auto simp: decode_eq_Inr_iff mac_ok_def)
  have raw: "raw = header_bytes (header_of f) @ f_payload f @ mac"
    using f(2) by (simp add: frame_bytes_def)
  have "drop (length raw - 32) raw = mac"
    using f(2,3) by (simp add: frame_bytes_parts)
  moreover have "decode raw (Some secret) =
      rbind (verify_mac (header_bytes (header_of f)) (f_payload f) mac secret) (\<lambda>_. Inr f)"
    unfolding raw using f(1,3) by (simp add: decode_good_header verify_crc_def mk_frame_eta)
  ultimately show ?thesis
    using Inr by (auto simp: verify_mac_def frame_mac_def)
qed

end
