(* ===== verification/Framing.thy ===== *)
theory Framing
  imports Codec
begin

text \<open>
  \<^verbatim>\<open>src/wireline/transport/framing.py\<close>, the class \<open>FrameBuffer\<close>: an incremental parser over
  bytes that arrive in arbitrary pieces. The locale \<open>incremental\<close> states what makes such a
  parser independent of the pieces; the buffer is an interpretation of it.
\<close>

section \<open>The incremental parser\<close>

record frame_buffer =
  fb_buf :: bytes
  fb_secret :: "bytes option"

definition new_buffer :: "bytes option \<Rightarrow> frame_buffer" where
  "new_buffer secret = \<lparr>fb_buf = [], fb_secret = secret\<rparr>"

text \<open>\<^verbatim>\<open>__len__\<close>: the bytes waiting.\<close>

definition buffer_len :: "frame_buffer \<Rightarrow> nat" where
  "buffer_len fb = length (fb_buf fb)"

definition feed :: "bytes \<Rightarrow> frame_buffer \<Rightarrow> frame_buffer" where
  "feed chunk fb = fb\<lparr>fb_buf := fb_buf fb @ chunk\<rparr>"

text \<open>
  The result, or the exception, and the buffer left behind: a bad header stays in the buffer,
  a complete frame whose body is bad has been deleted from it.
\<close>

definition pop :: "frame_buffer \<Rightarrow> frame option res \<times> frame_buffer" where
  "pop fb =
     (if length (fb_buf fb) < HEADER_SIZE then (Inr None, fb)
      else
        let raw_header = take HEADER_SIZE (fb_buf fb)
        in case decode_header raw_header of
             Inl e \<Rightarrow> (Inl e, fb)
           | Inr h \<Rightarrow>
               let total = HEADER_SIZE + h_length h + MAC_SIZE
               in if length (fb_buf fb) < total then (Inr None, fb)
                  else
                    let payload = pyslice HEADER_SIZE (HEADER_SIZE + h_length h) (fb_buf fb);
                        mac = pyslice (HEADER_SIZE + h_length h) total (fb_buf fb);
                        fb' = fb\<lparr>fb_buf := drop total (fb_buf fb)\<rparr>
                    in (rbind (decode_frame raw_header payload mac (fb_secret fb)) (\<lambda>f. Inr (Some f)),
                        fb'))"

lemma pop_shrinks:
  assumes "pop fb = (Inr (Some f), fb')"
  shows "length (fb_buf fb') < length (fb_buf fb)"
  using assms by (auto simp: pop_def Let_def split: if_split_asm sum.split_asm)

text \<open>
  The consumer's view of the generator \<^verbatim>\<open>drain\<close>: the frames yielded, the exception that ended
  it if any, and the buffer left behind.
\<close>

function drain :: "frame_buffer \<Rightarrow> frame list \<times> exn option \<times> frame_buffer" where
  "drain fb =
     (case pop fb of
        (Inl e, fb') \<Rightarrow> ([], Some e, fb')
      | (Inr None, fb') \<Rightarrow> ([], None, fb')
      | (Inr (Some f), fb') \<Rightarrow> (case drain fb' of (fs, x, fb'') \<Rightarrow> (f # fs, x, fb'')))"
  by pat_completeness auto
termination
  by (relation "measure (\<lambda>fb. length (fb_buf fb))") (auto dest!: sym [of "(_, _)"] pop_shrinks)

declare drain.simps [simp del]

text \<open>
  A consumer that feeds chunks as they arrive and drains after each one, until an exception.
\<close>

fun feed_chunks :: "bytes list \<Rightarrow> frame_buffer \<Rightarrow> frame list \<times> exn option \<times> frame_buffer" where
  "feed_chunks [] fb = ([], None, fb)"
| "feed_chunks (c # cs) fb =
     (case drain (feed c fb) of
        (fs, Some e, fb') \<Rightarrow> (fs, Some e, fb')
      | (fs, None, fb') \<Rightarrow>
          (case feed_chunks cs fb' of (gs, x, fb'') \<Rightarrow> (fs @ gs, x, fb'')))"

section \<open>Incremental parsing as an interface\<close>

text \<open>
  What a consumer of a byte stream relies on: one step of the parser never looks at what it
  has not consumed, so bytes that come later change neither its result nor, apart from being
  appended, what it leaves behind.
\<close>

locale incremental =
  fixes step :: "'s \<Rightarrow> ('e + 'f option) \<times> 's"
    and add :: "'c list \<Rightarrow> 's \<Rightarrow> 's"
    and size_of :: "'s \<Rightarrow> nat"
    and run :: "'s \<Rightarrow> 'f list \<times> 'e option \<times> 's"
  assumes add_add: "add d (add c s) = add (c @ d) s"
    and step_wait: "step s = (Inr None, s') \<Longrightarrow> s' = s"
    and step_shrinks: "step s = (Inr (Some f), s') \<Longrightarrow> size_of s' < size_of s"
    and step_add: "step s = (Inr (Some f), s') \<Longrightarrow> step (add c s) = (Inr (Some f), add c s')"
    and step_add_error: "step s = (Inl e, s') \<Longrightarrow> step (add c s) = (Inl e, add c s')"
    and run_unfold: "run s =
       (case step s of
          (Inl e, s') \<Rightarrow> ([], Some e, s')
        | (Inr None, s') \<Rightarrow> ([], None, s')
        | (Inr (Some f), s') \<Rightarrow> (case run s' of (fs, x, s'') \<Rightarrow> (f # fs, x, s'')))"
begin

lemma run_cases [case_names error wait frame]:
  assumes "\<And>e s'. step s = (Inl e, s') \<Longrightarrow> run s = ([], Some e, s') \<Longrightarrow> P"
    and "step s = (Inr None, s) \<Longrightarrow> run s = ([], None, s) \<Longrightarrow> P"
    and "\<And>f s' fs x s''. step s = (Inr (Some f), s') \<Longrightarrow> run s' = (fs, x, s'')
      \<Longrightarrow> run s = (f # fs, x, s'') \<Longrightarrow> size_of s' < size_of s \<Longrightarrow> P"
  shows P
proof -
  obtain r s' where r: "step s = (r, s')" by (cases "step s")
  show P
  proof (cases r)
    case (Inl e)
    with r show P by (intro assms(1)) (simp_all add: run_unfold [of s])
  next
    case (Inr o')
    show P
    proof (cases o')
      case None
      with Inr r step_wait have "step s = (Inr None, s)" by auto
      then show P by (intro assms(2)) (simp_all add: run_unfold [of s])
    next
      case (Some f)
      obtain fs x s'' where "run s' = (fs, x, s'')" by (cases "run s'") auto
      with Some Inr r show P
        using step_shrinks [of s f s'] by (intro assms(3)) (simp_all add: run_unfold [of s])
    qed
  qed
qed

text \<open>Draining early and then adding bytes gives what adding them first would have given.\<close>

lemma run_add:
  "run (add c s) =
     (case run s of
        (fs, Some e, s') \<Rightarrow> (fs, Some e, add c s')
      | (fs, None, s') \<Rightarrow> (case run (add c s') of (gs, x, s'') \<Rightarrow> (fs @ gs, x, s'')))"
proof (induction "size_of s" arbitrary: s rule: less_induct)
  case less
  show ?case
  proof (cases s rule: run_cases)
    case (error e s')
    then show ?thesis by (subst run_unfold) (simp add: step_add_error)
  next
    case wait
    then show ?thesis by (auto split: prod.split)
  next
    case (frame f s' fs x s'')
    then show ?thesis
      by (subst run_unfold)
        (auto simp: step_add less.hyps [OF frame(4)] split: option.split prod.split)
  qed
qed

lemma run_idle: "run s = (fs, None, s') \<Longrightarrow> run s' = ([], None, s')"
proof (induction "size_of s" arbitrary: s fs rule: less_induct)
  case less
  show ?case
  proof (cases s rule: run_cases)
    case (error e s')
    with less.prems show ?thesis by simp
  next
    case wait
    with less.prems show ?thesis by simp
  next
    case (frame f t gs x t')
    with less show ?thesis by auto
  qed
qed

end

section \<open>The buffer is such a parser\<close>

lemma feed_sel [simp]: "fb_buf (feed c fb) = fb_buf fb @ c" "fb_secret (feed c fb) = fb_secret fb"
  by (simp_all add: feed_def)

lemma feed_feed: "feed d (feed c fb) = feed (c @ d) fb"
  by (simp add: feed_def)

lemma feed_Nil [simp]: "feed [] fb = fb"
  by (simp add: feed_def)

lemma pop_wait: "pop fb = (Inr None, fb') \<Longrightarrow> fb' = fb"
  by (auto simp: pop_def Let_def rbind_eq_Inr_iff split: if_split_asm sum.split_asm)

lemma pop_feed:
  assumes "pop fb = (r, fb')" "r \<noteq> Inr None"
  shows "pop (feed c fb) = (r, feed c fb')"
proof (cases "decode_header (take 19 (fb_buf fb))")
  case (Inl e)
  with assms show ?thesis by (auto simp: pop_def split: if_split_asm)
next
  case (Inr h)
  with assms have len: "51 + h_length h \<le> length (fb_buf fb)"
    by (auto simp: pop_def Let_def split: if_split_asm)
  with assms(1) Inr show ?thesis
    by (auto simp: pop_def Let_def feed_def pyslice_append)
qed

interpretation fb: incremental pop feed "\<lambda>fb. length (fb_buf fb)" drain
proof
  show "drain fb =
     (case pop fb of
        (Inl e, fb') \<Rightarrow> ([], Some e, fb')
      | (Inr None, fb') \<Rightarrow> ([], None, fb')
      | (Inr (Some f), fb') \<Rightarrow> (case drain fb' of (fs, x, fb'') \<Rightarrow> (f # fs, x, fb'')))" for fb
    by (rule drain.simps)
qed (auto simp: feed_feed pop_wait pop_feed dest: pop_shrinks)

lemma pop_secret: "pop fb = (r, fb') \<Longrightarrow> fb_secret fb' = fb_secret fb"
  by (auto simp: pop_def Let_def split: if_split_asm sum.split_asm)

lemma pop_frame_iff:
  "pop fb = (Inr (Some f), fb') \<longleftrightarrow>
     (\<exists>mac rest. fb_buf fb = frame_bytes f mac @ rest \<and> frame_ok f \<and> mac_ok f (fb_secret fb) mac
        \<and> fb' = fb\<lparr>fb_buf := rest\<rparr>)"
proof
  assume p: "pop fb = (Inr (Some f), fb')"
  let ?b = "fb_buf fb"
  from p obtain h where h: "decode_header (take 19 ?b) = Inr h" "51 + h_length h \<le> length ?b"
    "decode_frame (take 19 ?b) (pyslice 19 (19 + h_length h) ?b)
       (pyslice (19 + h_length h) (51 + h_length h) ?b) (fb_secret fb) = Inr f"
    "fb' = fb\<lparr>fb_buf := drop (51 + h_length h) ?b\<rparr>"
    by (auto simp: pop_def Let_def rbind_eq_Inr_iff split: if_split_asm sum.split_asm)
  let ?mac = "pyslice (19 + h_length h) (51 + h_length h) ?b"
  from h(3) have f: "frame_ok f" "take 19 ?b = header_bytes (header_of f)"
    "pyslice 19 (19 + h_length h) ?b = f_payload f" "mac_ok f (fb_secret fb) ?mac"
    by (simp_all add: decode_frame_eq_Inr_iff)
  have "?b = take 19 ?b @ pyslice 19 (19 + h_length h) ?b @ ?mac @ drop (51 + h_length h) ?b"
    using take_pyslice_drop [of 19 "51 + h_length h" ?b]
      pyslice_join [of 19 "19 + h_length h" "51 + h_length h" ?b]
    by (simp add: append_assoc [symmetric] del: append_assoc)
  with f h(4) show "\<exists>mac rest. fb_buf fb = frame_bytes f mac @ rest \<and> frame_ok f
      \<and> mac_ok f (fb_secret fb) mac \<and> fb' = fb\<lparr>fb_buf := rest\<rparr>"
    by (intro exI [of _ ?mac] exI [of _ "drop (51 + h_length h) ?b"]) (simp add: frame_bytes_def)
next
  assume "\<exists>mac rest. fb_buf fb = frame_bytes f mac @ rest \<and> frame_ok f \<and> mac_ok f (fb_secret fb) mac
        \<and> fb' = fb\<lparr>fb_buf := rest\<rparr>"
  then obtain mac rest where f: "fb_buf fb = frame_bytes f mac @ rest" "frame_ok f"
    "mac_ok f (fb_secret fb) mac" "fb' = fb\<lparr>fb_buf := rest\<rparr>" by blast
  have len: "length mac = 32" using f(3) by (simp add: mac_ok_def)
  have b: "fb_buf fb = header_bytes (header_of f) @ f_payload f @ mac @ rest"
    using f(1) by (simp add: frame_bytes_def)
  have "decode_header (header_bytes (header_of f)) = Inr (header_of f)"
    using f(2) by (simp add: decode_header_bytes header_of_ok)
  moreover have "decode_frame (header_bytes (header_of f)) (f_payload f) mac (fb_secret fb) = Inr f"
    using f(2,3) by (simp add: decode_frame_eq_Inr_iff)
  ultimately show "pop fb = (Inr (Some f), fb')"
    using len f(4) by (simp add: pop_def b Let_def pyslice_append_skip pyslice_append pyslice_all)
qed

lemma feed_chunks_run:
  assumes "drain fb = ([], None, fb)" "drain (feed (concat cs) fb) = (fs, x, fb1)"
  shows "\<exists>fb2. feed_chunks cs fb = (fs, x, fb2) \<and> (x = None \<longrightarrow> fb2 = fb1)"
  using assms
proof (induction cs arbitrary: fb fs x fb1)
  case Nil
  then show ?case by simp
next
  case (Cons c cs)
  obtain gs y s' where g: "drain (feed c fb) = (gs, y, s')" by (cases "drain (feed c fb)") auto
  have whole: "drain (feed (concat cs) (feed c fb)) = (fs, x, fb1)"
    using Cons.prems(2) by (simp add: feed_feed)
  show ?case
  proof (cases y)
    case None
    obtain hs z s'' where h: "drain (feed (concat cs) s') = (hs, z, s'')"
      by (cases "drain (feed (concat cs) s')") auto
    then have eq: "fs = gs @ hs" "x = z" "fb1 = s''"
      using whole g None by (simp_all add: fb.run_add)
    from g None have "drain s' = ([], None, s')" using fb.run_idle by blast
    then obtain fb2 where "feed_chunks cs s' = (hs, z, fb2)" "z = None \<longrightarrow> fb2 = s''"
      using Cons.IH [OF _ h] by blast
    with eq show ?thesis using g None by auto
  next
    case (Some e)
    with whole g have "gs = fs" "x = Some e" using fb.run_add [of "concat cs" "feed c fb"] by simp_all
    with g Some show ?thesis by simp
  qed
qed

lemma drain_new [simp]: "drain (new_buffer k) = ([], None, new_buffer k)"
  by (subst drain.simps) (simp add: pop_def new_buffer_def HEADER_SIZE_def)

lemma feed_chunks_new:
  "\<exists>fb. feed_chunks cs (new_buffer k) =
     (fst (drain (feed (concat cs) (new_buffer k))),
      fst (snd (drain (feed (concat cs) (new_buffer k)))), fb)
   \<and> (fst (snd (drain (feed (concat cs) (new_buffer k)))) = None \<longrightarrow>
      fb = snd (snd (drain (feed (concat cs) (new_buffer k)))))"
  by (cases "drain (feed (concat cs) (new_buffer k))")
    (use feed_chunks_run [OF drain_new] in auto)

lemma drain_frame_bytes:
  assumes "frame_ok f" "mac_ok f k mac"
  shows "drain (feed (frame_bytes f mac @ b) (new_buffer k)) =
    (case drain (feed b (new_buffer k)) of (fs, x, fb') \<Rightarrow> (f # fs, x, fb'))"
proof -
  have "pop (feed (frame_bytes f mac @ b) (new_buffer k)) = (Inr (Some f), feed b (new_buffer k))"
    using assms by (auto simp: pop_frame_iff new_buffer_def feed_def)
  then show ?thesis by (subst drain.simps) simp
qed

lemma drain_frames:
  assumes "list_all frame_ok fs"
  shows "drain (feed (concat (map (\<lambda>f. frame_bytes f (frame_mac f key)) fs)) (new_buffer (Some key))) =
    (fs, None, new_buffer (Some key))"
  using assms by (induction fs) (simp_all add: drain_frame_bytes mac_ok_def)

text \<open>
  What draining consumes: complete frames with acceptable MACs, in order; then, if it ends in an
  exception, possibly one complete frame that does not decode. A bad header is not consumed.
\<close>

definition good_frame :: "bytes option \<Rightarrow> frame \<Rightarrow> bytes \<Rightarrow> bool" where
  "good_frame k f mac \<longleftrightarrow> frame_ok f \<and> mac_ok f k mac"

definition rejected :: "bytes option \<Rightarrow> exn \<Rightarrow> bytes \<Rightarrow> bytes \<Rightarrow> bool" where
  "rejected k e bad rest \<longleftrightarrow>
     bad = [] \<and> HEADER_SIZE \<le> length rest \<and> decode_header (take HEADER_SIZE rest) = Inl e
     \<or> decode bad k = Inl e
       \<and> (\<exists>h. decode_header (take HEADER_SIZE bad) = Inr h \<and> length bad = HEADER_SIZE + h_length h + MAC_SIZE)"

lemma pop_error:
  assumes "pop fb = (Inl e, fb')"
  shows "\<exists>bad. fb_buf fb = bad @ fb_buf fb' \<and> rejected (fb_secret fb) e bad (fb_buf fb')"
proof (cases "decode_header (take 19 (fb_buf fb))")
  case (Inl x)
  with assms show ?thesis
    by (intro exI [of _ "[]"]) (auto simp: pop_def rejected_def split: if_split_asm)
next
  case (Inr h)
  let ?b = "fb_buf fb" and ?n = "51 + h_length h"
  have n: "?n \<le> length ?b" using assms Inr by (auto simp: pop_def Let_def split: if_split_asm)
  with assms Inr have d: "decode_frame (take 19 ?b) (pyslice 19 (19 + h_length h) ?b)
      (pyslice (19 + h_length h) ?n ?b) (fb_secret fb) = Inl e" "fb_buf fb' = drop ?n ?b"
    by (auto simp: pop_def Let_def rbind_eq_Inl_iff split: if_split_asm)
  have "take ?n ?b = take 19 ?b @ pyslice 19 (19 + h_length h) ?b @ pyslice (19 + h_length h) ?n ?b"
    by (simp add: pyslice_join take_pyslice)
  with n d(1) have "decode (take ?n ?b) (fb_secret fb) = Inl e"
    using decode_parts [of "pyslice (19 + h_length h) ?n ?b" "take 19 ?b"] by (simp add: length_pyslice)
  with n Inr d(2) show ?thesis
    by (intro exI [of _ "take ?n ?b"]) (simp add: rejected_def min_def)
qed

lemma pop_wait_bounded: "pop fb = (Inr None, fb') \<Longrightarrow> length (fb_buf fb) < HEADER_SIZE + MAX_PAYLOAD + MAC_SIZE"
proof -
  have "h_length h \<le> MAX_PAYLOAD" if "decode_header raw = Inr h" for raw h
    using decode_header_InrD(1) [OF that] by (simp add: header_ok_def)
  then show "pop fb = (Inr None, fb') \<Longrightarrow> length (fb_buf fb) < HEADER_SIZE + MAX_PAYLOAD + MAC_SIZE"
    by (fastforce simp: pop_def Let_def rbind_eq_Inr_iff HEADER_SIZE_def MAC_SIZE_def
        split: if_split_asm sum.split_asm)
qed

definition drained :: "bytes option \<Rightarrow> bytes \<Rightarrow> exn option \<Rightarrow> bytes \<Rightarrow> bool" where
  "drained k bad x rest \<longleftrightarrow>
     (case x of
        None \<Rightarrow> bad = [] \<and> length rest < HEADER_SIZE + MAX_PAYLOAD + MAC_SIZE
      | Some e \<Rightarrow> rejected k e bad rest)"

lemma drain_consumes:
  "drain fb = (fs, x, fb') \<Longrightarrow>
     \<exists>macs bad. fb_buf fb = concat (map2 frame_bytes fs macs) @ bad @ fb_buf fb'
       \<and> list_all2 (good_frame (fb_secret fb)) fs macs \<and> fb_secret fb' = fb_secret fb
       \<and> drained (fb_secret fb) bad x (fb_buf fb')"
proof (induction "length (fb_buf fb)" arbitrary: fb fs x fb' rule: less_induct)
  case less
  show ?case
  proof (cases fb rule: fb.run_cases)
    case (error e s')
    from pop_error [OF error(1)] pop_secret [OF error(1)] error(2) less.prems show ?thesis
      by (auto simp: drained_def)
  next
    case wait
    with pop_wait_bounded [OF wait(1)] less.prems show ?thesis by (auto simp: drained_def)
  next
    case (frame f s' gs y s'')
    with less.prems have fs: "fs = f # gs" and y: "y = x" "s'' = fb'" by simp_all
    from frame(1) obtain mac rest where f: "fb_buf fb = frame_bytes f mac @ rest" "good_frame (fb_secret fb) f mac"
      "s' = fb\<lparr>fb_buf := rest\<rparr>"
      by (auto simp: pop_frame_iff good_frame_def)
    from less.hyps [OF frame(4) frame(2) [unfolded y]] obtain macs bad where
      "fb_buf s' = concat (map2 frame_bytes gs macs) @ bad @ fb_buf fb'"
      "list_all2 (good_frame (fb_secret s')) gs macs" "fb_secret fb' = fb_secret s'"
      "drained (fb_secret s') bad x (fb_buf fb')" by blast
    with f fs show ?thesis by (intro exI [of _ "mac # macs"] exI [of _ bad]) simp
  qed
qed

text \<open>
  The same over chunks, from a buffer that holds some bytes: an exception ends the run at some
  chunk, and then the buffer holds at most an incomplete frame and that chunk.
\<close>

definition accounted ::
  "bytes option \<Rightarrow> bytes \<Rightarrow> bytes list \<Rightarrow> frame list \<Rightarrow> bytes list \<Rightarrow> exn option \<Rightarrow> bytes \<Rightarrow> bool" where
  "accounted k held cs fs macs x rest \<longleftrightarrow> list_all2 (good_frame k) fs macs
     \<and> (case x of
          None \<Rightarrow> held @ concat cs = concat (map2 frame_bytes fs macs) @ rest
            \<and> length rest < HEADER_SIZE + MAX_PAYLOAD + MAC_SIZE
        | Some e \<Rightarrow> \<exists>pre c post bad. cs = pre @ c # post
            \<and> held @ concat (pre @ [c]) = concat (map2 frame_bytes fs macs) @ bad @ rest
            \<and> rejected k e bad rest \<and> length rest < HEADER_SIZE + MAX_PAYLOAD + MAC_SIZE + length c)"

lemma accounted_Cons:
  assumes c: "held @ c = concat (map2 frame_bytes gs ms) @ held'" and gs: "list_all2 (good_frame k) gs ms"
    and acc: "accounted k held' cs hs ns x rest"
  shows "accounted k held (c # cs) (gs @ hs) (ms @ ns) x rest"
proof -
  have joined: "concat (map2 frame_bytes (gs @ hs) (ms @ ns)) =
      concat (map2 frame_bytes gs ms) @ concat (map2 frame_bytes hs ns)"
    using gs by (simp add: list_all2_lengthD)
  have head: "held @ concat (c # t) = concat (map2 frame_bytes gs ms) @ held' @ concat t" for t
    using arg_cong [OF c, of "\<lambda>b. b @ concat t"] by simp
  show ?thesis
  proof (cases x)
    case None
    with acc gs show ?thesis
      unfolding accounted_def head joined by (simp add: list_all2_appendI)
  next
    case (Some e)
    with acc obtain pre b post bad where q: "cs = pre @ b # post"
      "held' @ concat (pre @ [b]) = concat (map2 frame_bytes hs ns) @ bad @ rest"
      "rejected k e bad rest" "length rest < HEADER_SIZE + MAX_PAYLOAD + MAC_SIZE + length b"
      by (auto simp: accounted_def)
    have "held @ concat ((c # pre) @ [b]) = concat (map2 frame_bytes (gs @ hs) (ms @ ns)) @ bad @ rest"
      unfolding append_Cons head q(2) joined by simp
    moreover have "c # cs = (c # pre) @ b # post" using q(1) by simp
    moreover have "list_all2 (good_frame k) (gs @ hs) (ms @ ns)"
      using gs acc by (simp add: accounted_def list_all2_appendI)
    ultimately show ?thesis
      using q(3,4) unfolding accounted_def Some option.case by blast
  qed
qed

lemma feed_chunks_consumes:
  assumes "length (fb_buf fb) < HEADER_SIZE + MAX_PAYLOAD + MAC_SIZE" "feed_chunks cs fb = (fs, x, fb')"
  shows "\<exists>macs. accounted (fb_secret fb) (fb_buf fb) cs fs macs x (fb_buf fb')"
  using assms
proof (induction cs arbitrary: fb fs)
  case Nil
  then show ?case by (intro exI [of _ "[]"]) (auto simp: accounted_def)
next
  case (Cons c cs)
  obtain gs y s' where d: "drain (feed c fb) = (gs, y, s')" by (cases "drain (feed c fb)") auto
  from drain_consumes [OF this] obtain macs bad where m:
    "fb_buf fb @ c = concat (map2 frame_bytes gs macs) @ bad @ fb_buf s'"
    "list_all2 (good_frame (fb_secret fb)) gs macs" "fb_secret s' = fb_secret fb" "drained (fb_secret fb) bad y (fb_buf s')"
    by auto
  show ?case
  proof (cases y)
    case (Some e)
    with d Cons.prems(2) have r: "fs = gs" "x = Some e" "fb' = s'" by simp_all
    have "length (fb_buf s') \<le> length (fb_buf fb) + length c"
      using arg_cong [OF m(1), of length] by simp
    with m Some Cons.prems(1) show ?thesis
      unfolding r accounted_def drained_def option.case
      by (intro exI [of _ macs] conjI exI [of _ "[]"] exI [of _ c] exI [of _ cs] exI [of _ bad]) simp_all
  next
    case None
    from d None Cons.prems(2) obtain hs where h: "feed_chunks cs s' = (hs, x, fb')" "fs = gs @ hs"
      by (auto split: prod.split_asm)
    from m(4) None have s': "bad = []" "length (fb_buf s') < HEADER_SIZE + MAX_PAYLOAD + MAC_SIZE"
      by (simp_all add: drained_def)
    from Cons.IH [OF s'(2) h(1)] obtain ms where "accounted (fb_secret fb) (fb_buf s') cs hs ms x (fb_buf fb')"
      unfolding m(3) by blast
    with accounted_Cons [OF _ m(2) this] m(1) s'(1) show ?thesis unfolding h(2) by auto
  qed
qed

lemma drain_error: "drain fb = (fs, Some e, fb') \<Longrightarrow> is_protocol_error e"
proof (induction "length (fb_buf fb)" arbitrary: fb fs rule: less_induct)
  case less
  show ?case
  proof (cases fb rule: fb.run_cases)
    case (error e' s')
    with less.prems show ?thesis
      by (auto simp: pop_def Let_def rbind_eq_Inl_iff dest: decode_header_Inl decode_frame_Inl
          split: if_split_asm sum.split_asm)
  next
    case wait
    with less.prems show ?thesis by simp
  next
    case (frame f s' gs y s'')
    with less show ?thesis by auto
  qed
qed

lemma decode_header_bad_magic:
  assumes "length raw = 19" "take 4 raw \<noteq> MAGIC"
  shows "\<exists>m. decode_header raw = Inl (ProtocolError ERR_MAGIC m)"
  using assms by (simp add: decode_header_def header_unpack_def)

lemma feed_chunks_idle:
  assumes "drain fb = ([], None, fb)" "feed_chunks cs fb = (fs, None, fb')"
  shows "pop fb' = (Inr None, fb')"
proof -
  obtain gs x fb1 where d: "drain (feed (concat cs) fb) = (gs, x, fb1)" by (cases "drain (feed (concat cs) fb)") auto
  from feed_chunks_run [OF assms(1) d] assms(2) have "x = None" "fb1 = fb'" by auto
  with d have "drain fb' = ([], None, fb')" by (auto intro: fb.run_idle)
  then show ?thesis by (cases fb' rule: fb.run_cases) simp_all
qed

lemma decode_header_oversized:
  assumes "length raw = 19" "take 4 raw = MAGIC" "raw ! 4 = 1" "MAX_PAYLOAD < be_nat (pyslice 11 15 raw)"
  shows "\<exists>m. decode_header raw = Inl (ProtocolError ERR_LENGTH m)"
proof -
  have "pyslice 4 5 raw = [raw ! 4]"
    using assms(1) Cons_nth_drop_Suc [of 4 raw, symmetric] by (simp add: pyslice_def)
  with assms show ?thesis
    by (simp add: decode_header_def header_unpack_def VERSION_def be_nat_def)
qed

section \<open>Properties\<close>

text \<open>
  C38. How a byte stream is cut into chunks does not matter: feeding the chunks one at a time and
  draining after each yields the same frames, and stops with the same exception if any, as
  feeding the whole stream at once.
\<close>

theorem chunking_irrelevant:
  "map_prod id fst (feed_chunks cs (new_buffer k)) =
   map_prod id fst (drain (feed (concat cs) (new_buffer k)))"
  using feed_chunks_new [of cs k] by (auto simp: prod_eq_iff)

text \<open>
  C37. A stream of encoded frames, cut into chunks anywhere, comes out of the buffer as exactly
  those frames in order, and leaves the buffer empty.
\<close>

theorem stream_roundtrip:
  assumes "list_all2 (\<lambda>f raw. encode f key = Inr raw) fs raws" and "concat cs = concat raws"
  shows "feed_chunks cs (new_buffer (Some key)) = (fs, None, new_buffer (Some key))"
proof -
  from assms(1) have "list_all frame_ok fs \<and> raws = map (\<lambda>f. frame_bytes f (frame_mac f key)) fs"
    by (induction rule: list_all2_induct) (auto simp: encode_eq_Inr_iff)
  with assms(2) have "drain (feed (concat cs) (new_buffer (Some key))) = (fs, None, new_buffer (Some key))"
    by (simp add: drain_frames)
  from feed_chunks_run [OF drain_new this] show ?thesis by simp
qed

theorem stream_roundtrip_witness:
  "feed_chunks (map (\<lambda>b. [b]) (frame_bytes (mk_frame PING 0 [] 0) (frame_mac (mk_frame PING 0 [] 0) [1])))
     (new_buffer (Some [1])) = ([mk_frame PING 0 [] 0], None, new_buffer (Some [1]))"
proof -
  let ?f = "mk_frame PING 0 [] 0"
  have "frame_ok ?f" by (simp add: frame_ok_def MAX_PAYLOAD_def MAX_SEQ_def)
  then have "encode ?f [1] = Inr (frame_bytes ?f (frame_mac ?f [1]))" by (rule encode_frame_ok)
  moreover have "concat (map (\<lambda>b. [b]) xs) = xs" for xs :: bytes by (induction xs) simp_all
  ultimately show ?thesis
    using stream_roundtrip [where key = "[1]" and fs = "[?f]" and raws = "[frame_bytes ?f (frame_mac ?f [1])]"]
    by simp
qed

text \<open>
  C40. What the frames yielded say about the bytes, whatever arrives and however it is cut. Without an
  exception the stream is the yielded frames' bytes, with MACs acceptable under the buffer's key,
  followed by what is still in the buffer: no complete frame, and fewer bytes than one frame of the
  maximal size. If the run ends in an exception, the bytes up to the chunk it ends at are the
  yielded frames' bytes, then at most one complete frame, which \<^verbatim>\<open>decode\<close> rejects with that exception, then what
  is still in the buffer; if no frame was removed, the buffer starts with a header that
  \<^verbatim>\<open>decode_header\<close> rejects with it. The rest of that chunk is kept, so then the buffer is only
  bounded by one maximal frame and the chunk.
\<close>

theorem buffer_sound_and_bounded:
  "case feed_chunks cs (new_buffer k) of (fs, x, fb) \<Rightarrow> \<exists>macs.
     list_all2 (\<lambda>f mac. frame_ok f \<and> mac_ok f k mac) fs macs
     \<and> (case x of
          None \<Rightarrow> concat cs = concat (map2 frame_bytes fs macs) @ fb_buf fb
            \<and> pop fb = (Inr None, fb) \<and> buffer_len fb < HEADER_SIZE + MAX_PAYLOAD + MAC_SIZE
        | Some e \<Rightarrow> \<exists>pre c post bad. cs = pre @ c # post
            \<and> concat (pre @ [c]) = concat (map2 frame_bytes fs macs) @ bad @ fb_buf fb
            \<and> rejected k e bad (fb_buf fb)
            \<and> buffer_len fb < HEADER_SIZE + MAX_PAYLOAD + MAC_SIZE + length c)"
proof -
  obtain fs x fb where r: "feed_chunks cs (new_buffer k) = (fs, x, fb)" by (cases "feed_chunks cs (new_buffer k)") auto
  have "pop fb = (Inr None, fb)" if "x = None"
    using feed_chunks_idle [OF drain_new, of cs k fs fb] r that by simp
  moreover have "good_frame k = (\<lambda>f mac. frame_ok f \<and> mac_ok f k mac)" by (simp add: good_frame_def fun_eq_iff)
  moreover from feed_chunks_consumes [OF _ r] obtain macs where "accounted k [] cs fs macs x (fb_buf fb)"
    by (auto simp: new_buffer_def HEADER_SIZE_def)
  ultimately show ?thesis
    unfolding r buffer_len_def prod.case accounted_def
    by (intro exI [of _ macs]) (cases x; simp)
qed

lemma drain_zeros:
  assumes "frame_ok f" "mac_ok f k mac" "19 \<le> n"
  shows "\<exists>e. drain (feed (frame_bytes f mac @ replicate n 0) (new_buffer k)) = ([f], Some e, feed (replicate n 0) (new_buffer k))"
proof -
  have "take 4 (take 19 (replicate n 0)) ! 0 \<noteq> MAGIC ! 0" using assms(3) by (simp add: MAGIC_def ascii_bytes_def)
  then have "take 4 (take 19 (replicate n 0)) \<noteq> MAGIC" by metis
  with assms(3) obtain m where "decode_header (take 19 (replicate n 0)) = Inl (ProtocolError ERR_MAGIC m)"
    using decode_header_bad_magic [of "take 19 (replicate n 0)"] by (auto simp del: take_take take_replicate)
  with assms(3) have "drain (feed (replicate n 0) (new_buffer k)) =
      ([], Some (ProtocolError ERR_MAGIC m), feed (replicate n 0) (new_buffer k))"
    by (subst drain.simps) (simp add: pop_def new_buffer_def)
  with assms(1,2) show ?thesis by (simp add: drain_frame_bytes)
qed

text \<open>A frame with zeros after it, more of them than any frame is long, in one chunk: all are kept.\<close>

theorem buffer_sound_and_bounded_witness:
  "\<exists>mac n e fb. 51 + MAX_PAYLOAD \<le> n
    \<and> feed_chunks [frame_bytes (mk_frame PING 0 [] 0) mac @ replicate n 0] (new_buffer (Some [1]))
      = ([mk_frame PING 0 [] 0], Some e, fb)
    \<and> n \<le> buffer_len fb \<and> buffer_len fb < 51 + MAX_PAYLOAD + (51 + n)"
proof -
  let ?f = "mk_frame PING 0 [] 0" and ?n = "51 + MAX_PAYLOAD"
  let ?c = "frame_bytes ?f (frame_mac ?f [1]) @ replicate ?n 0"
  have ok: "frame_ok ?f" "mac_ok ?f (Some [1]) (frame_mac ?f [1])"
    by (simp_all add: frame_ok_def MAX_PAYLOAD_def MAX_SEQ_def mac_ok_def)
  from drain_zeros [OF this, of ?n] obtain e fb where
    "drain (feed ?c (new_buffer (Some [1]))) = ([?f], Some e, fb)" "fb = feed (replicate ?n 0) (new_buffer (Some [1]))"
    by auto
  then have r: "feed_chunks [?c] (new_buffer (Some [1])) = ([?f], Some e, fb)" "buffer_len fb = ?n"
    by (simp_all add: buffer_len_def new_buffer_def)
  have "length ?c = 51 + ?n" using ok(2) by (simp add: frame_bytes_def mac_ok_def)
  with buffer_sound_and_bounded [where cs = "[?c]" and k = "Some [1]"] r(1)
  have "buffer_len fb < 51 + MAX_PAYLOAD + (51 + ?n)"
    by (auto simp: Cons_eq_append_conv)
  with r show ?thesis by (intro exI conjI) auto
qed

text \<open>
  A header that declares a body above the limit is rejected as soon as its 19 bytes are
  there: \<^verbatim>\<open>pop\<close> raises \<open>ERR_LENGTH\<close> and never waits for the body.
\<close>

theorem oversized_rejected_early:
  assumes "19 \<le> length (fb_buf fb)" "take 4 (fb_buf fb) = MAGIC" "fb_buf fb ! 4 = 1"
    "MAX_PAYLOAD < be_nat (pyslice 11 15 (fb_buf fb))"
  shows "\<exists>m. pop fb = (Inl (ProtocolError ERR_LENGTH m), fb)"
proof -
  have "pyslice 11 15 (take 19 (fb_buf fb)) = pyslice 11 15 (fb_buf fb)"
    by (simp add: pyslice_def drop_take)
  with assms obtain m where "decode_header (take 19 (fb_buf fb)) = Inl (ProtocolError ERR_LENGTH m)"
    using decode_header_oversized [of "take 19 (fb_buf fb)"] by auto
  with assms(1) show ?thesis by (simp add: pop_def)
qed

theorem oversized_rejected_early_witness:
  "\<exists>m. pop \<lparr>fb_buf = MAGIC @ [1, 3, 0] @ [0, 0, 0, 0] @ [255, 255, 255, 255] @ [0, 0, 0, 0], fb_secret = None\<rparr>
     = (Inl (ProtocolError ERR_LENGTH m),
        \<lparr>fb_buf = MAGIC @ [1, 3, 0] @ [0, 0, 0, 0] @ [255, 255, 255, 255] @ [0, 0, 0, 0], fb_secret = None\<rparr>)"
  by (rule oversized_rejected_early)
    (simp_all add: MAGIC_def ascii_bytes_def pyslice_def be_nat_def MAX_PAYLOAD_def)

end
