(* ===== verification/Reader.thy ===== *)
theory Reader
  imports Framing Complex_Main
begin

text \<open>
  \<^verbatim>\<open>src/wireline/transport/framing.py\<close>, the function \<^verbatim>\<open>read_frame\<close>, over a model of asyncio's
  \<^verbatim>\<open>StreamReader\<close>. The network side of a reader is the list of what is still to arrive, with the
  times of arrival. The reading task is taken to run until it needs more bytes before the
  next event is delivered to it. Every call of \<^verbatim>\<open>read_frame\<close> in the program is inside
  \<^verbatim>\<open>asyncio.wait_for\<close>, so every read has a deadline. The lemmas relate a read to the
  \<open>FrameBuffer\<close> that holds what arrives before the deadline.
\<close>

section \<open>The stream reader\<close>

datatype net_event = Chunk bytes | Eof | Reset

type_synonym arrivals = "(rat \<times> net_event) list"

record reader =
  rd_buf :: bytes
  rd_eof :: bool
  rd_reset :: bool
  rd_now :: rat
  rd_events :: arrivals

definition new_reader :: "rat \<Rightarrow> arrivals \<Rightarrow> reader" where
  "new_reader now evs =
     \<lparr>rd_buf = [], rd_eof = False, rd_reset = False, rd_now = now, rd_events = evs\<rparr>"

text \<open>
  \<^verbatim>\<open>readexactly\<close>: at the end of the stream the partial bytes are dropped from the buffer; a
  timeout leaves them there.
\<close>

fun wait_bytes :: "nat \<Rightarrow> rat \<Rightarrow> bytes \<Rightarrow> bool \<Rightarrow> rat \<Rightarrow> arrivals \<Rightarrow> bytes res \<times> reader" where
  "wait_bytes n deadline buf eof now [] =
     (if n \<le> length buf then
        (Inr (take n buf), \<lparr>rd_buf = drop n buf, rd_eof = eof, rd_reset = False, rd_now = now, rd_events = []\<rparr>)
      else if eof then
        (Inl IncompleteReadError, \<lparr>rd_buf = [], rd_eof = eof, rd_reset = False, rd_now = now, rd_events = []\<rparr>)
      else
        (Inl TimeoutError, \<lparr>rd_buf = buf, rd_eof = eof, rd_reset = False, rd_now = deadline, rd_events = []\<rparr>))"
| "wait_bytes n deadline buf eof now ((t, ev) # es) =
     (if n \<le> length buf then
        (Inr (take n buf),
         \<lparr>rd_buf = drop n buf, rd_eof = eof, rd_reset = False, rd_now = now, rd_events = (t, ev) # es\<rparr>)
      else if eof then
        (Inl IncompleteReadError,
         \<lparr>rd_buf = [], rd_eof = eof, rd_reset = False, rd_now = now, rd_events = (t, ev) # es\<rparr>)
      else if deadline < t then
        (Inl TimeoutError,
         \<lparr>rd_buf = buf, rd_eof = eof, rd_reset = False, rd_now = deadline, rd_events = (t, ev) # es\<rparr>)
      else
        (case ev of
           Chunk c \<Rightarrow> wait_bytes n deadline (buf @ c) eof (max now t) es
         | Eof \<Rightarrow> wait_bytes n deadline buf True (max now t) es
         | Reset \<Rightarrow>
             (Inl ConnectionResetError,
              \<lparr>rd_buf = buf, rd_eof = eof, rd_reset = True, rd_now = max now t, rd_events = es\<rparr>)))"

definition readexactly :: "nat \<Rightarrow> rat \<Rightarrow> reader \<Rightarrow> bytes res \<times> reader" where
  "readexactly n deadline rd =
     (if rd_reset rd then (Inl ConnectionResetError, rd)
      else wait_bytes n deadline (rd_buf rd) (rd_eof rd) (rd_now rd) (rd_events rd))"

section \<open>Reading one frame\<close>

definition read_frame :: "bytes \<Rightarrow> rat \<Rightarrow> reader \<Rightarrow> frame res \<times> reader" where
  "read_frame secret deadline rd =
     (case readexactly HEADER_SIZE deadline rd of
        (Inl e, rd1) \<Rightarrow> (Inl e, rd1)
      | (Inr raw_header, rd1) \<Rightarrow>
          (case decode_header raw_header of
             Inl e \<Rightarrow> (Inl e, rd1)
           | Inr h \<Rightarrow>
               (case (if h_length h \<noteq> 0 then readexactly (h_length h) deadline rd1 else (Inr [], rd1)) of
                  (Inl e, rd2) \<Rightarrow> (Inl e, rd2)
                | (Inr payload, rd2) \<Rightarrow>
                    (case readexactly MAC_SIZE deadline rd2 of
                       (Inl e, rd3) \<Rightarrow> (Inl e, rd3)
                     | (Inr mac, rd3) \<Rightarrow> (decode_frame raw_header payload mac (Some secret), rd3)))))"

text \<open>\<^verbatim>\<open>asyncio.wait_for(read_frame(reader, secret), timeout=timeout)\<close>\<close>

definition wait_frame :: "bytes \<Rightarrow> rat \<Rightarrow> reader \<Rightarrow> frame res \<times> reader" where
  "wait_frame secret timeout rd = read_frame secret (rd_now rd + timeout) rd"

section \<open>What arrives before a deadline\<close>

fun avail_events :: "rat \<Rightarrow> arrivals \<Rightarrow> bytes" where
  "avail_events deadline [] = []"
| "avail_events deadline ((t, ev) # es) =
     (if deadline < t then []
      else case ev of Chunk c \<Rightarrow> c @ avail_events deadline es | _ \<Rightarrow> [])"

fun end_events :: "rat \<Rightarrow> arrivals \<Rightarrow> exn" where
  "end_events deadline [] = TimeoutError"
| "end_events deadline ((t, ev) # es) =
     (if deadline < t then TimeoutError
      else case ev of Chunk c \<Rightarrow> end_events deadline es
           | Eof \<Rightarrow> IncompleteReadError | Reset \<Rightarrow> ConnectionResetError)"

text \<open>The bytes that arrive in time, and the exception of a read that needs more than those.\<close>

definition avail :: "rat \<Rightarrow> reader \<Rightarrow> bytes" where
  "avail deadline rd =
     (if rd_reset rd then []
      else rd_buf rd @ (if rd_eof rd then [] else avail_events deadline (rd_events rd)))"

definition ending :: "rat \<Rightarrow> reader \<Rightarrow> exn" where
  "ending deadline rd =
     (if rd_reset rd then ConnectionResetError
      else if rd_eof rd then IncompleteReadError else end_events deadline (rd_events rd))"

lemma wait_bytes_enough:
  assumes "n \<le> length (buf @ (if eof then [] else avail_events deadline es))"
  shows "\<exists>rd. wait_bytes n deadline buf eof now es =
      (Inr (take n (buf @ (if eof then [] else avail_events deadline es))), rd)
    \<and> avail deadline rd = drop n (buf @ (if eof then [] else avail_events deadline es))
    \<and> ending deadline rd = (if eof then IncompleteReadError else end_events deadline es)"
  using assms
proof (induction es arbitrary: buf eof now)
  case Nil
  then show ?case by (cases eof) (simp_all add: avail_def ending_def)
next
  case (Cons te es)
  obtain t ev where te: "te = (t, ev)" by (cases te)
  show ?case
  proof (cases "n \<le> length buf")
    case True
    then show ?thesis by (auto simp: te avail_def ending_def)
  next
    case False
    with Cons.prems obtain c where c: "\<not> eof" "\<not> deadline < t" "ev = Chunk c"
      by (cases ev) (auto simp: te split: if_split_asm)
    with Cons.prems Cons.IH [of "buf @ c" False "max now t"] False show ?thesis
      by (simp add: te)
  qed
qed

lemma wait_bytes_short:
  assumes "\<not> n \<le> length (buf @ (if eof then [] else avail_events deadline es))"
  shows "fst (wait_bytes n deadline buf eof now es) =
    Inl (if eof then IncompleteReadError else end_events deadline es)"
  using assms
proof (induction es arbitrary: buf eof now)
  case Nil
  then show ?case by auto
next
  case (Cons te es)
  obtain t ev where te: "te = (t, ev)" by (cases te)
  have eof_only: "fst (wait_bytes n deadline buf True now' es) = Inl IncompleteReadError"
    if "\<not> n \<le> length buf" for now' using Cons.IH [of buf True now'] that by simp
  show ?case
    using Cons.prems Cons.IH [of _ False "max now t"] eof_only [of "max now t"]
    by (cases ev) (auto simp: te)
qed

lemma readexactly_enough:
  assumes "0 < n" "n \<le> length (avail deadline rd)"
  shows "\<exists>rd'. readexactly n deadline rd = (Inr (take n (avail deadline rd)), rd')
    \<and> avail deadline rd' = drop n (avail deadline rd) \<and> ending deadline rd' = ending deadline rd"
proof -
  have r: "\<not> rd_reset rd" using assms by (auto simp: avail_def)
  show ?thesis
    using wait_bytes_enough [of n "rd_buf rd" "rd_eof rd" deadline "rd_events rd" "rd_now rd"] assms(2) r
    by (simp add: readexactly_def avail_def ending_def)
qed

lemma readexactly_short:
  assumes "\<not> n \<le> length (avail deadline rd)"
  shows "\<exists>rd'. readexactly n deadline rd = (Inl (ending deadline rd), rd')"
proof (cases "rd_reset rd")
  case True
  then show ?thesis by (simp add: readexactly_def ending_def)
next
  case False
  then show ?thesis
    using wait_bytes_short [of n "rd_buf rd" "rd_eof rd" deadline "rd_events rd" "rd_now rd"] assms
    by (cases "wait_bytes n deadline (rd_buf rd) (rd_eof rd) (rd_now rd) (rd_events rd)")
      (simp add: readexactly_def avail_def ending_def)
qed

section \<open>Progress and time\<close>

fun event_bytes :: "arrivals \<Rightarrow> nat" where
  "event_bytes [] = 0"
| "event_bytes ((t, ev) # es) = (case ev of Chunk c \<Rightarrow> length c | _ \<Rightarrow> 0) + event_bytes es"

definition pending :: "reader \<Rightarrow> nat" where
  "pending rd = length (rd_buf rd) + event_bytes (rd_events rd)"

lemma wait_bytes_pending:
  "wait_bytes n deadline buf eof now es = (Inr bs, rd) \<Longrightarrow>
     length bs = n \<and> pending rd + n = length buf + event_bytes es"
proof (induction n deadline buf eof now es rule: wait_bytes.induct)
  case (2 n deadline buf eof now t ev es)
  then show ?case by (cases ev) (auto simp: pending_def split: if_split_asm)
qed (auto simp: pending_def split: if_split_asm)

lemma readexactly_pending:
  "readexactly n deadline rd = (Inr bs, rd') \<Longrightarrow> length bs = n \<and> pending rd' + n = pending rd"
  using wait_bytes_pending
  by (fastforce simp: readexactly_def pending_def split: if_split_asm)

lemma read_frame_progress: "read_frame secret deadline rd = (Inr f, rd') \<Longrightarrow> pending rd' < pending rd"
  by (fastforce simp: read_frame_def dest!: readexactly_pending
      split: prod.split_asm sum.split_asm if_split_asm)

lemma wait_frame_progress: "wait_frame secret timeout rd = (Inr f, rd') \<Longrightarrow> pending rd' < pending rd"
  unfolding wait_frame_def by (rule read_frame_progress)

text \<open>A read ends by its deadline, and time does not run backwards.\<close>

lemma wait_bytes_now:
  "wait_bytes n deadline buf eof now es = (r, rd) \<Longrightarrow> now \<le> deadline \<Longrightarrow>
     now \<le> rd_now rd \<and> rd_now rd \<le> deadline"
proof (induction n deadline buf eof now es rule: wait_bytes.induct)
  case (2 n deadline buf eof now t ev es)
  then show ?case by (cases ev) (fastforce split: if_split_asm)+
qed (auto split: if_split_asm)

lemma readexactly_now:
  "readexactly n deadline rd = (r, rd') \<Longrightarrow> rd_now rd \<le> deadline \<Longrightarrow>
     rd_now rd \<le> rd_now rd' \<and> rd_now rd' \<le> deadline"
  by (auto simp: readexactly_def split: if_split_asm dest: wait_bytes_now)

lemma read_frame_now:
  assumes "read_frame secret deadline rd = (r, rd')" "rd_now rd \<le> deadline"
  shows "rd_now rd \<le> rd_now rd' \<and> rd_now rd' \<le> deadline"
  using assms
  by (fastforce simp: read_frame_def dest!: readexactly_now
      split: prod.split_asm sum.split_asm if_split_asm)

lemma wait_frame_now:
  "wait_frame secret timeout rd = (r, rd') \<Longrightarrow> 0 \<le> timeout \<Longrightarrow>
     rd_now rd \<le> rd_now rd' \<and> rd_now rd' \<le> rd_now rd + timeout"
  unfolding wait_frame_def by (erule read_frame_now) simp

text \<open>Everything still to come is data that arrives by the time \<open>T\<close>.\<close>

fun on_time :: "rat \<Rightarrow> rat \<times> net_event \<Rightarrow> bool" where
  "on_time T (t, Chunk c) \<longleftrightarrow> t \<le> T"
| "on_time T (t, Eof) \<longleftrightarrow> False"
| "on_time T (t, Reset) \<longleftrightarrow> False"

lemma on_timeE:
  assumes "on_time T te"
  obtains t c where "te = (t, Chunk c)" "t \<le> T"
  using assms by (cases "(T, te)" rule: on_time.cases) auto

definition punctual :: "rat \<Rightarrow> reader \<Rightarrow> bool" where
  "punctual T rd \<longleftrightarrow> \<not> rd_reset rd \<and> \<not> rd_eof rd
     \<and> list_all (on_time T) (rd_events rd)"

fun chunk_bytes :: "arrivals \<Rightarrow> bytes" where
  "chunk_bytes [] = []"
| "chunk_bytes ((t, ev) # es) = (case ev of Chunk c \<Rightarrow> c | _ \<Rightarrow> []) @ chunk_bytes es"

lemma avail_punctual:
  assumes "punctual T rd" "T \<le> deadline"
  shows "avail deadline rd = rd_buf rd @ chunk_bytes (rd_events rd)" "ending deadline rd = TimeoutError"
proof -
  have "avail_events deadline es = chunk_bytes es \<and> end_events deadline es = TimeoutError"
    if "list_all (on_time T) es" for es
    using that assms(2) by (induction es) (auto elim!: on_timeE)
  with assms(1) show "avail deadline rd = rd_buf rd @ chunk_bytes (rd_events rd)"
    "ending deadline rd = TimeoutError"
    by (auto simp: punctual_def avail_def ending_def)
qed

lemma wait_bytes_punctual:
  assumes "wait_bytes n deadline buf False now es = (Inr bs, rd)"
    "list_all (on_time T) es"
  shows "punctual T rd"
  using assms
proof (induction es arbitrary: buf now)
  case (Cons te es)
  then show ?case
    by (auto simp: punctual_def split: if_split_asm elim!: on_timeE)
qed (auto simp: punctual_def split: if_split_asm)

lemma readexactly_punctual:
  "readexactly n deadline rd = (Inr bs, rd') \<Longrightarrow> punctual T rd \<Longrightarrow> punctual T rd'"
  by (auto simp: readexactly_def punctual_def [of T rd] split: if_split_asm intro: wait_bytes_punctual)

lemma read_frame_punctual:
  "read_frame secret deadline rd = (Inr f, rd') \<Longrightarrow> punctual T rd \<Longrightarrow> punctual T rd'"
  by (fastforce simp: read_frame_def dest: readexactly_punctual
      split: prod.split_asm sum.split_asm if_split_asm)

section \<open>A read is a step of the frame buffer\<close>

text \<open>
  What \<^verbatim>\<open>read_frame\<close> returns is what \<^verbatim>\<open>pop\<close> returns on a buffer with the bytes that arrive in
  time; where \<^verbatim>\<open>pop\<close> waits for more, the read ends the way the arrivals end.
\<close>

lemma read_frame_incomplete:
  assumes h: "19 \<le> length (avail deadline rd)" "decode_header (take 19 (avail deadline rd)) = Inr h"
    and short: "length (avail deadline rd) < 51 + h_length h"
  shows "\<exists>rd'. read_frame secret deadline rd = (Inl (ending deadline rd), rd')"
proof -
  obtain rd1 where rd1: "readexactly 19 deadline rd = (Inr (take 19 (avail deadline rd)), rd1)"
    "avail deadline rd1 = drop 19 (avail deadline rd)" "ending deadline rd1 = ending deadline rd"
    using readexactly_enough [OF _ h(1)] by auto
  show ?thesis
  proof (cases "h_length h \<le> length (avail deadline rd1)")
    case False
    with readexactly_short [OF False] rd1 h(2) show ?thesis by (auto simp: read_frame_def)
  next
    case body: True
    obtain rd2 where rd2: "(if h_length h \<noteq> 0 then readexactly (h_length h) deadline rd1 else (Inr [], rd1))
        = (Inr (take (h_length h) (avail deadline rd1)), rd2)"
      "avail deadline rd2 = drop (h_length h) (avail deadline rd1)"
      "ending deadline rd2 = ending deadline rd"
      using readexactly_enough [OF _ body] rd1(3) by (cases "h_length h = 0") auto
    have "\<not> 32 \<le> length (avail deadline rd2)" using short body h(1) by (simp add: rd1(2) rd2(2))
    from readexactly_short [OF this] rd1 rd2 h(2) show ?thesis by (auto simp: read_frame_def)
  qed
qed

lemma read_frame_complete:
  assumes h: "decode_header (take 19 (avail deadline rd)) = Inr h"
    and enough: "51 + h_length h \<le> length (avail deadline rd)"
  shows "\<exists>rd'. read_frame secret deadline rd =
      (decode_frame (take 19 (avail deadline rd)) (pyslice 19 (19 + h_length h) (avail deadline rd))
         (pyslice (19 + h_length h) (51 + h_length h) (avail deadline rd)) (Some secret), rd')
    \<and> avail deadline rd' = drop (51 + h_length h) (avail deadline rd) \<and> ending deadline rd' = ending deadline rd"
proof -
  obtain rd1 where rd1: "readexactly 19 deadline rd = (Inr (take 19 (avail deadline rd)), rd1)"
    "avail deadline rd1 = drop 19 (avail deadline rd)" "ending deadline rd1 = ending deadline rd"
    using readexactly_enough [of 19 deadline rd] enough by auto
  have body: "h_length h \<le> length (avail deadline rd1)" using enough by (simp add: rd1(2))
  obtain rd2 where rd2: "(if h_length h \<noteq> 0 then readexactly (h_length h) deadline rd1 else (Inr [], rd1))
      = (Inr (take (h_length h) (avail deadline rd1)), rd2)"
    "avail deadline rd2 = drop (h_length h) (avail deadline rd1)"
    "ending deadline rd2 = ending deadline rd"
    using readexactly_enough [OF _ body] rd1(3) by (cases "h_length h = 0") auto
  have mac: "32 \<le> length (avail deadline rd2)" using enough by (simp add: rd1(2) rd2(2))
  obtain rd3 where rd3: "readexactly 32 deadline rd2 = (Inr (take 32 (avail deadline rd2)), rd3)"
    "avail deadline rd3 = drop 32 (avail deadline rd2)" "ending deadline rd3 = ending deadline rd"
    using readexactly_enough [OF _ mac] rd2(3) by auto
  have "pyslice 19 (19 + h_length h) (avail deadline rd) = take (h_length h) (avail deadline rd1)"
    "pyslice (19 + h_length h) (51 + h_length h) (avail deadline rd) = take 32 (avail deadline rd2)"
    "drop (51 + h_length h) (avail deadline rd) = avail deadline rd3"
    using rd1(2) rd2(2) rd3(2) by (simp_all add: pyslice_def add.commute)
  with rd1(1) rd2(1) rd3(1,3) h show ?thesis by (simp add: read_frame_def)
qed

lemma read_frame_pop_aux:
  assumes "pop \<lparr>fb_buf = avail deadline rd, fb_secret = Some secret\<rparr> = (r, fb')"
  shows "\<exists>rd'. read_frame secret deadline rd =
      ((case r of Inl e \<Rightarrow> Inl e | Inr None \<Rightarrow> Inl (ending deadline rd) | Inr (Some f) \<Rightarrow> Inr f), rd')
    \<and> (\<forall>f. r = Inr (Some f) \<longrightarrow>
        avail deadline rd' = fb_buf fb' \<and> ending deadline rd' = ending deadline rd)"
proof (cases "19 \<le> length (avail deadline rd)")
  case False
  with assms have "r = Inr None" by (simp add: pop_def)
  with readexactly_short [OF False] show ?thesis by (auto simp: read_frame_def)
next
  case True
  show ?thesis
  proof (cases "decode_header (take 19 (avail deadline rd))")
    case (Inl e)
    obtain rd1 where "readexactly 19 deadline rd = (Inr (take 19 (avail deadline rd)), rd1)"
      using readexactly_enough [OF _ True] by auto
    with assms True Inl show ?thesis by (auto simp: pop_def read_frame_def)
  next
    case (Inr h)
    show ?thesis
    proof (cases "51 + h_length h \<le> length (avail deadline rd)")
      case False
      with assms Inr True have "r = Inr None" by (simp add: pop_def Let_def)
      with read_frame_incomplete [OF True Inr] False show ?thesis by auto
    next
      case enough: True
      with read_frame_complete [OF Inr enough, of secret] assms Inr True show ?thesis
        by (auto simp: pop_def Let_def rbind_def split: sum.split_asm)
    qed
  qed
qed

section \<open>Properties\<close>

text \<open>
  C39. The asyncio reader and the \<open>FrameBuffer\<close> agree on every input: reading a frame returns the
  frame, or raises the error, that popping a buffer with the bytes that arrive before the deadline
  gives; if the buffer would wait for more, the read times out, or raises
  \<open>IncompleteReadError\<close> or \<open>ConnectionResetError\<close> when the stream has ended that way. After a frame
  the same bytes are left in both.
\<close>

theorem read_frame_equals_pop:
  "case (pop \<lparr>fb_buf = avail deadline rd, fb_secret = Some secret\<rparr>, read_frame secret deadline rd) of
     ((Inr (Some f), fb'), (res, rd')) \<Rightarrow> res = Inr f \<and> avail deadline rd' = fb_buf fb'
   | ((Inr None, _), (res, _)) \<Rightarrow> res = Inl (ending deadline rd)
   | ((Inl e, _), (res, _)) \<Rightarrow> res = Inl e"
proof -
  obtain r fb' where "pop \<lparr>fb_buf = avail deadline rd, fb_secret = Some secret\<rparr> = (r, fb')"
    by (cases "pop \<lparr>fb_buf = avail deadline rd, fb_secret = Some secret\<rparr>")
  with read_frame_pop_aux [OF this] show ?thesis
    by (cases r) (auto split: option.split)
qed

end
