(* ===== verification/Utf8.thy ===== *)
theory Utf8
  imports Pytext
begin

text \<open>
  \<^verbatim>\<open>str.encode("utf-8")\<close> and \<^verbatim>\<open>bytes.decode("utf-8")\<close> in their strict mode, which the control
  messages go through. Encoding raises \<^verbatim>\<open>UnicodeEncodeError\<close> on a surrogate code point.
  Decoding rejects overlong forms, encoded surrogates and code points above 10FFFF; its error
  carries the reason, the start and the end that \<^verbatim>\<open>str\<close> of the exception prints.
\<close>

section \<open>Encoding\<close>

definition scalar :: "nat \<Rightarrow> bool" where
  "scalar c \<longleftrightarrow> c < 0xD800 \<or> 0xE000 \<le> c \<and> c \<le> 0x10FFFF"

definition utf8_units :: "nat \<Rightarrow> nat list" where
  "utf8_units c =
     (if c < 0x80 then [c]
      else if c < 0x800 then [0xC0 + c div 64, 0x80 + c mod 64]
      else if c < 0x10000 then [0xE0 + c div 4096, 0x80 + c div 64 mod 64, 0x80 + c mod 64]
      else [0xF0 + c div 262144, 0x80 + c div 4096 mod 64, 0x80 + c div 64 mod 64,
            0x80 + c mod 64])"

fun utf8_encode :: "ustr \<Rightarrow> bytes res" where
  "utf8_encode [] = Inr []"
| "utf8_encode (c # cs) =
     (if scalar c then
        rbind (utf8_encode cs) (\<lambda>bs. Inr (map word_of_nat (utf8_units c) @ bs))
      else Inl UnicodeEncodeError)"

section \<open>Decoding\<close>

text \<open>
  One character: \<open>Inr (c, n)\<close> for the code point and the number of bytes it takes, \<open>Inl\<close> the
  reason and the number of bytes the error covers. A sequence that the end of the data cuts
  short is an error over all that is left, unless an earlier byte of it is already wrong.
\<close>

definition is_cont :: "nat \<Rightarrow> bool" where
  "is_cont b \<longleftrightarrow> 0x80 \<le> b \<and> b < 0xC0"

definition ok_second :: "nat \<Rightarrow> nat \<Rightarrow> bool" where
  "ok_second lead b \<longleftrightarrow> is_cont b
     \<and> (lead = 0xE0 \<longrightarrow> 0xA0 \<le> b) \<and> (lead = 0xED \<longrightarrow> b < 0xA0)
     \<and> (lead = 0xF0 \<longrightarrow> 0x90 \<le> b) \<and> (lead = 0xF4 \<longrightarrow> b < 0x90)"

abbreviation (input) bad_start :: ustr where
  "bad_start \<equiv> ascii ''invalid start byte''"

abbreviation (input) bad_cont :: ustr where
  "bad_cont \<equiv> ascii ''invalid continuation byte''"

abbreviation (input) bad_end :: ustr where
  "bad_end \<equiv> ascii ''unexpected end of data''"

definition utf8_char :: "nat \<Rightarrow> nat list \<Rightarrow> (ustr \<times> nat) + (nat \<times> nat)" where
  "utf8_char b bs =
     (if b < 0x80 then Inr (b, 1)
      else if b < 0xC2 then Inl (bad_start, 1)
      else if b < 0xE0 then
        (case bs of
           [] \<Rightarrow> Inl (bad_end, 1)
         | b1 # _ \<Rightarrow>
             if \<not> is_cont b1 then Inl (bad_cont, 1)
             else Inr ((b - 0xC0) * 64 + (b1 - 0x80), 2))
      else if b < 0xF0 then
        (case bs of
           [] \<Rightarrow> Inl (bad_end, 1)
         | [b1] \<Rightarrow> if \<not> ok_second b b1 then Inl (bad_cont, 1) else Inl (bad_end, 2)
         | b1 # b2 # _ \<Rightarrow>
             if \<not> ok_second b b1 then Inl (bad_cont, 1)
             else if \<not> is_cont b2 then Inl (bad_cont, 2)
             else Inr ((b - 0xE0) * 4096 + (b1 - 0x80) * 64 + (b2 - 0x80), 3))
      else if b < 0xF5 then
        (case bs of
           [] \<Rightarrow> Inl (bad_end, 1)
         | [b1] \<Rightarrow> if \<not> ok_second b b1 then Inl (bad_cont, 1) else Inl (bad_end, 2)
         | [b1, b2] \<Rightarrow>
             if \<not> ok_second b b1 then Inl (bad_cont, 1)
             else if \<not> is_cont b2 then Inl (bad_cont, 2) else Inl (bad_end, 3)
         | b1 # b2 # b3 # _ \<Rightarrow>
             if \<not> ok_second b b1 then Inl (bad_cont, 1)
             else if \<not> is_cont b2 then Inl (bad_cont, 2)
             else if \<not> is_cont b3 then Inl (bad_cont, 3)
             else Inr ((b - 0xF0) * 262144 + (b1 - 0x80) * 4096 + (b2 - 0x80) * 64
                         + (b3 - 0x80), 4))
      else Inl (bad_start, 1))"

text \<open>The whole string; \<open>pos\<close> is the offset of the rest of the data.\<close>

datatype utf8_error = Utf8_Error (u_reason: ustr) (u_byte: nat) (u_start: nat) (u_end: nat)

function utf8_scan :: "nat \<Rightarrow> nat list \<Rightarrow> utf8_error + ustr" where
  "utf8_scan pos [] = Inr []"
| "utf8_scan pos (b # bs) =
     (case utf8_char b bs of
        Inl (reason, n) \<Rightarrow> Inl (Utf8_Error reason b pos (pos + n))
      | Inr (c, n) \<Rightarrow> rbind (utf8_scan (pos + n) (drop (n - 1) bs)) (\<lambda>cs. Inr (c # cs)))"
  by pat_completeness auto
termination
  by (relation "measure (\<lambda>(_, bs). length bs)") auto

definition utf8_decode :: "bytes \<Rightarrow> utf8_error + ustr" where
  "utf8_decode bs = utf8_scan 0 (map unat bs)"

text \<open>\<^verbatim>\<open>str\<close> of the \<^verbatim>\<open>UnicodeDecodeError\<close>.\<close>

definition utf8_error_text :: "utf8_error \<Rightarrow> ustr" where
  "utf8_error_text e =
     39 # ascii ''utf-8'' @ 39 # ascii '' codec can'' @ 39 # ascii ''t decode ''
       @ (if u_end e = u_start e + 1 then
            ascii ''byte 0x'' @ hex_fixed 2 (u_byte e) @ ascii '' in position '' @ dec_nat (u_start e)
          else
            ascii ''bytes in position '' @ dec_nat (u_start e) @ 45 # dec_nat (u_end e - 1))
       @ ascii '': '' @ u_reason e"

section \<open>Decoding inverts encoding\<close>

lemma utf8_units_not_Nil [simp]: "utf8_units c \<noteq> []"
  by (simp add: utf8_units_def)

lemma utf8_units_less:
  assumes "scalar c" "x \<in> set (utf8_units c)"
  shows "x < 256"
proof -
  have "0xC0 + c div 64 < 256" if "c < 0x800"
    using that by (simp add: less_mult_imp_div_less)
  moreover have "0xE0 + c div 4096 < 256" if "c < 0x10000"
    using less_mult_imp_div_less [of c 16 4096] that by simp
  moreover have "c < 4194304" using assms(1) by (auto simp: scalar_def)
  then have "0xF0 + c div 262144 < 256"
    using less_mult_imp_div_less [of c 16 262144] by simp
  ultimately show ?thesis
    using assms(2) by (auto simp: utf8_units_def split: if_splits)
qed

lemma utf8_char_2:
  assumes "x < 32" "y < 64" "2 \<le> x"
  shows "utf8_char (0xC0 + x) ((0x80 + y) # rest) = Inr (x * 64 + y, 2)"
  using assms by (simp add: utf8_char_def is_cont_def)

lemma utf8_char_3:
  assumes "x < 16" "y < 64" "z < 64" "x = 0 \<longrightarrow> 32 \<le> y" "x = 13 \<longrightarrow> y < 32"
  shows "utf8_char (0xE0 + x) ((0x80 + y) # (0x80 + z) # rest) = Inr (x * 4096 + y * 64 + z, 3)"
  using assms by (simp add: utf8_char_def is_cont_def ok_second_def)

lemma utf8_char_4:
  assumes "x < 5" "y < 64" "z < 64" "w < 64" "x = 0 \<longrightarrow> 16 \<le> y" "x = 4 \<longrightarrow> y < 16"
  shows "utf8_char (0xF0 + x) ((0x80 + y) # (0x80 + z) # (0x80 + w) # rest) =
    Inr (x * 262144 + y * 4096 + z * 64 + w, 4)"
  using assms by (simp add: utf8_char_def is_cont_def ok_second_def)

lemma utf8_char_units:
  assumes "scalar c"
  shows "utf8_char (hd (utf8_units c)) (tl (utf8_units c) @ rest) = Inr (c, length (utf8_units c))"
proof -
  define w where "w = c mod 64"
  define z where "z = c div 64 mod 64"
  define y where "y = c div 4096 mod 64"
  have small: "w < 64" "z < 64" "y < 64" by (simp_all add: w_def z_def y_def)
  have c64: "c div 64 * 64 + w = c" by (simp add: w_def)
  have d64: "c div 4096 * 64 + z = c div 64"
    using div_mult_mod_eq [of "c div 64" 64] by (simp add: z_def div_mult2_eq [symmetric])
  have d4096: "c div 262144 * 64 + y = c div 4096"
    using div_mult_mod_eq [of "c div 4096" 64] by (simp add: y_def div_mult2_eq [symmetric])
  consider "c < 0x80" | "0x80 \<le> c" "c < 0x800" | "0x800 \<le> c" "c < 0x10000" | "0x10000 \<le> c"
    by linarith
  then show ?thesis
  proof cases
    case 1
    then show ?thesis by (simp add: utf8_units_def utf8_char_def)
  next
    case 2
    then have "c div 64 < 32" "2 \<le> c div 64" using c64 small by linarith+
    from utf8_char_2 [OF this(1) small(1) this(2)] 2 c64 show ?thesis
      by (simp add: utf8_units_def w_def)
  next
    case 3
    then have "c div 4096 < 16" using c64 d64 small by linarith
    moreover have "c div 4096 = 0 \<longrightarrow> 32 \<le> z" using 3 c64 d64 small by linarith
    moreover have "c div 4096 = 13 \<longrightarrow> z < 32"
      using assms 3 c64 d64 small unfolding scalar_def by linarith
    ultimately show ?thesis
      using utf8_char_3 [of "c div 4096" z w rest] 3 small c64 d64
      by (simp add: utf8_units_def w_def [symmetric] z_def [symmetric])
  next
    case 4
    with assms have top: "c \<le> 0x10FFFF" by (simp add: scalar_def)
    then have "c div 262144 < 5" using c64 d64 d4096 small by linarith
    moreover have "c div 262144 = 0 \<longrightarrow> 16 \<le> y" using 4 c64 d64 d4096 small by linarith
    moreover have "c div 262144 = 4 \<longrightarrow> y < 16" using top c64 d64 d4096 small by linarith
    moreover have "c div 262144 * 262144 + y * 4096 + z * 64 + w = c"
      using c64 d64 d4096 by linarith
    ultimately show ?thesis
      using utf8_char_4 [of "c div 262144" y z w rest] 4 small
      by (simp add: utf8_units_def w_def [symmetric] z_def [symmetric] y_def [symmetric])
  qed
qed

lemma utf8_scan_units:
  assumes "scalar c"
  shows "utf8_scan pos (utf8_units c @ rest) =
    rbind (utf8_scan (pos + length (utf8_units c)) rest) (\<lambda>cs. Inr (c # cs))"
proof -
  obtain b bs where u: "utf8_units c = b # bs" by (cases "utf8_units c") auto
  with utf8_char_units [OF assms, of rest] show ?thesis by simp
qed

lemma utf8_scan_encode:
  "utf8_encode s = Inr bs \<Longrightarrow> utf8_scan pos (map unat bs @ rest)
     = rbind (utf8_scan (pos + length bs) rest) (\<lambda>cs. Inr (s @ cs))"
proof (induction s arbitrary: pos bs)
  case Nil
  then show ?case by (cases "utf8_scan pos rest") auto
next
  case (Cons c s)
  then obtain bs' where c: "scalar c" and bs': "utf8_encode s = Inr bs'"
    and bs: "bs = map word_of_nat (utf8_units c) @ bs'"
    by (auto simp: rbind_eq_Inr_iff split: if_splits)
  have "map unat (map word_of_nat (utf8_units c) :: bytes) = utf8_units c"
    using utf8_units_less [OF c] by (simp add: map_idI)
  with bs have "utf8_scan pos (map unat bs @ rest) = utf8_scan pos (utf8_units c @ map unat bs' @ rest)"
    by simp
  also have "\<dots> = rbind (utf8_scan (pos + length (utf8_units c)) (map unat bs' @ rest)) (\<lambda>cs. Inr (c # cs))"
    by (rule utf8_scan_units [OF c])
  also have "\<dots> = rbind (utf8_scan (pos + length bs) rest) (\<lambda>cs. Inr ((c # s) @ cs))"
    using Cons.IH [OF bs'] bs
    by (cases "utf8_scan (pos + length bs) rest") (simp_all add: add.assoc)
  finally show ?case .
qed

lemma utf8_roundtrip: "utf8_encode s = Inr bs \<Longrightarrow> utf8_decode bs = Inr s"
  using utf8_scan_encode [of s bs 0 "[]"] by (simp add: utf8_decode_def)

lemma utf8_encode_scalars: "(\<exists>bs. utf8_encode s = Inr bs) \<longleftrightarrow> list_all scalar s"
  by (induction s) (auto simp: rbind_eq_Inr_iff)

lemma utf8_encode_Inl: "utf8_encode s = Inl e \<Longrightarrow> e = UnicodeEncodeError"
  by (induction s) (auto simp: rbind_eq_Inl_iff split: if_splits)

lemma utf8_encode_length: "utf8_encode s = Inr bs \<Longrightarrow> length bs \<le> 4 * length s"
proof (induction s arbitrary: bs)
  case Nil
  then show ?case by simp
next
  case (Cons c s)
  moreover have "length (utf8_units c) \<le> 4" by (simp add: utf8_units_def)
  ultimately show ?case by (fastforce simp: rbind_eq_Inr_iff split: if_splits)
qed

lemma utf8_encode_ascii:
  "list_all (\<lambda>c. c < 128) s \<Longrightarrow> utf8_encode s = Inr (map word_of_nat s)"
  by (induction s) (simp_all add: scalar_def utf8_units_def)

end
