(* ===== verification/Json.thy ===== *)
theory Json
  imports Utf8
begin

text \<open>
  The part of Python's \<^verbatim>\<open>json\<close> module that the control messages use: \<^verbatim>\<open>json.loads\<close> on text
  (CPython 3.13's scanner, with the messages and positions of its errors) and \<^verbatim>\<open>json.dumps\<close>
  with \<^verbatim>\<open>separators=(",", ":")\<close> and \<^verbatim>\<open>ensure_ascii=False\<close> for flat objects of strings and
  integers. Two behaviours that are easy to forget are kept: an integer literal of more than
  4300 digits raises a plain \<^verbatim>\<open>ValueError\<close>, and nesting beyond the interpreter's limit raises
  \<^verbatim>\<open>RecursionError\<close>; neither is a \<^verbatim>\<open>JSONDecodeError\<close>.

  The parameter record \<open>py_env\<close> holds what depends on the interpreter build: the nesting depth
  at which the scanner gives up, how a float literal prints, and which code points outside
  ASCII are printable.
\<close>

record py_env =
  json_depth :: nat
  float_repr :: "ustr \<Rightarrow> ustr"
  printable :: "nat \<Rightarrow> bool"

section \<open>Values and errors\<close>

datatype json =
    JNull
  | JBool bool
  | JInt int
  | JFloat ustr
  | JStr ustr
  | JArr "json list"
  | JObj "(ustr \<times> json) list"

text \<open>
  \<open>JErr msg left\<close> is a \<^verbatim>\<open>JSONDecodeError\<close> raised where \<open>left\<close> code points of the document
  remain; \<open>JFuel\<close> marks a scan that ran out of steps, which \<open>json_loads\<close> never does.
\<close>

datatype json_error = JErr ustr nat | JValue | JRecursion | JFuel

definition is_ws :: "nat \<Rightarrow> bool" where
  "is_ws c \<longleftrightarrow> c = 32 \<or> c = 9 \<or> c = 10 \<or> c = 13"

abbreviation skip_ws :: "ustr \<Rightarrow> ustr" where
  "skip_ws \<equiv> dropWhile is_ws"

section \<open>Strings\<close>

definition simple_escape :: "nat \<Rightarrow> nat option" where
  "simple_escape c =
     (if c = 34 \<or> c = 92 \<or> c = 47 then Some c
      else if c = 98 then Some 8
      else if c = 102 then Some 12
      else if c = 110 then Some 10
      else if c = 114 then Some 13
      else if c = 116 then Some 9
      else None)"

definition hex_val :: "nat \<Rightarrow> nat option" where
  "hex_val c =
     (if 48 \<le> c \<and> c \<le> 57 then Some (c - 48)
      else if 97 \<le> c \<and> c \<le> 102 then Some (c - 87)
      else if 65 \<le> c \<and> c \<le> 70 then Some (c - 55)
      else None)"

fun hex4 :: "ustr \<Rightarrow> nat option" where
  "hex4 (a # b # c # d # _) =
     (case (hex_val a, hex_val b, hex_val c, hex_val d) of
        (Some x, Some y, Some z, Some w) \<Rightarrow> Some (((x * 16 + y) * 16 + z) * 16 + w)
      | _ \<Rightarrow> None)"
| "hex4 _ = None"

text \<open>The text after \<^verbatim>\<open>\u\<close>; a high surrogate joins with a low surrogate escape that follows.\<close>

definition unicode_escape :: "ustr \<Rightarrow> json_error + nat \<times> ustr" where
  "unicode_escape es =
     (if length es \<le> 4 then Inl (JErr (ascii ''Invalid '' @ 92 # ascii ''uXXXX escape'') (length es + 1))
      else case hex4 es of
        None \<Rightarrow> Inl (JErr (ascii ''Invalid '' @ 92 # ascii ''uXXXX escape'') (length es + 1))
      | Some c \<Rightarrow>
          let rest = drop 4 es in
          if 0xD800 \<le> c \<and> c \<le> 0xDBFF \<and> 6 < length rest \<and> take 2 rest = [92, 117] then
            (case hex4 (drop 2 rest) of
               None \<Rightarrow> Inl (JErr (ascii ''Invalid '' @ 92 # ascii ''uXXXX escape'') (length rest - 1))
             | Some c2 \<Rightarrow>
                 if 0xDC00 \<le> c2 \<and> c2 \<le> 0xDFFF
                 then Inr (0x10000 + (c - 0xD800) * 1024 + (c2 - 0xDC00), drop 6 rest)
                 else Inr (c, rest))
          else Inr (c, rest))"

lemma unicode_escape_shorter: "unicode_escape es = Inr (c, rest) \<Longrightarrow> length rest < length es"
  by (auto simp: unicode_escape_def Let_def split: if_splits option.splits)

text \<open>The text after the opening quote, which stood where \<open>begin_left\<close> code points remained.\<close>

function scan_string :: "nat \<Rightarrow> ustr \<Rightarrow> json_error + ustr \<times> ustr" where
  "scan_string begin_left [] = Inl (JErr (ascii ''Unterminated string starting at'') begin_left)"
| "scan_string begin_left (c # cs) =
     (if c = 34 then Inr ([], cs)
      else if c = 92 then
        (case cs of
           [] \<Rightarrow> Inl (JErr (ascii ''Unterminated string starting at'') begin_left)
         | e # es \<Rightarrow>
             if e = 117 then
               (case unicode_escape es of
                  Inl err \<Rightarrow> Inl err
                | Inr (d, rest) \<Rightarrow>
                    rbind (scan_string begin_left rest) (\<lambda>(s, r). Inr (d # s, r)))
             else
               (case simple_escape e of
                  None \<Rightarrow> Inl (JErr (ascii ''Invalid '' @ 92 # ascii ''escape'') (length (c # cs)))
                | Some d \<Rightarrow> rbind (scan_string begin_left es) (\<lambda>(s, r). Inr (d # s, r))))
      else if c \<le> 31 then Inl (JErr (ascii ''Invalid control character at'') (length (c # cs)))
      else rbind (scan_string begin_left cs) (\<lambda>(s, r). Inr (c # s, r)))"
  by pat_completeness auto
termination
  by (relation "measure (\<lambda>(_, s). length s)") (auto dest: unicode_escape_shorter)

section \<open>Numbers\<close>

definition INT_MAX_STR_DIGITS :: nat where
  "INT_MAX_STR_DIGITS = 4300"

definition split_fraction :: "ustr \<Rightarrow> ustr \<times> ustr" where
  "split_fraction s =
     (case s of
        p # d # t \<Rightarrow>
          if p = 46 \<and> is_digit d
          then (p # d # takeWhile is_digit t, dropWhile is_digit t) else ([], s)
      | _ \<Rightarrow> ([], s))"

definition split_exponent :: "ustr \<Rightarrow> ustr \<times> ustr" where
  "split_exponent s =
     (case s of
        [] \<Rightarrow> ([], s)
      | e # t \<Rightarrow>
          if e = 101 \<or> e = 69 then
            let sign = (case t of g # _ # _ \<Rightarrow> if g = 43 \<or> g = 45 then [g] else [] | _ \<Rightarrow> []);
                u = drop (length sign) t;
                ds = takeWhile is_digit u
            in if ds = [] then ([], s) else (e # sign @ ds, dropWhile is_digit u)
          else ([], s))"

definition scan_number :: "ustr \<Rightarrow> json_error + json \<times> ustr" where
  "scan_number s =
     (let stop = Inl (JErr (ascii ''Expecting value'') (length s));
          neg = (case s of c # _ \<Rightarrow> c = 45 | [] \<Rightarrow> False);
          t = (if neg then tl s else s)
      in case t of
           [] \<Rightarrow> stop
         | c # cs \<Rightarrow>
             if \<not> is_digit c then stop
             else
               let ds = (if c = 48 then [48] else c # takeWhile is_digit cs);
                   r = drop (length ds) t;
                   (fr, r1) = split_fraction r;
                   (ex, r2) = split_exponent r1
               in if fr \<noteq> [] \<or> ex \<noteq> [] then
                    Inr (JFloat ((if neg then [45] else []) @ ds @ fr @ ex), r2)
                  else if INT_MAX_STR_DIGITS < length ds then Inl JValue
                  else Inr (JInt ((if neg then -1 else 1) * int (digits_nat ds)), r2))"

section \<open>Values\<close>

text \<open>
  What starts at the head of the text: a complete value, or the opening of an object or an
  array with the white space after it skipped.
\<close>

datatype scan_start = Atom json ustr | Open_Obj ustr | Open_Arr ustr

definition scan_open :: "ustr \<Rightarrow> json_error + scan_start" where
  "scan_open s =
     (case s of
        [] \<Rightarrow> Inl (JErr (ascii ''Expecting value'') 0)
      | c # cs \<Rightarrow>
          if c = 34 then rbind (scan_string (length s) cs) (\<lambda>(x, r). Inr (Atom (JStr x) r))
          else if c = 123 then Inr (Open_Obj (skip_ws cs))
          else if c = 91 then Inr (Open_Arr (skip_ws cs))
          else if take 4 s = ascii ''null'' then Inr (Atom JNull (drop 4 s))
          else if take 4 s = ascii ''true'' then Inr (Atom (JBool True) (drop 4 s))
          else if take 5 s = ascii ''false'' then Inr (Atom (JBool False) (drop 5 s))
          else if take 3 s = ascii ''NaN'' then Inr (Atom (JFloat (ascii ''NaN'')) (drop 3 s))
          else if take 8 s = ascii ''Infinity'' then
            Inr (Atom (JFloat (ascii ''Infinity'')) (drop 8 s))
          else if take 9 s = ascii ''-Infinity'' then
            Inr (Atom (JFloat (ascii ''-Infinity'')) (drop 9 s))
          else rbind (scan_number s) (\<lambda>(v, r). Inr (Atom v r)))"

definition starts_with :: "nat \<Rightarrow> ustr \<Rightarrow> bool" where
  "starts_with c s \<longleftrightarrow> s \<noteq> [] \<and> hd s = c"

text \<open>A member's name up to its value.\<close>

definition scan_name :: "ustr \<Rightarrow> json_error + ustr \<times> ustr" where
  "scan_name s =
     (if \<not> starts_with 34 s then
        Inl (JErr (ascii ''Expecting property name enclosed in double quotes'') (length s))
      else
        rbind (scan_string (length s) (tl s)) (\<lambda>(k, r).
          let r' = skip_ws r
          in if \<not> starts_with 58 r' then
               Inl (JErr (ascii ''Expecting '' @ 39 # 58 # 39 # ascii '' delimiter'') (length r'))
             else Inr (k, skip_ws (tl r'))))"

text \<open>
  After an element: \<open>(True, rest)\<close> when the closing character \<open>close\<close> follows, \<open>(False, rest)\<close>
  at the next element.
\<close>

definition scan_separator :: "nat \<Rightarrow> ustr \<Rightarrow> ustr \<Rightarrow> json_error + bool \<times> ustr" where
  "scan_separator close what q =
     (let q' = skip_ws q
      in if starts_with close q' then Inr (True, tl q')
         else if \<not> starts_with 44 q' then
           Inl (JErr (ascii ''Expecting '' @ 39 # 44 # 39 # ascii '' delimiter'') (length q'))
         else if starts_with close (skip_ws (tl q')) then
           Inl (JErr (ascii ''Illegal trailing comma before end of '' @ what) (length q'))
         else Inr (False, skip_ws (tl q')))"

text \<open>
  \<open>n\<close> bounds the number of steps, \<open>d\<close> the nesting still allowed. The members and elements
  functions are the loops of the scanner, entered after the leading white space.
\<close>

fun scan_value :: "nat \<Rightarrow> nat \<Rightarrow> ustr \<Rightarrow> json_error + json \<times> ustr"
  and scan_members :: "nat \<Rightarrow> nat \<Rightarrow> (ustr \<times> json) list \<Rightarrow> ustr \<Rightarrow> json_error + json \<times> ustr"
  and scan_elements :: "nat \<Rightarrow> nat \<Rightarrow> json list \<Rightarrow> ustr \<Rightarrow> json_error + json \<times> ustr"
where
  "scan_value 0 d s = Inl JFuel"
| "scan_value (Suc n) d s =
     rbind (scan_open s) (\<lambda>op.
       case op of
         Atom v r \<Rightarrow> Inr (v, r)
       | Open_Obj r \<Rightarrow>
           if d = 0 then Inl JRecursion
           else if starts_with 125 r then Inr (JObj [], tl r)
           else scan_members n (d - 1) [] r
       | Open_Arr r \<Rightarrow>
           if d = 0 then Inl JRecursion
           else if starts_with 93 r then Inr (JArr [], tl r)
           else scan_elements n (d - 1) [] r)"
| "scan_members 0 d acc s = Inl JFuel"
| "scan_members (Suc n) d acc s =
     rbind (scan_name s) (\<lambda>(k, r).
     rbind (scan_value n d r) (\<lambda>(v, q).
     rbind (scan_separator 125 (ascii ''object'') q) (\<lambda>(closed, t).
       if closed then Inr (JObj (AList.update k v acc), t)
       else scan_members n d (AList.update k v acc) t)))"
| "scan_elements 0 d acc s = Inl JFuel"
| "scan_elements (Suc n) d acc s =
     rbind (scan_value n d s) (\<lambda>(v, q).
     rbind (scan_separator 93 (ascii ''array'') q) (\<lambda>(closed, t).
       if closed then Inr (JArr (acc @ [v]), t)
       else scan_elements n d (acc @ [v]) t))"

text \<open>\<^verbatim>\<open>json.loads\<close> on text: one value between white space, and nothing after it.\<close>

definition json_loads :: "nat \<Rightarrow> ustr \<Rightarrow> json_error + json" where
  "json_loads depth doc =
     (if doc \<noteq> [] \<and> hd doc = 0xFEFF then
        Inl (JErr (ascii ''Unexpected UTF-8 BOM (decode using utf-8-sig)'') (length doc))
      else
        rbind (scan_value (2 * length doc + 2) depth (skip_ws doc)) (\<lambda>(v, r).
          if skip_ws r \<noteq> [] then Inl (JErr (ascii ''Extra data'') (length (skip_ws r)))
          else Inr v))"

text \<open>\<^verbatim>\<open>str\<close> of a \<^verbatim>\<open>JSONDecodeError\<close>: the message, then line, column and offset.\<close>

definition json_error_text :: "ustr \<Rightarrow> ustr \<Rightarrow> nat \<Rightarrow> ustr" where
  "json_error_text doc msg left =
     (let pos = length doc - left;
          upto = take pos doc;
          line = length (filter (\<lambda>c. c = 10) upto) + 1;
          col = length (takeWhile (\<lambda>c. c \<noteq> 10) (rev upto)) + 1
      in msg @ ascii '': line '' @ dec_nat line @ ascii '' column '' @ dec_nat col
           @ ascii '' (char '' @ dec_nat pos @ ascii '')'')"

section \<open>Writing flat objects\<close>

datatype field = FStr ustr | FInt int

fun field_json :: "field \<Rightarrow> json" where
  "field_json (FStr s) = JStr s"
| "field_json (FInt v) = JInt v"

definition escape_char :: "nat \<Rightarrow> ustr" where
  "escape_char c =
     (if c = 34 then [92, 34]
      else if c = 92 then [92, 92]
      else if c = 8 then [92, 98]
      else if c = 12 then [92, 102]
      else if c = 10 then [92, 110]
      else if c = 13 then [92, 114]
      else if c = 9 then [92, 116]
      else if c < 32 then [92, 117] @ hex_fixed 4 c
      else [c])"

definition dump_string :: "ustr \<Rightarrow> ustr" where
  "dump_string s = 34 # concat (map escape_char s) @ [34]"

fun dump_field :: "field \<Rightarrow> ustr" where
  "dump_field (FStr s) = dump_string s"
| "dump_field (FInt v) = dec_int v"

definition dump_member :: "ustr \<times> field \<Rightarrow> ustr" where
  "dump_member kv = dump_string (fst kv) @ 58 # dump_field (snd kv)"

fun dump_members :: "(ustr \<times> field) list \<Rightarrow> ustr" where
  "dump_members [] = []"
| "dump_members [m] = dump_member m"
| "dump_members (m # ms) = dump_member m @ 44 # dump_members ms"

definition json_dumps :: "(ustr \<times> field) list \<Rightarrow> ustr" where
  "json_dumps ms = 123 # dump_members ms @ [125]"

end
