(* ===== verification/Json_Facts.thy ===== *)
theory Json_Facts
  imports Json
begin

text \<open>
  What the rest of the development uses of JSON: the scanner consumes its input, so it never
  runs out of steps; its error messages are short ASCII texts; and \<^verbatim>\<open>json.loads\<close> reads back
  every flat object that \<^verbatim>\<open>json.dumps\<close> writes.
\<close>

section \<open>The scanner consumes input\<close>

lemma length_skip_ws: "length (skip_ws s) \<le> length s"
  by (rule length_dropWhile_le)

lemma starts_with_Cons: "starts_with c s \<Longrightarrow> s = c # tl s"
  by (cases s) (simp_all add: starts_with_def)

lemma starts_with_simps [simp]: "\<not> starts_with c []" "starts_with c (x # xs) \<longleftrightarrow> x = c"
  by (simp_all add: starts_with_def)

lemma scan_string_shorter: "scan_string k s = Inr (x, r) \<Longrightarrow> length r < length s"
proof (induction k s arbitrary: x r rule: scan_string.induct)
  case (1 k)
  then show ?case by simp
next
  case (2 k c cs)
  then show ?case
    by (fastforce simp: rbind_eq_Inr_iff split: if_splits list.splits sum.splits option.splits
        dest: unicode_escape_shorter)
qed

lemma length_split_fraction: "split_fraction s = (f, r) \<Longrightarrow> length r \<le> length s"
  by (auto simp: split_fraction_def split: list.splits if_splits
      intro: le_trans [OF length_dropWhile_le])

lemma length_split_exponent: "split_exponent s = (f, r) \<Longrightarrow> length r \<le> length s"
  by (auto simp: split_exponent_def Let_def split: list.splits if_splits
      intro!: le_trans [OF length_dropWhile_le])

lemma scan_number_shorter: "scan_number s = Inr (v, r) \<Longrightarrow> length r < length s"
  by (fastforce simp: scan_number_def Let_def split: list.splits if_splits prod.splits
      dest: length_split_fraction length_split_exponent)

fun start_rest :: "scan_start \<Rightarrow> ustr" where
  "start_rest (Atom v r) = r"
| "start_rest (Open_Obj r) = r"
| "start_rest (Open_Arr r) = r"

lemma scan_open_shorter:
  assumes "scan_open s = Inr op"
  shows "length (start_rest op) < length s"
proof -
  obtain c cs where s: "s = c # cs"
    using assms by (cases s) (auto simp: scan_open_def)
  have "length (skip_ws cs) < length s"
    using length_skip_ws [of cs] by (simp add: s)
  with assms show ?thesis
    by (auto simp: scan_open_def s rbind_eq_Inr_iff dest: scan_string_shorter scan_number_shorter
        split: if_splits)
qed

lemma scan_name_shorter:
  assumes "scan_name s = Inr (k, r)"
  shows "length r < length s"
proof -
  obtain q where q: "scan_string (length s) (tl s) = Inr (k, q)" "starts_with 34 s"
    "starts_with 58 (skip_ws q)" "r = skip_ws (tl (skip_ws q))"
    using assms by (auto simp: scan_name_def rbind_eq_Inr_iff Let_def split: if_splits)
  from q(1) have "length q < length (tl s)" by (rule scan_string_shorter)
  moreover have "length r \<le> length q"
    unfolding q(4) by (metis diff_le_self le_trans length_skip_ws length_tl)
  ultimately show ?thesis by simp
qed

lemma scan_separator_shorter:
  assumes "scan_separator close what q = Inr (b, t)"
  shows "length t < length q"
proof -
  have "skip_ws q \<noteq> []" "length t \<le> length (tl (skip_ws q))"
    using assms length_skip_ws [of "tl (skip_ws q)"]
    by (auto simp: scan_separator_def Let_def starts_with_def split: if_splits)
  then have "length t < length (skip_ws q)"
    by (cases "skip_ws q") simp_all
  with length_skip_ws [of q] show ?thesis by linarith
qed

lemmas scan_shorter = scan_string_shorter scan_number_shorter scan_name_shorter
  scan_separator_shorter

section \<open>Errors of the scanner\<close>

text \<open>Every error but running out of steps, with a short ASCII message.\<close>

definition scan_error_ok :: "json_error \<Rightarrow> bool" where
  "scan_error_ok e =
     (case e of JErr m _ \<Rightarrow> length m \<le> 60 \<and> list_all (\<lambda>c. c < 128) m
      | JFuel \<Rightarrow> False | _ \<Rightarrow> True)"

lemma scan_error_ok_simps [simp]:
  "scan_error_ok JValue" "scan_error_ok JRecursion" "\<not> scan_error_ok JFuel"
  "scan_error_ok (JErr m l) \<longleftrightarrow> length m \<le> 60 \<and> list_all (\<lambda>c. c < 128) m"
  by (simp_all add: scan_error_ok_def)

lemma unicode_escape_error: "unicode_escape s = Inl e \<Longrightarrow> scan_error_ok e"
  by (auto simp: unicode_escape_def Let_def ascii_def split: if_splits option.splits)

lemma scan_string_error: "scan_string k s = Inl e \<Longrightarrow> scan_error_ok e"
proof (induction k s rule: scan_string.induct)
  case (1 k)
  then show ?case by (auto simp: ascii_def)
next
  case (2 k c cs)
  then show ?case
    by (auto simp: rbind_eq_Inl_iff ascii_def dest: unicode_escape_error
        split: if_splits list.splits sum.splits option.splits)
qed

lemma scan_number_error: "scan_number s = Inl e \<Longrightarrow> scan_error_ok e"
  by (auto simp: scan_number_def Let_def ascii_def split: if_splits list.splits prod.splits)

lemma scan_open_error: "scan_open s = Inl e \<Longrightarrow> scan_error_ok e"
  by (auto simp: scan_open_def rbind_eq_Inl_iff dest: scan_string_error scan_number_error
      split: if_splits list.splits) (simp_all add: ascii_def)

lemma scan_name_error: "scan_name s = Inl e \<Longrightarrow> scan_error_ok e"
  by (auto simp: scan_name_def rbind_eq_Inl_iff Let_def dest: scan_string_error
      split: if_splits) (simp_all add: ascii_def)

lemma scan_separator_error:
  "scan_separator close what q = Inl e \<Longrightarrow> length what \<le> 10 \<Longrightarrow> list_all (\<lambda>c. c < 128) what
     \<Longrightarrow> scan_error_ok e"
  by (auto simp: scan_separator_def Let_def split: if_splits) (simp_all add: ascii_def)

lemmas scan_part_errors = scan_open_error scan_name_error

text \<open>
  With more than two steps per code point the scanner does not run out, and what it leaves is
  shorter than what it was given.
\<close>

definition scan_result_ok :: "nat \<Rightarrow> json_error + json \<times> ustr \<Rightarrow> bool" where
  "scan_result_ok len res =
     (case res of Inl e \<Rightarrow> scan_error_ok e | Inr (_, r) \<Rightarrow> length r < len)"

lemma scan_result_ok_simps [simp]:
  "scan_result_ok len (Inl e) \<longleftrightarrow> scan_error_ok e"
  "scan_result_ok len (Inr (v, r)) \<longleftrightarrow> length r < len"
  by (simp_all add: scan_result_ok_def)

lemma scan_result_ok_mono: "scan_result_ok k res \<Longrightarrow> k \<le> len \<Longrightarrow> scan_result_ok len res"
  by (auto simp: scan_result_ok_def split: sum.splits)

lemma scan_result_ok_rbind:
  assumes "\<And>e. m = Inl e \<Longrightarrow> scan_error_ok e" "\<And>x. m = Inr x \<Longrightarrow> scan_result_ok len (f x)"
  shows "scan_result_ok len (rbind m f)"
  using assms by (cases m) auto

lemma scan_result_ok_value:
  assumes "scan_result_ok k res" "\<And>v q. length q < k \<Longrightarrow> scan_result_ok len (f (v, q))"
  shows "scan_result_ok len (rbind res f)"
  using assms by (cases res) auto

lemma scan_result_ok_separator:
  assumes "length what \<le> 10" "list_all (\<lambda>c. c < 128) what"
    and "\<And>b t. length t < length q \<Longrightarrow> scan_result_ok len (f (b, t))"
  shows "scan_result_ok len (rbind (scan_separator close what q) f)"
  using assms by (intro scan_result_ok_rbind)
    (auto dest: scan_separator_error scan_separator_shorter)

lemma scan_value_step:
  assumes members: "\<And>r. length r < length s \<Longrightarrow> scan_result_ok (length r) (scan_members n (d - 1) [] r)"
    and elements: "\<And>r. length r < length s \<Longrightarrow> scan_result_ok (length r) (scan_elements n (d - 1) [] r)"
  shows "scan_result_ok (length s) (scan_value (Suc n) d s)"
  unfolding scan_value.simps
proof (rule scan_result_ok_rbind)
  fix op assume op: "scan_open s = Inr op"
  note short = scan_open_shorter [OF op]
  show "scan_result_ok (length s)
     (case op of
        Atom v r \<Rightarrow> Inr (v, r)
      | Open_Obj r \<Rightarrow>
          if d = 0 then Inl JRecursion
          else if starts_with 125 r then Inr (JObj [], tl r) else scan_members n (d - 1) [] r
      | Open_Arr r \<Rightarrow>
          if d = 0 then Inl JRecursion
          else if starts_with 93 r then Inr (JArr [], tl r) else scan_elements n (d - 1) [] r)"
    using short
    by (cases op) (auto intro: scan_result_ok_mono [OF members [simplified]]
        scan_result_ok_mono [OF elements [simplified]])
qed (rule scan_open_error)

lemma scan_members_step:
  assumes val: "\<And>r. length r < length s \<Longrightarrow> scan_result_ok (length r) (scan_value n d r)"
    and members: "\<And>acc r. length r < length s \<Longrightarrow> scan_result_ok (length r) (scan_members n d acc r)"
  shows "scan_result_ok (length s) (scan_members (Suc n) d acc s)"
  unfolding scan_members.simps
proof (rule scan_result_ok_rbind)
  fix kr assume kr: "scan_name s = Inr kr"
  obtain k r where [simp]: "kr = (k, r)" by (cases kr)
  with kr have r: "length r < length s" by (auto dest: scan_name_shorter)
  show "scan_result_ok (length s)
    (case kr of (k, r) \<Rightarrow> rbind (scan_value n d r) (\<lambda>(v, q).
       rbind (scan_separator 125 (ascii ''object'') q) (\<lambda>(closed, t).
         if closed then Inr (JObj (AList.update k v acc), t)
         else scan_members n d (AList.update k v acc) t)))"
    unfolding \<open>kr = (k, r)\<close> prod.case
  proof (rule scan_result_ok_value [where k = "length r", OF val [OF r]])
    fix v q assume q: "length (q :: ustr) < length r"
    show "scan_result_ok (length s) (case (v, q) of (v, q) \<Rightarrow>
       rbind (scan_separator 125 (ascii ''object'') q) (\<lambda>(closed, t).
         if closed then Inr (JObj (AList.update k v acc), t)
         else scan_members n d (AList.update k v acc) t))"
      unfolding prod.case
    proof (rule scan_result_ok_separator)
      fix b t assume "length (t :: ustr) < length q"
      with r q show "scan_result_ok (length s) (case (b, t) of (closed, t) \<Rightarrow>
          if closed then Inr (JObj (AList.update k v acc), t)
          else scan_members n d (AList.update k v acc) t)"
        by (auto intro: scan_result_ok_mono [OF members])
    qed (simp_all add: ascii_def)
  qed
qed (rule scan_name_error)

lemma scan_elements_step:
  assumes val: "scan_result_ok (length s) (scan_value n d s)"
    and elements: "\<And>acc r. length r < length s \<Longrightarrow> scan_result_ok (length r) (scan_elements n d acc r)"
  shows "scan_result_ok (length s) (scan_elements (Suc n) d acc s)"
  unfolding scan_elements.simps
proof (rule scan_result_ok_value [where k = "length s", OF val])
  fix v q assume q: "length (q :: ustr) < length s"
  show "scan_result_ok (length s) (case (v, q) of (v, q) \<Rightarrow>
     rbind (scan_separator 93 (ascii ''array'') q) (\<lambda>(closed, t).
       if closed then Inr (JArr (acc @ [v]), t) else scan_elements n d (acc @ [v]) t))"
    unfolding prod.case
  proof (rule scan_result_ok_separator)
    fix b t assume "length (t :: ustr) < length q"
    with q show "scan_result_ok (length s) (case (b, t) of (closed, t) \<Rightarrow>
        if closed then Inr (JArr (acc @ [v]), t) else scan_elements n d (acc @ [v]) t)"
      by (auto intro: scan_result_ok_mono [OF elements])
  qed (simp_all add: ascii_def)
qed

lemma scan_fuel:
  "(\<forall>d s. 2 * length s < n \<longrightarrow> scan_result_ok (length s) (scan_value n d s)) \<and>
   (\<forall>d acc s. 2 * length s + 1 < n \<longrightarrow> scan_result_ok (length s) (scan_members n d acc s)) \<and>
   (\<forall>d acc s. 2 * length s + 1 < n \<longrightarrow> scan_result_ok (length s) (scan_elements n d acc s))"
proof (induction n)
  case 0
  then show ?case by simp
next
  case (Suc n)
  then have val: "scan_result_ok (length s) (scan_value n d s)" if "2 * length s < n" for d s
    using that by blast
  from Suc have members: "scan_result_ok (length s) (scan_members n d acc s)"
    if "2 * length s + 1 < n" for d acc s
    using that by blast
  from Suc have elements: "scan_result_ok (length s) (scan_elements n d acc s)"
    if "2 * length s + 1 < n" for d acc s
    using that by blast
  have "scan_result_ok (length s) (scan_value (Suc n) d s)" if "2 * length s < Suc n" for d s
    using that by (intro scan_value_step members elements) linarith+
  moreover have "scan_result_ok (length s) (scan_members (Suc n) d acc s)"
    if "2 * length s + 1 < Suc n" for d acc s
    using that by (intro scan_members_step val members) linarith+
  moreover have "scan_result_ok (length s) (scan_elements (Suc n) d acc s)"
    if "2 * length s + 1 < Suc n" for d acc s
    using that by (intro scan_elements_step val elements) linarith+
  ultimately show ?case by blast
qed

lemma json_loads_error: "json_loads d doc = Inl e \<Longrightarrow> scan_error_ok e"
proof -
  assume e: "json_loads d doc = Inl e"
  have "scan_result_ok (length (skip_ws doc)) (scan_value (2 * length doc + 2) d (skip_ws doc))"
    using scan_fuel [of "2 * length doc + 2"] length_skip_ws [of doc] by auto
  with e show ?thesis
    by (auto simp: json_loads_def rbind_eq_Inl_iff scan_result_ok_def split: if_splits)
      (simp_all add: ascii_def)
qed

section \<open>Reading back a written object\<close>

lemma hex_val_hex_digit: "d < 16 \<Longrightarrow> hex_val (hex_digit d) = Some d"
  by (auto simp: hex_val_def hex_digit_def)

lemma hex4_hex_fixed: "c < 65536 \<Longrightarrow> hex4 (hex_fixed 4 c @ t) = Some c"
proof -
  have "((c div 16 div 16 div 16 mod 16 * 16 + c div 16 div 16 mod 16) * 16 + c div 16 mod 16) * 16
      + c mod 16 = c" if "c < 65536"
  proof -
    have "c div 16 div 16 div 16 < 16" using that by (simp add: div_mult2_eq [symmetric] less_mult_imp_div_less)
    then have "c div 16 div 16 div 16 mod 16 * 16 + c div 16 div 16 mod 16 = c div 16 div 16"
      by (metis div_mult_mod_eq mod_less)
    then show ?thesis by (metis div_mult_mod_eq)
  qed
  then show "c < 65536 \<Longrightarrow> ?thesis"
    by (simp add: eval_nat_numeral(3) [of "num.Bit0 (num.Bit0 num.One)" for num] numeral_eq_Suc [of "num.Bit0 (num.Bit0 num.One)"]
        numeral_eq_Suc [of "num.Bit1 num.One"] numeral_eq_Suc [of "num.Bit0 num.One"] hex_val_hex_digit)
qed

lemma scan_string_escape:
  assumes "t \<noteq> []"
  shows "scan_string k (escape_char c @ t) = rbind (scan_string k t) (\<lambda>(s, r). Inr (c # s, r))"
proof -
  have "unicode_escape (hex_fixed 4 c @ t) = Inr (c, t)" if "c < 32"
    using that assms hex4_hex_fixed [of c t]
    by (cases t) (simp_all add: unicode_escape_def del: hex_fixed.simps)
  then show ?thesis
    by (auto simp: escape_char_def simple_escape_def not_less simp del: hex_fixed.simps)
qed

lemma scan_string_dump: "scan_string k (concat (map escape_char s) @ 34 # rest) = Inr (s, rest)"
proof (induction s)
  case Nil
  then show ?case by simp
next
  case (Cons c s)
  then show ?case by (simp add: scan_string_escape)
qed

text \<open>What follows a member's value: a comma or the closing brace.\<close>

definition ends_value :: "ustr \<Rightarrow> bool" where
  "ends_value rest \<longleftrightarrow> starts_with 44 rest \<or> starts_with 125 rest"

lemma digits_split:
  assumes "list_all is_digit ds" "ends_value rest"
  shows "takeWhile is_digit (ds @ rest) = ds" "dropWhile is_digit (ds @ rest) = rest"
  using assms by (cases rest; auto simp: ends_value_def is_digit_def list_all_iff takeWhile_append
      dropWhile_append)+

lemma ends_value_no_float:
  assumes "ends_value rest"
  shows "split_fraction rest = ([], rest)" "split_exponent rest = ([], rest)"
  using assms by (cases rest; auto simp: ends_value_def split_fraction_def split_exponent_def
      split: list.splits)+

definition field_ok :: "field \<Rightarrow> bool" where
  "field_ok f = (case f of FStr _ \<Rightarrow> True
     | FInt v \<Rightarrow> length (dec_nat (nat \<bar>v\<bar>)) \<le> INT_MAX_STR_DIGITS)"

lemma dec_nat_Cons:
  obtains c cs where "dec_nat n = c # cs" "is_digit c" "list_all is_digit cs" "c = 48 \<Longrightarrow> cs = []"
proof -
  obtain c cs where d: "dec_nat n = c # cs" by (cases "dec_nat n") auto
  moreover have "is_digit c" "list_all is_digit cs" using dec_nat_digits [of n] d by simp_all
  moreover have "cs = []" if "c = 48"
  proof -
    from d that hd_dec_nat [of n] have "n = 0" by simp
    with d show ?thesis by (subst (asm) dec_nat.simps) simp
  qed
  ultimately show ?thesis using that by blast
qed

lemma scan_number_digits:
  assumes "length (dec_nat n) \<le> INT_MAX_STR_DIGITS" "ends_value rest"
  shows "scan_number (dec_nat n @ rest) = Inr (JInt (int n), rest)"
    and "scan_number (45 # dec_nat n @ rest) = Inr (JInt (- int n), rest)"
proof -
  obtain c cs where d: "dec_nat n = c # cs" "is_digit c" "list_all is_digit cs" "c = 48 \<Longrightarrow> cs = []"
    using dec_nat_Cons [of n] by blast
  have c: "c \<noteq> 45" using d(2) by (auto simp: is_digit_def)
  have ds: "(if c = 48 then [48] else c # takeWhile is_digit (cs @ rest)) = c # cs"
    using d(4) digits_split [OF d(3) assms(2)] by auto
  have val: "digits_nat (c # cs) = n" using digits_nat_dec_nat [of n] d(1) by simp
  show "scan_number (dec_nat n @ rest) = Inr (JInt (int n), rest)"
    using assms(1) d(2) c val unfolding scan_number_def d(1)
    by (simp add: ds ends_value_no_float [OF assms(2)] Let_def)
  show "scan_number (45 # dec_nat n @ rest) = Inr (JInt (- int n), rest)"
    using assms(1) d(2) c val unfolding scan_number_def d(1)
    by (simp add: ds ends_value_no_float [OF assms(2)] Let_def)
qed

lemma scan_open_int:
  assumes "field_ok (FInt v)" "ends_value rest"
  shows "scan_open (dec_int v @ rest) = Inr (Atom (JInt v) rest)"
proof -
  obtain c cs where d: "dec_nat (nat \<bar>v\<bar>) = c # cs" "is_digit c" "list_all is_digit cs" "c = 48 \<Longrightarrow> cs = []"
    using dec_nat_Cons [of "nat \<bar>v\<bar>"] by blast
  have c: "48 \<le> c" "c \<le> 57" using d(2) by (simp_all add: is_digit_def)
  have len: "length (dec_nat (nat \<bar>v\<bar>)) \<le> INT_MAX_STR_DIGITS"
    using assms(1) by (simp add: field_ok_def)
  note num = scan_number_digits [OF len assms(2)]
  show ?thesis
  proof (cases "v < 0")
    case True
    with d(1) have dv: "dec_int v = 45 # c # cs" by (simp add: dec_int_def)
    have "scan_number (45 # c # cs @ rest) = Inr (JInt v, rest)"
      using num(2) d(1) True by simp
    with c show ?thesis by (simp add: scan_open_def dv ascii_def)
  next
    case False
    with d(1) have dv: "dec_int v = c # cs" by (simp add: dec_int_def)
    have "scan_number (c # cs @ rest) = Inr (JInt v, rest)"
      using num(1) d(1) False by simp
    with c show ?thesis by (simp add: scan_open_def dv ascii_def)
  qed
qed

lemma scan_open_field:
  assumes "field_ok f" "ends_value rest"
  shows "scan_open (dump_field f @ rest) = Inr (Atom (field_json f) rest)"
proof (cases f)
  case (FStr s)
  then show ?thesis by (simp add: scan_open_def dump_string_def scan_string_dump)
next
  case (FInt v)
  with assms show ?thesis by (simp add: scan_open_int)
qed

lemma dump_field_no_ws: "skip_ws (dump_field f @ rest) = dump_field f @ rest"
proof (cases f)
  case (FStr s)
  then show ?thesis by (simp add: dump_string_def is_ws_def)
next
  case (FInt v)
  obtain c cs where "dec_nat (nat \<bar>v\<bar>) = c # cs" "is_digit c"
    using dec_nat_Cons [of "nat \<bar>v\<bar>"] by blast
  with FInt show ?thesis by (auto simp: dec_int_def is_ws_def is_digit_def)
qed

lemma scan_name_dump:
  "scan_name (dump_string k @ 58 # dump_field f @ rest) = Inr (k, dump_field f @ rest)"
  by (simp add: scan_name_def dump_string_def scan_string_dump is_ws_def dump_field_no_ws)

lemma dump_members_quote: "ms \<noteq> [] \<Longrightarrow> \<exists>t. dump_members ms = 34 # t"
  by (induction ms rule: dump_members.induct) (simp_all add: dump_member_def dump_string_def)

lemma scan_members_dump:
  assumes "ms \<noteq> []" "list_all (\<lambda>m. field_ok (snd m)) ms" "length ms < n"
  shows "scan_members n d acc (dump_members ms @ 125 # rest) =
    Inr (JObj (fold (\<lambda>m. AList.update (fst m) (field_json (snd m))) ms acc), rest)"
  using assms
proof (induction ms arbitrary: n acc rule: dump_members.induct)
  case 1
  then show ?case by simp
next
  case (2 m)
  then obtain n' where n: "n = Suc (Suc n')" by (cases n; cases "n - 1") auto
  have "scan_name (dump_member m @ 125 # rest) = Inr (fst m, dump_field (snd m) @ 125 # rest)"
    by (simp add: dump_member_def scan_name_dump)
  with 2 n show ?case
    by (simp add: scan_open_field ends_value_def scan_separator_def is_ws_def)
next
  case (3 m m' ms)
  then obtain k n' where n: "n = Suc k" and k: "k = Suc n'" by (cases n; cases "n - 1") auto
  let ?rest = "44 # dump_members (m' # ms) @ 125 # rest"
  have name: "scan_name (dump_member m @ ?rest) = Inr (fst m, dump_field (snd m) @ ?rest)"
    by (simp add: dump_member_def scan_name_dump)
  obtain t where t: "dump_members (m' # ms) = 34 # t"
    using dump_members_quote [of "m' # ms"] by auto
  have sep: "scan_separator 125 (ascii ''object'') ?rest =
      Inr (False, dump_members (m' # ms) @ 125 # rest)"
    by (simp add: scan_separator_def t is_ws_def)
  have val: "scan_value k d (dump_field (snd m) @ ?rest) = Inr (field_json (snd m), ?rest)"
    using 3 by (simp add: k scan_open_field ends_value_def)
  have "scan_members k d acc (dump_members (m' # ms) @ 125 # rest) = Inr (JObj (fold
      (\<lambda>m. AList.update (fst m) (field_json (snd m))) (m' # ms) acc), rest)" for acc
    using "3.prems" n by (intro "3.IH") simp_all
  then show ?case
    by (simp only: n scan_members.simps dump_members.simps append.simps append_assoc name sep val
        rbind_Inr prod.case if_False fold_simps HOL.simp_thms)
qed

lemma length_dump_members: "length ms \<le> length (dump_members ms)"
  by (induction ms rule: dump_members.induct) (simp_all add: dump_member_def dump_string_def)

lemma json_loads_dumps:
  assumes "ms \<noteq> []" "list_all (\<lambda>m. field_ok (snd m)) ms" "0 < depth"
  shows "json_loads depth (json_dumps ms) =
    Inr (JObj (fold (\<lambda>m. AList.update (fst m) (field_json (snd m))) ms []))"
proof -
  obtain t where t: "dump_members ms = 34 # t"
    using dump_members_quote [OF assms(1)] by auto
  have "length ms < 2 * length (json_dumps ms) + 1"
    using length_dump_members [of ms] by (simp add: json_dumps_def)
  then have "scan_members (2 * length (json_dumps ms) + 1) (depth - 1) [] (dump_members ms @ [125])
      = Inr (JObj (fold (\<lambda>m. AList.update (fst m) (field_json (snd m))) ms []), [])"
    by (rule scan_members_dump [OF assms(1,2)])
  with assms(3) show ?thesis
    by (simp add: json_loads_def json_dumps_def scan_open_def is_ws_def t)
qed

end
