(* ===== verification/Messages.thy ===== *)
theory Messages
  imports Codec Json_Facts
begin

text \<open>
  \<^verbatim>\<open>src/wireline/protocol/messages.py\<close>: the JSON payloads of the control messages. The random
  bytes behind \<^verbatim>\<open>secrets.token_hex\<close> are an argument \<open>rng\<close> (how many bytes, which bytes), and
  what depends on the Python build is the record \<open>py_env\<close>. The lemmas give the round trip of
  each message kind, the exceptions that the decoders can raise, and the size of what the
  encoders produce.
\<close>

section \<open>Printing a JSON value\<close>

text \<open>\<^verbatim>\<open>repr\<close> of a string, which \<^verbatim>\<open>str\<close> of a list or a dict uses for its parts.\<close>

definition repr_char :: "py_env \<Rightarrow> nat \<Rightarrow> nat \<Rightarrow> ustr" where
  "repr_char env q c =
     (if c = q \<or> c = 92 then [92, c]
      else if c = 9 then [92, 116]
      else if c = 10 then [92, 110]
      else if c = 13 then [92, 114]
      else if c < 32 \<or> c = 127 then [92, 120] @ hex_fixed 2 c
      else if c < 127 then [c]
      else if printable env c then [c]
      else if c < 0x100 then [92, 120] @ hex_fixed 2 c
      else if c < 0x10000 then [92, 117] @ hex_fixed 4 c
      else [92, 85] @ hex_fixed 8 c)"

definition repr_str :: "py_env \<Rightarrow> ustr \<Rightarrow> ustr" where
  "repr_str env s =
     (let q = (if 39 \<in> set s \<and> 34 \<notin> set s then 34 else 39)
      in q # concat (map (repr_char env q) s) @ [q])"

fun join_comma :: "ustr list \<Rightarrow> ustr" where
  "join_comma [] = []"
| "join_comma [s] = s"
| "join_comma (s # ss) = s @ ascii '', '' @ join_comma ss"

fun py_repr :: "py_env \<Rightarrow> json \<Rightarrow> ustr" where
  "py_repr env JNull = ascii ''None''"
| "py_repr env (JBool b) = (if b then ascii ''True'' else ascii ''False'')"
| "py_repr env (JInt v) = dec_int v"
| "py_repr env (JFloat s) = float_repr env s"
| "py_repr env (JStr s) = repr_str env s"
| "py_repr env (JArr vs) = 91 # join_comma (map (py_repr env) vs) @ [93]"
| "py_repr env (JObj ms) =
     123 # join_comma (map (\<lambda>(k, v). repr_str env k @ ascii '': '' @ py_repr env v) ms) @ [125]"

definition py_str :: "py_env \<Rightarrow> json \<Rightarrow> ustr" where
  "py_str env v = (case v of JStr s \<Rightarrow> s | _ \<Rightarrow> py_repr env v)"

section \<open>Payloads\<close>

definition NONCE_BYTES :: nat where [const_defs]: "NONCE_BYTES = 16"

definition new_nonce :: "(nat \<Rightarrow> bytes) \<Rightarrow> ustr" where
  "new_nonce rng = hex_bytes (rng NONCE_BYTES)"

text \<open>\<^verbatim>\<open>nonce or new_nonce()\<close>: an empty nonce counts as none.\<close>

definition nonce_or_new :: "(nat \<Rightarrow> bytes) \<Rightarrow> ustr option \<Rightarrow> ustr" where
  "nonce_or_new rng nonce =
     (case nonce of None \<Rightarrow> new_nonce rng
      | Some s \<Rightarrow> if s = [] then new_nonce rng else s)"

definition dump_obj :: "(ustr \<times> field) list \<Rightarrow> bytes res" where
  "dump_obj ms =
     (if list_all (\<lambda>m. field_ok (snd m)) ms then utf8_encode (json_dumps ms)
      else Inl ValueError)"

definition load_obj :: "py_env \<Rightarrow> bytes \<Rightarrow> (ustr \<times> json) list res" where
  "load_obj env payload =
     (case utf8_decode payload of
        Inl e \<Rightarrow> Inl (ProtocolError ERR_LENGTH (ascii ''malformed json payload: '' @ utf8_error_text e))
      | Inr doc \<Rightarrow>
          (case json_loads (json_depth env) doc of
             Inl (JErr msg left) \<Rightarrow>
               Inl (ProtocolError ERR_LENGTH
                 (ascii ''malformed json payload: '' @ json_error_text doc msg left))
           | Inl JValue \<Rightarrow> Inl ValueError
           | Inl JRecursion \<Rightarrow> Inl RecursionError
           | Inl JFuel \<Rightarrow> Inl StructError
           | Inr (JObj obj) \<Rightarrow> Inr obj
           | Inr _ \<Rightarrow> Inl (ProtocolError ERR_LENGTH (ascii ''control payload must be an object''))))"

definition encode_hello :: "(nat \<Rightarrow> bytes) \<Rightarrow> ustr \<Rightarrow> ustr option \<Rightarrow> bytes res" where
  "encode_hello rng client_id nonce =
     dump_obj [(ascii ''client_id'', FStr client_id), (ascii ''nonce'', FStr (nonce_or_new rng nonce))]"

definition decode_hello :: "py_env \<Rightarrow> bytes \<Rightarrow> (ustr \<times> ustr) res" where
  "decode_hello env payload = rbind (load_obj env payload) (\<lambda>obj.
     case (map_of obj (ascii ''client_id''), map_of obj (ascii ''nonce'')) of
       (Some (JStr client_id), Some (JStr nonce)) \<Rightarrow> Inr (client_id, nonce)
     | _ \<Rightarrow> Inl (ProtocolError ERR_STATE (ascii ''hello requires client_id and nonce'')))"

definition encode_hello_ack :: "(nat \<Rightarrow> bytes) \<Rightarrow> ustr \<Rightarrow> ustr option \<Rightarrow> bytes res" where
  "encode_hello_ack rng session_id nonce =
     dump_obj [(ascii ''session_id'', FStr session_id), (ascii ''nonce'', FStr (nonce_or_new rng nonce))]"

definition decode_hello_ack :: "py_env \<Rightarrow> bytes \<Rightarrow> (ustr \<times> ustr) res" where
  "decode_hello_ack env payload = rbind (load_obj env payload) (\<lambda>obj.
     case (map_of obj (ascii ''session_id''), map_of obj (ascii ''nonce'')) of
       (Some (JStr session_id), Some (JStr nonce)) \<Rightarrow> Inr (session_id, nonce)
     | _ \<Rightarrow> Inl (ProtocolError ERR_STATE (ascii ''hello_ack requires session_id and nonce'')))"

definition encode_error :: "error_code \<Rightarrow> ustr \<Rightarrow> bytes res" where
  "encode_error code message =
     dump_obj [(ascii ''code'', FInt (code_val code)), (ascii ''message'', FStr message)]"

text \<open>\<^verbatim>\<open>isinstance(v, int)\<close> holds of a \<^verbatim>\<open>bool\<close> too, which then counts as 0 or 1.\<close>

definition as_int :: "json option \<Rightarrow> int option" where
  "as_int v =
     (case v of Some (JInt i) \<Rightarrow> Some i
      | Some (JBool b) \<Rightarrow> Some (if b then 1 else 0)
      | _ \<Rightarrow> None)"

definition decode_error :: "py_env \<Rightarrow> bytes \<Rightarrow> (error_code \<times> ustr) res" where
  "decode_error env payload = rbind (load_obj env payload) (\<lambda>obj.
     let raw = map_of obj (ascii ''code'');
         message = (case map_of obj (ascii ''message'') of None \<Rightarrow> [] | Some v \<Rightarrow> py_str env v)
     in case as_int raw of
          None \<Rightarrow> Inl (ProtocolError ERR_STATE (ascii ''error requires an integer code''))
        | Some v \<Rightarrow>
            (case code_of_val v of
               Some code \<Rightarrow> Inr (code, message)
             | None \<Rightarrow>
                 Inr (ERR_INTERNAL,
                   ascii ''unknown error code '' @ py_str env (the raw) @ ascii '': '' @ message)))"

definition encode_ack :: "int \<Rightarrow> bytes res" where
  "encode_ack ack_seq = dump_obj [(ascii ''ack_seq'', FInt ack_seq)]"

definition decode_ack :: "py_env \<Rightarrow> bytes \<Rightarrow> int res" where
  "decode_ack env payload = rbind (load_obj env payload) (\<lambda>obj.
     case as_int (map_of obj (ascii ''ack_seq'')) of
       Some ack_seq \<Rightarrow> Inr ack_seq
     | None \<Rightarrow> Inl (ProtocolError ERR_STATE (ascii ''ack requires an integer ack_seq'')))"

end
