(* ===== verification/Messages_Facts.thy ===== *)
theory Messages_Facts
  imports Messages
begin

text \<open>
  Lemmas on the control messages: what the decoders can raise, that every encoder's output
  decodes to what was encoded (stated once as the locale \<open>control_message\<close> and interpreted for
  the four kinds), and that the text of an error always fits an ERROR frame.
\<close>

section \<open>What the decoders can raise\<close>

text \<open>
  Besides \<open>ProtocolError\<close>, the decoders let two exceptions of the JSON scanner through: it is a
  plain \<^verbatim>\<open>ValueError\<close>, not a \<^verbatim>\<open>JSONDecodeError\<close>, that an overlong integer literal raises.
\<close>

definition load_exn :: "exn \<Rightarrow> bool" where
  "load_exn e \<longleftrightarrow> is_protocol_error e \<or> e = ValueError \<or> e = RecursionError"

lemma load_exn_simps [simp]:
  "load_exn (ProtocolError c m)" "load_exn ValueError" "load_exn RecursionError"
  by (simp_all add: load_exn_def)

lemma load_obj_Inl: "load_obj env p = Inl e \<Longrightarrow> load_exn e"
  by (auto simp: load_obj_def split: sum.splits json_error.splits json.splits dest: json_loads_error)

lemma rbind_load_Inl:
  assumes "rbind (load_obj env p) f = Inl e" "\<And>obj. f obj = Inl e \<Longrightarrow> load_exn e"
  shows "load_exn e"
  using assms load_obj_Inl by (auto simp: rbind_eq_Inl_iff)

lemma decode_hello_Inl: "decode_hello env p = Inl e \<Longrightarrow> load_exn e"
  unfolding decode_hello_def
  by (erule rbind_load_Inl) (auto simp: Let_def split: option.split_asm json.split_asm)

lemma decode_hello_ack_Inl: "decode_hello_ack env p = Inl e \<Longrightarrow> load_exn e"
  unfolding decode_hello_ack_def
  by (erule rbind_load_Inl) (auto simp: Let_def split: option.split_asm json.split_asm)

lemma decode_error_Inl: "decode_error env p = Inl e \<Longrightarrow> load_exn e"
  unfolding decode_error_def
  by (erule rbind_load_Inl) (auto simp: Let_def split: option.split_asm json.split_asm)

lemma decode_ack_Inl: "decode_ack env p = Inl e \<Longrightarrow> load_exn e"
  unfolding decode_ack_def
  by (erule rbind_load_Inl) (auto simp: Let_def split: option.split_asm json.split_asm)

lemmas decoder_exns = decode_hello_Inl decode_hello_ack_Inl decode_error_Inl decode_ack_Inl

section \<open>Reading back what was written\<close>

lemma load_dump_obj:
  assumes "dump_obj ms = Inr p" "ms \<noteq> []" "0 < json_depth env"
  shows "load_obj env p = Inr (fold (\<lambda>m. AList.update (fst m) (field_json (snd m))) ms [])"
proof -
  from assms(1) have ok: "list_all (\<lambda>m. field_ok (snd m)) ms" and p: "utf8_encode (json_dumps ms) = Inr p"
    by (simp_all add: dump_obj_def split: if_splits)
  show ?thesis
    using json_loads_dumps [OF assms(2) ok assms(3)] utf8_roundtrip [OF p] by (simp add: load_obj_def)
qed

text \<open>
  A kind of control message: its encoder, its decoder and the values it can carry. The law is
  that encoding succeeds on them and decodes to them; injectivity follows.
\<close>

locale control_message =
  fixes enc :: "'a \<Rightarrow> bytes res" and dec :: "bytes \<Rightarrow> 'b res" and sent :: "'a \<Rightarrow> 'b"
    and carries :: "'a \<Rightarrow> bool"
  assumes dec_enc: "carries x \<Longrightarrow> \<exists>p. enc x = Inr p \<and> dec p = Inr (sent x)"
begin

lemma enc_ok: "carries x \<Longrightarrow> enc x = Inr (projr (enc x))"
  using dec_enc by fastforce

lemma dec_of_enc: "carries x \<Longrightarrow> enc x = Inr p \<Longrightarrow> dec p = Inr (sent x)"
  using dec_enc by fastforce

lemma enc_inject: "carries x \<Longrightarrow> carries y \<Longrightarrow> enc x = enc y \<Longrightarrow> sent x = sent y"
  using dec_enc [of x] dec_enc [of y] by auto

end

lemma json_text_scalar:
  assumes "list_all (\<lambda>m. list_all scalar (fst m)) ms"
    and "list_all (\<lambda>m. case snd m of FStr s \<Rightarrow> list_all scalar s | FInt v \<Rightarrow> True) ms"
  shows "list_all scalar (json_dumps ms)"
proof -
  have hex: "scalar x" if "x \<in> set (hex_fixed 4 c)" for x c
    using hex_fixed_printable [OF that] by (simp add: scalar_def)
  have esc: "list_all scalar (escape_char c)" if "scalar c" for c
    using that hex
    by (auto simp: escape_char_def list_all_iff scalar_def simp del: hex_fixed.simps)
  have str: "list_all scalar (dump_string s)" if "list_all scalar s" for s
    using that esc by (auto simp: dump_string_def list_all_iff scalar_def)
  have dig: "list_all scalar (dec_nat n)" for n
    using dec_nat_digits [of n] by (auto simp: list_all_iff is_digit_def scalar_def)
  then have num: "list_all scalar (dec_int v)" for v
    by (simp add: dec_int_def scalar_def)
  have "list_all scalar (dump_members ms)" using assms
    by (induction ms rule: dump_members.induct)
      (auto simp: dump_member_def str num scalar_def split: field.splits)
  then show ?thesis by (simp add: json_dumps_def scalar_def)
qed

lemma ascii_scalar [simp]: "list_all scalar (ascii s)"
  using ascii_less_256 by (fastforce simp: list_all_iff scalar_def)

lemma dump_obj_ok:
  assumes "list_all (\<lambda>m. list_all scalar (fst m)) ms" "list_all (\<lambda>m. field_ok (snd m)) ms"
    "list_all (\<lambda>m. case snd m of FStr s \<Rightarrow> list_all scalar s | FInt v \<Rightarrow> True) ms"
  shows "\<exists>p. dump_obj ms = Inr p"
  using assms json_text_scalar [OF assms(1,3)] by (simp add: dump_obj_def utf8_encode_scalars)

lemma ascii_inject [simp]: "ascii s = ascii t \<longleftrightarrow> s = t"
  unfolding ascii_def by (rule inj_map_eq_map) (simp add: inj_def)

lemma field_ok_FStr [simp]: "field_ok (FStr s)"
  by (simp add: field_ok_def)

lemma nonce_scalar: "list_all scalar s \<Longrightarrow> list_all scalar (nonce_or_new rng (Some s))"
  "list_all scalar (nonce_or_new rng None)"
  by (auto simp: nonce_or_new_def new_nonce_def list_all_iff scalar_def dest: hex_bytes_printable)

interpretation hello: control_message
  "\<lambda>(c, n). encode_hello rng c n" "decode_hello env" "\<lambda>(c, n). (c, nonce_or_new rng n)"
  "\<lambda>(c, n). 0 < json_depth env \<and> list_all scalar c \<and> list_all scalar (nonce_or_new rng n)"
  for rng env
proof (unfold_locales, clarify)
  fix c n assume ok: "0 < json_depth env" "list_all scalar c" "list_all scalar (nonce_or_new rng n)"
  let ?ms = "[(ascii ''client_id'', FStr c), (ascii ''nonce'', FStr (nonce_or_new rng n))]"
  from ok obtain p where p: "dump_obj ?ms = Inr p" using dump_obj_ok [of ?ms] by auto
  with load_dump_obj [OF p _ ok(1)]
  show "\<exists>p. encode_hello rng c n = Inr p \<and> decode_hello env p = Inr (c, nonce_or_new rng n)"
    by (simp add: encode_hello_def decode_hello_def)
qed

lemma decode_encoded_hello:
  assumes "encode_hello rng (ascii cid) None = Inr p" "0 < json_depth env"
  shows "decode_hello env p = Inr (ascii cid, new_nonce rng)"
proof -
  have c: "case (ascii cid, None) of (c, n) \<Rightarrow>
      0 < json_depth env \<and> list_all scalar c \<and> list_all scalar (nonce_or_new rng n)"
    using assms(2) nonce_scalar(2) [of rng] by simp
  show ?thesis
    using hello.dec_of_enc [OF c, of p] assms(1) unfolding prod.case by (simp only: nonce_or_new_def option.case)
qed

interpretation hello_ack: control_message
  "\<lambda>(c, n). encode_hello_ack rng c n" "decode_hello_ack env" "\<lambda>(c, n). (c, nonce_or_new rng n)"
  "\<lambda>(c, n). 0 < json_depth env \<and> list_all scalar c \<and> list_all scalar (nonce_or_new rng n)"
  for rng env
proof (unfold_locales, clarify)
  fix c n assume ok: "0 < json_depth env" "list_all scalar c" "list_all scalar (nonce_or_new rng n)"
  let ?ms = "[(ascii ''session_id'', FStr c), (ascii ''nonce'', FStr (nonce_or_new rng n))]"
  from ok obtain p where p: "dump_obj ?ms = Inr p" using dump_obj_ok [of ?ms] by auto
  with load_dump_obj [OF p _ ok(1)]
  show "\<exists>p. encode_hello_ack rng c n = Inr p \<and> decode_hello_ack env p = Inr (c, nonce_or_new rng n)"
    by (simp add: encode_hello_ack_def decode_hello_ack_def)
qed

lemma field_ok_small: "\<bar>v\<bar> < 10 ^ 20 \<Longrightarrow> field_ok (FInt v)"
  using length_dec_nat [of "nat \<bar>v\<bar>" 20] by (simp add: field_ok_def INT_MAX_STR_DIGITS_def nat_less_iff)

lemma field_ok_code [simp]: "field_ok (FInt (code_val c))"
  using code_val_bounds [of c] by (intro field_ok_small) simp

interpretation error_msg: control_message
  "\<lambda>(c, m). encode_error c m" "decode_error env" "\<lambda>x. x"
  "\<lambda>(c, m). 0 < json_depth env \<and> list_all scalar m" for env
proof (unfold_locales, clarify)
  fix c m assume ok: "0 < json_depth env" "list_all scalar m"
  let ?ms = "[(ascii ''code'', FInt (code_val c)), (ascii ''message'', FStr m)]"
  from ok obtain p where p: "dump_obj ?ms = Inr p" using dump_obj_ok [of ?ms] by auto
  with load_dump_obj [OF p _ ok(1)]
  show "\<exists>p. encode_error c m = Inr p \<and> decode_error env p = Inr (c, m)"
    by (simp add: encode_error_def decode_error_def as_int_def py_str_def)
qed

interpretation ack_msg: control_message
  encode_ack "decode_ack env" "\<lambda>x. x" "\<lambda>v. 0 < json_depth env \<and> field_ok (FInt v)" for env
proof (unfold_locales, clarify)
  fix v assume ok: "0 < json_depth env" "field_ok (FInt v)"
  let ?ms = "[(ascii ''ack_seq'', FInt v)]"
  from ok obtain p where p: "dump_obj ?ms = Inr p" using dump_obj_ok [of ?ms] by auto
  with load_dump_obj [OF p _ ok(1)]
  show "\<exists>p. encode_ack v = Inr p \<and> decode_ack env p = Inr v"
    by (simp add: encode_ack_def decode_ack_def as_int_def)
qed

section \<open>Error texts are short ASCII\<close>

definition wire_text :: "ustr \<Rightarrow> bool" where
  "wire_text m \<longleftrightarrow> list_all (\<lambda>c. c < 128) m \<and> length m \<le> 500"

lemma dec_nat_ascii [simp]: "list_all (\<lambda>c. c < 128) (dec_nat n)"
  using dec_nat_digits [of n] by (auto simp: list_all_iff is_digit_def)

lemma hex_fixed_ascii [simp]: "list_all (\<lambda>c. c < 128) (hex_fixed w n)"
  using hex_fixed_printable [of _ w n] by (fastforce simp: list_all_iff)

lemma utf8_char_Inl:
  "utf8_char b bs = Inl (reason, n) \<Longrightarrow> length reason \<le> 30 \<and> list_all (\<lambda>c. c < 128) reason \<and> n \<le> 3"
  by (auto simp: utf8_char_def ascii_def split: if_split_asm list.split_asm)

lemma utf8_char_Inr: "utf8_char b bs = Inr (c, n) \<Longrightarrow> 1 \<le> n \<and> n \<le> length bs + 1"
  by (auto simp: utf8_char_def split: if_split_asm list.split_asm)

lemma utf8_scan_Inl:
  "utf8_scan pos bs = Inl e \<Longrightarrow>
     length (u_reason e) \<le> 30 \<and> list_all (\<lambda>c. c < 128) (u_reason e)
     \<and> u_start e \<le> pos + length bs \<and> u_end e \<le> pos + length bs + 3"
proof (induction pos bs rule: utf8_scan.induct)
  case (2 pos b bs)
  show ?case
  proof (cases "utf8_char b bs")
    case (Inl a)
    with "2.prems" show ?thesis by (cases a) (auto dest: utf8_char_Inl)
  next
    case (Inr a)
    obtain c n where a: "a = (c, n)" by (cases a)
    with Inr "2.prems" have "utf8_scan (pos + n) (drop (n - 1) bs) = Inl e"
      by (simp add: rbind_eq_Inl_iff)
    with 2 Inr a utf8_char_Inr [of b bs c n] show ?thesis by auto
  qed
qed simp

lemma utf8_scan_length: "utf8_scan pos bs = Inr cs \<Longrightarrow> length cs \<le> length bs"
proof (induction pos bs arbitrary: cs rule: utf8_scan.induct)
  case (2 pos b bs)
  then obtain c n ds where c: "utf8_char b bs = Inr (c, n)"
    "utf8_scan (pos + n) (drop (n - 1) bs) = Inr ds" "cs = c # ds"
    by (auto simp: rbind_eq_Inr_iff split: sum.split_asm)
  with "2.IH" [OF c(1) refl c(2)] show ?case by simp
qed simp

lemma utf8_decode_length: "utf8_decode p = Inr doc \<Longrightarrow> length doc \<le> length p"
  using utf8_scan_length by (fastforce simp: utf8_decode_def)

lemma dec_nat_short: "n < 10 ^ 20 \<Longrightarrow> length (dec_nat n) \<le> 20"
  by (rule length_dec_nat) simp_all

lemma utf8_error_text_short:
  assumes "utf8_decode p = Inl e" "length p \<le> MAX_PAYLOAD"
  shows "length (utf8_error_text e) \<le> 200 \<and> list_all (\<lambda>c. c < 128) (utf8_error_text e)"
proof -
  from assms utf8_scan_Inl [of 0 "map unat p" e] have e: "length (u_reason e) \<le> 30"
    "list_all (\<lambda>c. c < 128) (u_reason e)" "u_start e < 10 ^ 20" "u_end e < 10 ^ 20"
    by (auto simp: utf8_decode_def MAX_PAYLOAD_def)
  from e(4) have "length (dec_nat (u_end e - 1)) \<le> 20" by (intro dec_nat_short) simp
  with e dec_nat_short [OF e(3)] show ?thesis
    by (auto simp: utf8_error_text_def simp del: hex_fixed.simps) (simp_all add: ascii_def)
qed

lemma json_error_text_short:
  assumes "scan_error_ok (JErr msg left)" "length doc \<le> MAX_PAYLOAD"
  shows "length (json_error_text doc msg left) \<le> 300
    \<and> list_all (\<lambda>c. c < 128) (json_error_text doc msg left)"
proof -
  let ?upto = "take (length doc - left) doc"
  define line where "line = length (filter (\<lambda>c. c = 10) ?upto) + 1"
  define col where "col = length (takeWhile (\<lambda>c. c \<noteq> 10) (rev ?upto)) + 1"
  have small: "length (dec_nat n) \<le> 20" if "n \<le> length doc + 1" for n
    using that assms(2) by (intro dec_nat_short) (simp add: MAX_PAYLOAD_def)
  have "line \<le> length doc + 1" "col \<le> length doc + 1"
    using length_filter_le [of "\<lambda>c. c = 10" ?upto]
      length_takeWhile_le [of "\<lambda>c. c \<noteq> 10" "rev ?upto"] by (simp_all add: line_def col_def)
  then have "length (dec_nat line) \<le> 20" "length (dec_nat col) \<le> 20"
    "length (dec_nat (length doc - left)) \<le> 20"
    by (simp_all add: small)
  moreover have "json_error_text doc msg left = msg @ ascii '': line '' @ dec_nat line
      @ ascii '' column '' @ dec_nat col @ ascii '' (char '' @ dec_nat (length doc - left) @ ascii '')''"
    by (simp add: json_error_text_def line_def col_def Let_def)
  ultimately show ?thesis
    using assms(1) by simp (simp add: ascii_def)
qed

lemma load_obj_text:
  assumes "load_obj env p = Inl (ProtocolError c m)" "length p \<le> MAX_PAYLOAD"
  shows "wire_text m"
proof -
  have "wire_text (ascii ''malformed json payload: '' @ t)"
    if "length t \<le> 300 \<and> list_all (\<lambda>c. c < 128) t" for t
    using that by (simp add: wire_text_def) (simp add: ascii_def)
  moreover have "wire_text (ascii ''control payload must be an object'')"
    by (simp add: wire_text_def ascii_def)
  moreover have "length (json_error_text doc msg left) \<le> 300
      \<and> list_all (\<lambda>c. c < 128) (json_error_text doc msg left)"
    if "utf8_decode p = Inr doc" "json_loads (json_depth env) doc = Inl (JErr msg left)" for doc msg left
    using that assms(2) json_loads_error [OF that(2)] utf8_decode_length [OF that(1)]
    by (intro json_error_text_short) simp_all
  moreover have "length (utf8_error_text e) \<le> 300 \<and> list_all (\<lambda>c. c < 128) (utf8_error_text e)"
    if "utf8_decode p = Inl e" for e
    using utf8_error_text_short [OF that assms(2)] by simp
  ultimately show ?thesis using assms(1)
    by (auto simp: load_obj_def split: sum.split_asm json_error.split_asm json.split_asm)
qed

lemma rbind_load_text:
  assumes "rbind (load_obj env p) f = Inl (ProtocolError c m)" "length p \<le> MAX_PAYLOAD"
    "\<And>obj. f obj = Inl (ProtocolError c m) \<Longrightarrow> wire_text m"
  shows "wire_text m"
  using assms load_obj_text by (auto simp: rbind_eq_Inl_iff)

lemma decode_hello_text:
  "decode_hello env p = Inl (ProtocolError c m) \<Longrightarrow> length p \<le> MAX_PAYLOAD \<Longrightarrow> wire_text m"
  unfolding decode_hello_def
  by (erule rbind_load_text)
    (auto simp: wire_text_def ascii_def split: option.split_asm json.split_asm)

lemma decode_error_text:
  "decode_error env p = Inl (ProtocolError c m) \<Longrightarrow> length p \<le> MAX_PAYLOAD \<Longrightarrow> wire_text m"
  unfolding decode_error_def
  by (erule rbind_load_text) (auto simp: wire_text_def ascii_def Let_def split: option.split_asm)

section \<open>The size of what the encoders write\<close>

lemma length_dump_string: "length (dump_string s) \<le> 6 * length s + 2"
  by (induction s) (auto simp: dump_string_def escape_char_def simp del: hex_fixed.simps)

lemma encode_error_fits:
  assumes "wire_text m"
  shows "\<exists>p. encode_error c m = Inr p \<and> length p \<le> 20000"
proof -
  let ?ms = "[(ascii ''code'', FInt (code_val c)), (ascii ''message'', FStr m)]"
  from assms have "list_all scalar m" by (auto simp: wire_text_def list_all_iff scalar_def)
  then obtain p where p: "dump_obj ?ms = Inr p" using dump_obj_ok [of ?ms] by auto
  then have "utf8_encode (json_dumps ?ms) = Inr p" by (simp add: dump_obj_def split: if_splits)
  then have "length p \<le> 4 * length (json_dumps ?ms)" by (rule utf8_encode_length)
  moreover have "length (dec_int (code_val c)) \<le> 20"
    using code_val_bounds [of c] dec_nat_short [of "nat (code_val c)"]
    by (simp add: dec_int_def nat_less_iff)
  ultimately have "length p \<le> 20000"
    using length_dump_string [of m] length_dump_string [of "ascii ''code''"]
      length_dump_string [of "ascii ''message''"] assms
    by (simp add: json_dumps_def dump_member_def wire_text_def)
  with p show ?thesis by (simp add: encode_error_def)
qed

lemma encode_ack_fits:
  assumes "\<bar>v\<bar> < 10 ^ 20"
  shows "\<exists>p. encode_ack v = Inr p \<and> length p \<le> 20000"
proof -
  let ?ms = "[(ascii ''ack_seq'', FInt v)]"
  obtain p where p: "dump_obj ?ms = Inr p"
    using dump_obj_ok [of ?ms] field_ok_small [OF assms] by auto
  then have "utf8_encode (json_dumps ?ms) = Inr p" by (simp add: dump_obj_def split: if_splits)
  then have "length p \<le> 4 * length (json_dumps ?ms)" by (rule utf8_encode_length)
  moreover have "length (dec_int v) \<le> 21"
    using assms dec_nat_short [of "nat \<bar>v\<bar>"] by (auto simp: dec_int_def nat_less_iff)
  ultimately have "length p \<le> 20000"
    using length_dump_string [of "ascii ''ack_seq''"] by (simp add: json_dumps_def dump_member_def)
  with p show ?thesis by (simp add: encode_ack_def)
qed

lemma encode_hello_ack_fits:
  assumes "list_all (\<lambda>c. c < 128) sid" "length sid \<le> 100" "length (rng NONCE_BYTES) = NONCE_BYTES"
  shows "\<exists>p. encode_hello_ack rng sid None = Inr p \<and> length p \<le> 20000"
proof -
  let ?n = "nonce_or_new rng None"
  let ?ms = "[(ascii ''session_id'', FStr sid), (ascii ''nonce'', FStr ?n)]"
  have "list_all scalar sid" using assms(1) by (auto simp: list_all_iff scalar_def)
  then obtain p where p: "dump_obj ?ms = Inr p" using dump_obj_ok [of ?ms] nonce_scalar by auto
  then have "utf8_encode (json_dumps ?ms) = Inr p" by (simp add: dump_obj_def split: if_splits)
  then have "length p \<le> 4 * length (json_dumps ?ms)" by (rule utf8_encode_length)
  moreover have "length ?n = 32" using assms(3) by (simp add: nonce_or_new_def new_nonce_def NONCE_BYTES_def)
  ultimately have "length p \<le> 20000"
    using length_dump_string [of sid] length_dump_string [of "ascii ''session_id''"] assms(2)
      length_dump_string [of "ascii ''nonce''"] length_dump_string [of ?n]
    by (simp add: json_dumps_def dump_member_def)
  with p show ?thesis by (simp add: encode_hello_ack_def)
qed

lemma encode_hello_fits:
  assumes "list_all (\<lambda>c. c < 128) cid" "length cid \<le> 100" "length (rng NONCE_BYTES) = NONCE_BYTES"
  shows "\<exists>p. encode_hello rng cid None = Inr p \<and> length p \<le> 20000"
proof -
  let ?n = "nonce_or_new rng None"
  let ?ms = "[(ascii ''client_id'', FStr cid), (ascii ''nonce'', FStr ?n)]"
  have "list_all scalar cid" using assms(1) by (auto simp: list_all_iff scalar_def)
  then obtain p where p: "dump_obj ?ms = Inr p" using dump_obj_ok [of ?ms] nonce_scalar by auto
  then have "utf8_encode (json_dumps ?ms) = Inr p" by (simp add: dump_obj_def split: if_splits)
  then have "length p \<le> 4 * length (json_dumps ?ms)" by (rule utf8_encode_length)
  moreover have "length ?n = 32" using assms(3) by (simp add: nonce_or_new_def new_nonce_def NONCE_BYTES_def)
  ultimately have "length p \<le> 20000"
    using length_dump_string [of cid] length_dump_string [of "ascii ''client_id''"] assms(2)
      length_dump_string [of "ascii ''nonce''"] length_dump_string [of ?n]
    by (simp add: json_dumps_def dump_member_def)
  with p show ?thesis by (simp add: encode_hello_def)
qed

section \<open>An integer literal that is too long\<close>

text \<open>The object with one member: an empty name and an integer of \<open>n\<close> digits.\<close>

definition long_int_doc :: "nat \<Rightarrow> ustr" where
  "long_int_doc n = [123, 34, 34, 58] @ replicate n 49 @ [125]"

lemma scan_open_long_int:
  assumes "INT_MAX_STR_DIGITS < n"
  shows "scan_open (replicate n 49 @ [125]) = Inl JValue"
proof -
  obtain m where n: "n = Suc m" using assms by (cases n) simp_all
  have "takeWhile is_digit (replicate m 49 @ [125]) = replicate m 49"
    by (simp add: takeWhile_append is_digit_def)
  then have "scan_number (replicate n 49 @ [125]) = Inl JValue"
    using assms by (simp add: n scan_number_def is_digit_def split_fraction_def split_exponent_def)
  then show ?thesis by (simp add: n scan_open_def ascii_def)
qed

lemma load_long_int:
  assumes "INT_MAX_STR_DIGITS < n" "0 < json_depth env"
  shows "load_obj env (map word_of_nat (long_int_doc n)) = Inl ValueError"
proof -
  let ?doc = "long_int_doc n"
  obtain m where n: "n = Suc m" using assms by (cases n) simp_all
  have "utf8_encode ?doc = Inr (map word_of_nat ?doc)"
    by (rule utf8_encode_ascii) (simp add: long_int_doc_def list_all_iff)
  then have dec: "utf8_decode (map word_of_nat ?doc) = Inr ?doc" by (rule utf8_roundtrip)
  obtain k where k: "2 * length ?doc + 2 = Suc (Suc (Suc k))" by (simp add: long_int_doc_def)
  have "skip_ws (replicate n 49 @ [125]) = replicate n 49 @ [125]" by (simp add: n is_ws_def)
  then have name: "scan_name (34 # 34 # 58 # replicate n 49 @ [125]) = Inr ([], replicate n 49 @ [125])"
    by (simp add: scan_name_def starts_with_def is_ws_def)
  have start: "scan_open ?doc = Inr (Open_Obj (34 # 34 # 58 # replicate n 49 @ [125]))"
    by (simp add: long_int_doc_def scan_open_def is_ws_def)
  have "scan_value (Suc k) d (replicate n 49 @ [125]) = Inl JValue" for d
    by (simp add: scan_open_long_int [OF assms(1)] del: replicate.simps)
  then have "scan_members (Suc (Suc k)) d acc (34 # 34 # 58 # replicate n 49 @ [125]) = Inl JValue"
    for d acc by (simp only: scan_members.simps name rbind_Inr prod.case rbind_Inl)
  then have "scan_value (Suc (Suc (Suc k))) (json_depth env) ?doc = Inl JValue"
    using assms(2)
    by (simp add: start starts_with_def del: scan_members.simps scan_elements.simps)
  then have "scan_value (2 * length ?doc + 2) (json_depth env) ?doc = Inl JValue" by (simp only: k)
  moreover have "skip_ws ?doc = ?doc" "hd ?doc = 123" by (simp_all add: long_int_doc_def is_ws_def)
  ultimately have "json_loads (json_depth env) ?doc = Inl JValue"
    by (simp add: json_loads_def del: scan_value.simps add_2_eq_Suc')
  then show ?thesis by (simp add: load_obj_def dec)
qed

section \<open>Properties\<close>

text \<open>The interpreter the witnesses run under.\<close>

definition py_env0 :: py_env where
  "py_env0 = \<lparr>json_depth = 1000, float_repr = id, printable = (\<lambda>_. True)\<rparr>"

text \<open>
  C5. Every kind of control message survives the wire: for text without surrogates, and integers
  within the interpreter's digit limit, encoding succeeds and decoding gives back what was sent;
  an absent or empty nonce is replaced by fresh random hex digits.
\<close>

theorem control_roundtrip:
  assumes "0 < json_depth env" "list_all scalar s" "list_all scalar (nonce_or_new rng n)"
    "field_ok (FInt v)"
  shows "rbind (encode_hello rng s n) (decode_hello env) = Inr (s, nonce_or_new rng n)
    \<and> rbind (encode_hello_ack rng s n) (decode_hello_ack env) = Inr (s, nonce_or_new rng n)
    \<and> rbind (encode_error c s) (decode_error env) = Inr (c, s)
    \<and> rbind (encode_ack v) (decode_ack env) = Inr v"
  using hello.dec_enc [where x = "(s, n)" and env = env and rng = rng]
    hello_ack.dec_enc [where x = "(s, n)" and env = env and rng = rng]
    error_msg.dec_enc [where x = "(c, s)" and env = env] ack_msg.dec_enc [where x = v and env = env]
    assms
  by auto

theorem control_roundtrip_witness:
  "rbind (encode_hello (\<lambda>k. replicate k 7) [233, 34] None) (decode_hello py_env0) =
     Inr ([233, 34], nonce_or_new (\<lambda>k. replicate k 7) None)"
  using control_roundtrip [of py_env0 "[233, 34]" "\<lambda>k. replicate k 7" None 5] nonce_scalar(2)
    field_ok_small [of 5]
  by (simp add: py_env0_def scalar_def)

text \<open>
  An ERROR payload comes from the peer. If it is an object with an integer code, decoding it
  succeeds: a code of the table is returned with its value, any other becomes \<open>ERR_INTERNAL\<close> with
  the number kept in the message.
\<close>

theorem decode_error_any_code:
  assumes "load_obj env p = Inr obj" "map_of obj (ascii ''code'') = Some (JInt v)"
  shows "\<exists>c m. decode_error env p = Inr (c, m) \<and>
    (if v \<in> set (map code_val error_codes) then code_val c = v
     else c = ERR_INTERNAL \<and>
       take (length (ascii ''unknown error code '' @ dec_int v)) m =
         ascii ''unknown error code '' @ dec_int v)"
proof -
  have "code_of_val v = None \<longleftrightarrow> v \<notin> set (map code_val error_codes)"
    by (auto simp: code_of_val_def find_None_iff image_iff)
  with assms show ?thesis
    by (cases "code_of_val v")
      (auto simp: decode_error_def as_int_def py_str_def Let_def dest: code_of_val_Some)
qed

theorem decode_error_any_code_witness:
  "\<exists>c m. decode_error py_env0 (map word_of_nat (ascii ''{'' @ 34 # ascii ''code'' @ 34 # ascii '':42}''))
     = Inr (c, m) \<and> c = ERR_INTERNAL"
proof -
  let ?doc = "ascii ''{'' @ 34 # ascii ''code'' @ 34 # ascii '':42}''"
  have "dec_nat 42 = ascii ''42''" by (simp add: dec_nat.simps ascii_def)
  then have doc: "json_dumps [(ascii ''code'', FInt 42)] = ?doc"
    by (simp add: json_dumps_def dump_member_def dump_string_def dec_int_def escape_char_def ascii_def)
  have "utf8_encode ?doc = Inr (map word_of_nat ?doc)"
    by (rule utf8_encode_ascii) (simp add: ascii_def)
  then have "dump_obj [(ascii ''code'', FInt 42)] = Inr (map word_of_nat ?doc)"
    using field_ok_small [of 42] by (simp add: dump_obj_def doc)
  from load_dump_obj [OF this, of py_env0]
  have load: "load_obj py_env0 (map word_of_nat ?doc) = Inr [(ascii ''code'', JInt 42)]"
    by (simp add: py_env0_def)
  have code: "map_of [(ascii ''code'', JInt 42)] (ascii ''code'') = Some (JInt 42)" by simp
  have "(42 :: int) \<notin> set (map code_val error_codes)" by (simp add: error_codes_def)
  then show ?thesis
    using decode_error_any_code [OF load code] by auto
qed

end
