(* ===== verification/Sequence.thy ===== *)
theory Sequence
  imports Codec
begin

text \<open>
  Sequence numbers: the session, the TCP client and the UDP client each number their frames
  with a counter that is masked to 32 bits. The locale \<open>sequence\<close> states what the three have
  in common and what follows for the numbers drawn one after another.
\<close>

fun draws :: "('s \<Rightarrow> int \<times> 's) \<Rightarrow> nat \<Rightarrow> 's \<Rightarrow> int list" where
  "draws next_seq 0 s = []"
| "draws next_seq (Suc n) s = fst (next_seq s) # draws next_seq n (snd (next_seq s))"

lemma and_MAX_SEQ: "v AND MAX_SEQ = v mod 2 ^ 32"
proof -
  have "MAX_SEQ = mask 32" by (simp add: MAX_SEQ_def mask_eq_exp_minus_1)
  then have "v AND MAX_SEQ = take_bit 32 v" by (simp only: take_bit_eq_mask)
  then show ?thesis by (simp only: take_bit_eq_mod)
qed

locale sequence =
  fixes next_seq :: "'s \<Rightarrow> int \<times> 's" and counter :: "'s \<Rightarrow> int"
  assumes next_fst: "fst (next_seq s) = counter s"
    and next_snd: "counter (snd (next_seq s)) = (counter s + 1) AND MAX_SEQ"
begin

lemma counter_bounds: "0 \<le> counter (snd (next_seq s)) \<and> counter (snd (next_seq s)) \<le> MAX_SEQ"
  by (simp add: next_snd and_MAX_SEQ) (simp add: MAX_SEQ_def)

lemma draws_nth:
  "0 \<le> counter s \<Longrightarrow> counter s \<le> MAX_SEQ \<Longrightarrow> i < n
     \<Longrightarrow> draws next_seq n s ! i = (counter s + int i) mod 2 ^ 32"
proof (induction n arbitrary: s i)
  case 0
  then show ?case by simp
next
  case (Suc n)
  show ?case
  proof (cases i)
    case 0
    with Suc.prems show ?thesis by (simp add: next_fst MAX_SEQ_def)
  next
    case (Suc j)
    with Suc.prems Suc.IH [of "snd (next_seq s)" j] counter_bounds [of s]
    show ?thesis by (simp add: next_snd and_MAX_SEQ mod_add_left_eq add.assoc)
  qed
qed

lemma length_draws [simp]: "length (draws next_seq n s) = n"
  by (induction n arbitrary: s) simp_all

text \<open>The numbers increase until the counter wraps.\<close>

lemma draws_increasing:
  assumes "0 \<le> counter s" "counter s + int n \<le> 2 ^ 32"
  shows "sorted_wrt (<) (draws next_seq n s)"
proof (cases n)
  case (Suc m)
  with assms have "counter s \<le> MAX_SEQ" by (simp add: MAX_SEQ_def)
  then have "draws next_seq n s ! i = counter s + int i" if "i < n" for i
    using draws_nth [of s i n] that assms by simp
  then show ?thesis by (simp add: sorted_wrt_iff_nth_less)
qed simp

text \<open>The number after \<open>MAX_SEQ\<close> is 0, which a receiver that requires increase refuses.\<close>

lemma draws_wrap:
  assumes "counter s = MAX_SEQ"
  shows "draws next_seq 2 s = [MAX_SEQ, 0]"
  using assms by (simp add: numeral_2_eq_2 next_fst next_snd and_MAX_SEQ) (simp add: MAX_SEQ_def)

end

end
