(* ===== verification/Session.thy ===== *)
theory Session
  imports Messages_Facts Sequence
begin

text \<open>
  \<^verbatim>\<open>src/wireline/session.py\<close>: the server's side of one connection, as a state machine without
  I/O. Methods that change the session return their result together with the changed session,
  also when they raise: the assignments made before the exception stay. The random bytes of the
  HELLO_ACK nonce are the argument \<open>rng\<close>.
\<close>

section \<open>Session state\<close>

datatype state = NEW | HANDSHAKE | READY | CLOSING | CLOSED

fun state_name :: "state \<Rightarrow> ustr" where
  "state_name NEW = ascii ''NEW''"
| "state_name HANDSHAKE = ascii ''HANDSHAKE''"
| "state_name READY = ascii ''READY''"
| "state_name CLOSING = ascii ''CLOSING''"
| "state_name CLOSED = ascii ''CLOSED''"

record reaction =
  ra_frames :: "frame list"
  ra_close :: bool
  ra_reason :: "ustr option"

record server_session =
  ss_id :: ustr
  ss_state :: state
  ss_client_id :: "ustr option"
  ss_peer_nonce :: "ustr option"
  ss_out_seq :: int
  ss_last_peer_seq :: int

text \<open>\<^verbatim>\<open>uuid.uuid4().hex\<close> of 16 random bytes: six bits are fixed by the version and the variant.\<close>

definition uuid4_hex :: "bytes \<Rightarrow> ustr" where
  "uuid4_hex r = hex_bytes (r[6 := (r ! 6 AND 0x0F) OR 0x40, 8 := (r ! 8 AND 0x3F) OR 0x80])"

definition new_session :: "(nat \<Rightarrow> bytes) \<Rightarrow> server_session" where
  "new_session rng =
     \<lparr>ss_id = take 12 (uuid4_hex (rng 16)), ss_state = NEW, ss_client_id = None,
      ss_peer_nonce = None, ss_out_seq = 0, ss_last_peer_seq = -1\<rparr>"

section \<open>Outbound helpers\<close>

definition ss_next_seq :: "server_session \<Rightarrow> int \<times> server_session" where
  "ss_next_seq ss = (ss_out_seq ss, ss\<lparr>ss_out_seq := (ss_out_seq ss + 1) AND MAX_SEQ\<rparr>)"

definition ss_frame :: "msg_type \<Rightarrow> bytes \<Rightarrow> int \<Rightarrow> server_session \<Rightarrow> frame \<times> server_session" where
  "ss_frame t payload flags ss =
     (case ss_next_seq ss of (seq, ss') \<Rightarrow> (mk_frame t seq payload flags, ss'))"

definition ss_error :: "error_code \<Rightarrow> ustr \<Rightarrow> server_session \<Rightarrow> reaction res \<times> server_session" where
  "ss_error code message ss =
     (let ss1 = ss\<lparr>ss_state := CLOSED\<rparr>
      in case encode_error code message of
           Inl e \<Rightarrow> (Inl e, ss1)
         | Inr payload \<Rightarrow>
             (case ss_frame ERROR payload 0 ss1 of (f, ss2) \<Rightarrow>
                (Inr \<lparr>ra_frames = [f], ra_close = True, ra_reason = Some (error_text code message)\<rparr>, ss2)))"

definition ss_ack :: "int \<Rightarrow> server_session \<Rightarrow> frame res \<times> server_session" where
  "ss_ack peer_seq ss =
     (case encode_ack peer_seq of
        Inl e \<Rightarrow> (Inl e, ss)
      | Inr payload \<Rightarrow> (case ss_frame ACK payload 0 ss of (f, ss') \<Rightarrow> (Inr f, ss')))"

section \<open>Dispatch\<close>

definition on_hello ::
  "py_env \<Rightarrow> (nat \<Rightarrow> bytes) \<Rightarrow> frame \<Rightarrow> server_session \<Rightarrow> reaction res \<times> server_session" where
  "on_hello env rng f ss =
     (case decode_hello env (f_payload f) of
        Inl e \<Rightarrow> (Inl e, ss)
      | Inr (client_id, nonce) \<Rightarrow>
          let ss1 = ss\<lparr>ss_client_id := Some client_id, ss_peer_nonce := Some nonce, ss_state := READY\<rparr>
          in case encode_hello_ack rng (ss_id ss1) None of
               Inl e \<Rightarrow> (Inl e, ss1)
             | Inr payload \<Rightarrow>
                 (case ss_frame HELLO_ACK payload 0 ss1 of (g, ss2) \<Rightarrow>
                    (Inr \<lparr>ra_frames = [g], ra_close = False, ra_reason = None\<rparr>, ss2)))"

definition on_data :: "frame \<Rightarrow> server_session \<Rightarrow> reaction res \<times> server_session" where
  "on_data f ss =
     (case ss_frame DATA (f_payload f) 0 ss of (g, ss') \<Rightarrow>
        (Inr \<lparr>ra_frames = [g], ra_close = False, ra_reason = None\<rparr>, ss'))"

definition dispatch ::
  "py_env \<Rightarrow> (nat \<Rightarrow> bytes) \<Rightarrow> frame \<Rightarrow> server_session \<Rightarrow> reaction res \<times> server_session" where
  "dispatch env rng f ss =
     (if ss_state ss = NEW then
        (if f_type f \<noteq> HELLO then
           (Inl (ProtocolError ERR_STATE
              (msg_name (f_type f) @ ascii '' is not allowed before the handshake'')), ss)
         else on_hello env rng f ss)
      else
        case f_type f of
          HELLO \<Rightarrow> (Inl (ProtocolError ERR_STATE (ascii ''handshake already completed'')), ss)
        | HELLO_ACK \<Rightarrow> (Inl (ProtocolError ERR_STATE (ascii ''hello_ack is server to client'')), ss)
        | PING \<Rightarrow>
            (case ss_frame PONG (f_payload f) 0 ss of (g, ss') \<Rightarrow>
               (Inr \<lparr>ra_frames = [g], ra_close = False, ra_reason = None\<rparr>, ss'))
        | PONG \<Rightarrow> (Inr \<lparr>ra_frames = [], ra_close = False, ra_reason = None\<rparr>, ss)
        | DATA \<Rightarrow> on_data f ss
        | ACK \<Rightarrow> (Inr \<lparr>ra_frames = [], ra_close = False, ra_reason = None\<rparr>, ss)
        | BYE \<Rightarrow>
            (case ss_frame BYE [] 0 (ss\<lparr>ss_state := CLOSED\<rparr>) of (g, ss') \<Rightarrow>
               (Inr \<lparr>ra_frames = [g], ra_close = True, ra_reason = Some (ascii ''peer said bye'')\<rparr>, ss'))
        | ERROR \<Rightarrow>
            (case decode_error env (f_payload f) of
               Inl e \<Rightarrow> (Inl e, ss)
             | Inr (code, message) \<Rightarrow>
                 (Inr \<lparr>ra_frames = [], ra_close = True,
                       ra_reason = Some (ascii ''peer reported '' @ code_name code @ ascii '': '' @ message)\<rparr>,
                  ss\<lparr>ss_state := CLOSED\<rparr>)))"

section \<open>Events\<close>

definition on_frame ::
  "py_env \<Rightarrow> (nat \<Rightarrow> bytes) \<Rightarrow> frame \<Rightarrow> server_session \<Rightarrow> reaction res \<times> server_session" where
  "on_frame env rng f ss =
     (if ss_state ss = CLOSING \<or> ss_state ss = CLOSED then
        (Inr \<lparr>ra_frames = [], ra_close = True, ra_reason = Some (ascii ''frame after close'')\<rparr>, ss)
      else if f_seq f \<le> ss_last_peer_seq ss then
        ss_error ERR_SEQ
          (ascii ''seq '' @ dec_int (f_seq f) @ ascii '' not greater than last accepted ''
             @ dec_int (ss_last_peer_seq ss)) ss
      else
        case dispatch env rng f (ss\<lparr>ss_last_peer_seq := f_seq f\<rparr>) of
          (Inl (ProtocolError code message), ss') \<Rightarrow> ss_error code message ss'
        | (r, ss') \<Rightarrow> (r, ss'))"

definition on_protocol_error :: "error_code \<Rightarrow> ustr \<Rightarrow> server_session \<Rightarrow> reaction res \<times> server_session" where
  "on_protocol_error code message ss = ss_error code message ss"

definition on_idle_timeout :: "server_session \<Rightarrow> reaction \<times> server_session" where
  "on_idle_timeout ss =
     (\<lparr>ra_frames = [], ra_close = True, ra_reason = Some (ascii ''idle timeout'')\<rparr>,
      ss\<lparr>ss_state := CLOSED\<rparr>)"

end
