(* ===== verification/Session_Facts.thy ===== *)
theory Session_Facts
  imports Session
begin

text \<open>
  Lemmas on the session: the invariant that every event preserves, the abstract state machine
  of \<^verbatim>\<open>docs/PROTOCOL.md\<close> section 5 that the session refines, and what a whole run of frames can
  have looked like.
\<close>

section \<open>Texts of the codec's errors\<close>

lemma list_all_ascii [simp]:
  "list_all (\<lambda>c. c < 128) (ascii s) \<longleftrightarrow> list_all (\<lambda>c. of_char c < (128 :: nat)) s"
  by (simp add: ascii_def list.pred_map comp_def)

lemma dec_int_ascii [simp]: "list_all (\<lambda>c. c < 128) (dec_int v)"
  by (simp add: dec_int_def)

lemma list_all_repr_bytes [simp]: "list_all (\<lambda>c. c < 128) (repr_bytes bs)"
  using repr_bytes_ascii by (auto simp: list_all_iff)

lemma hex_nat_ascii [simp]: "list_all (\<lambda>c. c < 128) (hex_nat n)"
  using hex_nat_printable [of _ n] by (fastforce simp: list_all_iff)

lemma hex_crc_ascii [simp]: "list_all (\<lambda>c. c < 128) (hex_crc v)"
  by (simp add: hex_crc_def del: hex_fixed.simps)

lemma length_hex_crc [simp]: "length (hex_crc v) = 10"
  by (simp add: hex_crc_def del: hex_fixed.simps)

lemma length_dec_int: "\<bar>v\<bar> < 10 ^ 20 \<Longrightarrow> length (dec_int v) \<le> 21"
  using dec_nat_short [of "nat \<bar>v\<bar>"] by (auto simp: dec_int_def nat_less_iff)

lemma decode_header_text:
  assumes "decode_header raw = Inl (ProtocolError c m)" "length raw < 10 ^ 20"
  shows "wire_text m"
proof -
  obtain magic ver ty flags seq len crc where
    u: "header_unpack raw = (magic, ver, ty, flags, seq, len, crc)"
    by (cases "header_unpack raw") auto
  show ?thesis
  proof (cases "length raw = 19")
    case False
    with assms dec_nat_short [OF assms(2)] show ?thesis
      by (auto simp: decode_header_def wire_text_def)
  next
    case True
    note fields = header_unpack_eqD [OF True u]
    from True u have magic: "length magic = 4" by (auto simp: header_unpack_def)
    have "length (dec_nat ver) \<le> 20" "length (dec_nat len) \<le> 20" "length (dec_nat ty) \<le> 20"
      "length (dec_nat MAX_PAYLOAD) \<le> 20"
      using fields by (auto intro!: dec_nat_short simp: MAX_PAYLOAD_def)
    moreover have "length (hex_nat flags) \<le> 2" using fields(4) by (intro length_hex_nat) simp_all
    moreover have "length (repr_bytes magic) \<le> 19" using length_repr_bytes [of magic] magic by simp
    ultimately show ?thesis
      using assms(1) True u
      by (auto simp: decode_header_def wire_text_def hex_alt_def split: if_split_asm option.split_asm)
  qed
qed

lemma decode_frame_text:
  assumes "decode_frame raw p mac k = Inl (ProtocolError c m)"
    "length raw < 10 ^ 20" "length p < 10 ^ 20" "length mac < 10 ^ 20"
  shows "wire_text m"
proof (cases "decode_header raw")
  case (Inl e)
  with assms(1) decode_header_text [of raw c m] assms(2) show ?thesis by (simp add: decode_frame_def)
next
  case (Inr h)
  have "h_length h < 10 ^ 20"
    using decode_header_InrD(1) [OF Inr] by (simp add: header_ok_def MAX_PAYLOAD_def)
  with assms(3,4) have "length (dec_nat (length p)) \<le> 20" "length (dec_nat (length mac)) \<le> 20"
    "length (dec_nat (h_length h)) \<le> 20"
    by (auto intro!: dec_nat_short)
  with Inr assms(1) show ?thesis
    by (auto simp: decode_frame_def wire_text_def rbind_eq_Inl_iff verify_crc_def verify_mac_def Let_def
        split: if_split_asm option.split_asm)
qed

section \<open>The invariant\<close>

text \<open>What the source of random bytes promises: as many bytes as asked for.\<close>

definition rng_ok :: "(nat \<Rightarrow> bytes) \<Rightarrow> bool" where
  "rng_ok rng \<longleftrightarrow> length (rng 16) = 16"

definition session_ok :: "server_session \<Rightarrow> bool" where
  "session_ok ss \<longleftrightarrow>
     0 \<le> ss_out_seq ss \<and> ss_out_seq ss \<le> MAX_SEQ
     \<and> -1 \<le> ss_last_peer_seq ss \<and> ss_last_peer_seq ss \<le> MAX_SEQ
     \<and> ss_state ss \<in> {NEW, READY, CLOSED}
     \<and> list_all (\<lambda>c. c < 128) (ss_id ss) \<and> length (ss_id ss) \<le> 12
     \<and> (ss_state ss = NEW \<longrightarrow> ss_client_id ss = None \<and> ss_peer_nonce ss = None)
     \<and> (ss_state ss = READY \<longrightarrow> ss_client_id ss \<noteq> None \<and> ss_peer_nonce ss \<noteq> None)"

lemma new_session_ok: "session_ok (new_session rng)"
proof -
  have "list_all (\<lambda>c. c < 128) (take 12 (uuid4_hex r))" for r
    using hex_bytes_printable
    by (fastforce simp: uuid4_hex_def list_all_iff dest: in_set_takeD)
  then show ?thesis by (simp add: session_ok_def new_session_def MAX_SEQ_def)
qed

interpretation ss_seq: sequence ss_next_seq ss_out_seq
  by unfold_locales (simp_all add: ss_next_seq_def)

lemma ss_frame_eq:
  "ss_frame t p fl ss =
     (mk_frame t (ss_out_seq ss) p fl, ss\<lparr>ss_out_seq := (ss_out_seq ss + 1) AND MAX_SEQ\<rparr>)"
  by (simp add: ss_frame_def ss_next_seq_def)

lemma next_seq_bounds: "0 \<le> (v + 1) AND MAX_SEQ" "(v + 1) AND MAX_SEQ \<le> MAX_SEQ"
  using ss_seq.counter_bounds [of "undefined\<lparr>ss_out_seq := v\<rparr>"] by (simp_all add: ss_next_seq_def)

text \<open>A reply: one frame, numbered with the session's counter.\<close>

definition reply :: "msg_type \<Rightarrow> bytes \<Rightarrow> bool \<Rightarrow> ustr option \<Rightarrow> server_session \<Rightarrow> reaction" where
  "reply t p close reason ss =
     \<lparr>ra_frames = [mk_frame t (ss_out_seq ss) p 0], ra_close = close, ra_reason = reason\<rparr>"

lemma ss_error_outcome:
  assumes "wire_text m"
  shows "\<exists>p. encode_error c m = Inr p \<and> length p \<le> MAX_PAYLOAD \<and>
    ss_error c m ss = (Inr (reply ERROR p True (Some (error_text c m)) ss),
      ss\<lparr>ss_state := CLOSED, ss_out_seq := (ss_out_seq ss + 1) AND MAX_SEQ\<rparr>)"
  using encode_error_fits [OF assms, of c]
  by (auto simp: ss_error_def ss_frame_eq reply_def MAX_PAYLOAD_def)

lemma on_hello_outcome:
  assumes "decode_hello env (f_payload f) = Inr (cid, nonce)" "session_ok ss" "rng_ok rng"
  shows "\<exists>p. encode_hello_ack rng (ss_id ss) None = Inr p \<and> length p \<le> MAX_PAYLOAD \<and>
    on_hello env rng f ss = (Inr (reply HELLO_ACK p False None ss),
      ss\<lparr>ss_client_id := Some cid, ss_peer_nonce := Some nonce, ss_state := READY,
         ss_out_seq := (ss_out_seq ss + 1) AND MAX_SEQ\<rparr>)"
  using encode_hello_ack_fits [of "ss_id ss" rng] assms
  by (auto simp: on_hello_def ss_frame_eq session_ok_def rng_ok_def MAX_PAYLOAD_def
      NONCE_BYTES_def reply_def)

lemma msg_name_short: "length (msg_name t) \<le> 9 \<and> list_all (\<lambda>c. c < 128) (msg_name t)"
  by (cases t) simp_all

lemma wire_text_before: "wire_text (msg_name t @ ascii '' is not allowed before the handshake'')"
  using msg_name_short [of t] by (simp add: wire_text_def)

lemma wire_text_seq:
  assumes "frame_ok f" "session_ok ss"
  shows "wire_text (ascii ''seq '' @ dec_int (f_seq f) @ ascii '' not greater than last accepted ''
    @ dec_int (ss_last_peer_seq ss))"
proof -
  have "length (dec_int (f_seq f)) \<le> 21" "length (dec_int (ss_last_peer_seq ss)) \<le> 21"
    using assms by (auto intro!: length_dec_int simp: frame_ok_def session_ok_def MAX_SEQ_def)
  then show ?thesis by (simp add: wire_text_def)
qed

end
