(* ===== verification/Session_Spec.thy ===== *)
theory Session_Spec
  imports Session_Facts
begin

text \<open>
  The state machine of \<^verbatim>\<open>docs/PROTOCOL.md\<close> section 5 as an abstract step relation, and the
  proof that the session of \<^verbatim>\<open>src/wireline/session.py\<close> refines it; then what follows for
  reachable sessions and for whole runs.
\<close>

section \<open>The abstract machine\<close>

datatype phase = P_New | P_Ready | P_Closed

datatype answer = Silent | Answer msg_type | Refuse error_code | Farewell | Hang_up | Crash

text \<open>
  A step takes the phase and the last accepted number, and a frame given by its type, its
  number and what decoding its control payload raises, if anything.
\<close>

inductive spec_step ::
  "phase \<times> int \<Rightarrow> msg_type \<times> int \<times> exn option \<Rightarrow> answer \<Rightarrow> phase \<times> int \<Rightarrow> bool"
where
  after_close: "spec_step (P_Closed, n) ev Hang_up (P_Closed, n)"
| stale: "p \<noteq> P_Closed \<Longrightarrow> s \<le> n \<Longrightarrow> spec_step (p, n) (t, s, x) (Refuse ERR_SEQ) (P_Closed, n)"
| early: "n < s \<Longrightarrow> t \<noteq> HELLO \<Longrightarrow> spec_step (P_New, n) (t, s, x) (Refuse ERR_STATE) (P_Closed, s)"
| hello: "n < s \<Longrightarrow> spec_step (P_New, n) (HELLO, s, None) (Answer HELLO_ACK) (P_Ready, s)"
| misplaced: "n < s \<Longrightarrow> t \<in> {HELLO, HELLO_ACK} \<Longrightarrow>
    spec_step (P_Ready, n) (t, s, x) (Refuse ERR_STATE) (P_Closed, s)"
| ping: "n < s \<Longrightarrow> spec_step (P_Ready, n) (PING, s, x) (Answer PONG) (P_Ready, s)"
| data: "n < s \<Longrightarrow> spec_step (P_Ready, n) (DATA, s, x) (Answer DATA) (P_Ready, s)"
| quiet: "n < s \<Longrightarrow> t \<in> {PONG, ACK} \<Longrightarrow> spec_step (P_Ready, n) (t, s, x) Silent (P_Ready, s)"
| bye: "n < s \<Longrightarrow> spec_step (P_Ready, n) (BYE, s, x) Farewell (P_Closed, s)"
| error: "n < s \<Longrightarrow> spec_step (P_Ready, n) (ERROR, s, None) Hang_up (P_Closed, s)"
| malformed: "n < s \<Longrightarrow> (p, t) \<in> {(P_New, HELLO), (P_Ready, ERROR)} \<Longrightarrow>
    spec_step (p, n) (t, s, Some (ProtocolError c m)) (Refuse c) (P_Closed, s)"
| crash: "n < s \<Longrightarrow> (p, t) \<in> {(P_New, HELLO), (P_Ready, ERROR)} \<Longrightarrow> \<not> is_protocol_error e \<Longrightarrow>
    spec_step (p, n) (t, s, Some e) Crash (p, s)"

inductive_cases spec_step_closedE: "spec_step (P_Closed, n) ev a st"
inductive_cases spec_step_newE: "spec_step (P_New, n) (t, s, x) a st"
inductive_cases spec_step_readyE: "spec_step (P_Ready, n) (t, s, x) a st"
inductive_simps spec_step_to_ready: "spec_step (P_Ready, n) (t, s, x) a (P_Ready, s')"
inductive_simps spec_step_from_new: "spec_step (P_New, n) (t, s, x) a (P_Ready, s')"

section \<open>The correspondence\<close>

fun phase_of :: "state \<Rightarrow> phase" where
  "phase_of NEW = P_New"
| "phase_of HANDSHAKE = P_Ready"
| "phase_of READY = P_Ready"
| "phase_of CLOSING = P_Closed"
| "phase_of CLOSED = P_Closed"

definition spec_state :: "server_session \<Rightarrow> phase \<times> int" where
  "spec_state ss = (phase_of (ss_state ss), ss_last_peer_seq ss)"

definition payload_exn :: "py_env \<Rightarrow> frame \<Rightarrow> exn option" where
  "payload_exn env f =
     (case f_type f of
        HELLO \<Rightarrow> (case decode_hello env (f_payload f) of Inl e \<Rightarrow> Some e | Inr _ \<Rightarrow> None)
      | ERROR \<Rightarrow> (case decode_error env (f_payload f) of Inl e \<Rightarrow> Some e | Inr _ \<Rightarrow> None)
      | _ \<Rightarrow> None)"

definition spec_event :: "py_env \<Rightarrow> frame \<Rightarrow> msg_type \<times> int \<times> exn option" where
  "spec_event env f = (f_type f, f_seq f, payload_exn env f)"

text \<open>Which results of the code carry out an abstract answer to a frame with the given payload.\<close>

fun meets :: "bytes \<Rightarrow> answer \<Rightarrow> reaction res \<Rightarrow> bool" where
  "meets p Silent r \<longleftrightarrow> r = Inr \<lparr>ra_frames = [], ra_close = False, ra_reason = None\<rparr>"
| "meets p (Answer t) r \<longleftrightarrow>
     (\<exists>g. r = Inr \<lparr>ra_frames = [g], ra_close = False, ra_reason = None\<rparr> \<and> f_type g = t
        \<and> (t = HELLO_ACK \<or> f_payload g = p))"
| "meets p (Refuse c) r \<longleftrightarrow>
     (\<exists>g m. r = Inr \<lparr>ra_frames = [g], ra_close = True, ra_reason = Some (error_text c m)\<rparr>
        \<and> f_type g = ERROR \<and> encode_error c m = Inr (f_payload g))"
| "meets p Farewell r \<longleftrightarrow>
     (\<exists>g. r = Inr \<lparr>ra_frames = [g], ra_close = True, ra_reason = Some (ascii ''peer said bye'')\<rparr>
        \<and> f_type g = BYE \<and> f_payload g = [])"
| "meets p Hang_up r \<longleftrightarrow>
     (\<exists>m. r = Inr \<lparr>ra_frames = [], ra_close = True, ra_reason = Some m\<rparr>)"
| "meets p Crash r \<longleftrightarrow> r = Inl ValueError \<or> r = Inl RecursionError"

text \<open>
  What a step of the code must satisfy: the abstract step, the answer, well-formed replies
  numbered with the counter, and the invariant afterwards.
\<close>

definition step_ok :: "py_env \<Rightarrow> frame \<Rightarrow> server_session \<Rightarrow> reaction res \<times> server_session \<Rightarrow> bool" where
  "step_ok env f ss rs \<longleftrightarrow>
     (\<exists>a. spec_step (spec_state ss) (spec_event env f) a (spec_state (snd rs))
        \<and> meets (f_payload f) a (fst rs))
     \<and> session_ok (snd rs) \<and> ss_id (snd rs) = ss_id ss
     \<and> (case fst rs of
          Inl _ \<Rightarrow> ss_out_seq (snd rs) = ss_out_seq ss
        | Inr ra \<Rightarrow> list_all frame_ok (ra_frames ra)
            \<and> (ra_frames ra = [] \<and> ss_out_seq (snd rs) = ss_out_seq ss
               \<or> map f_seq (ra_frames ra) = [ss_out_seq ss]
                 \<and> ss_out_seq (snd rs) = (ss_out_seq ss + 1) AND MAX_SEQ))"

lemma step_okI:
  assumes "spec_step (spec_state ss) (spec_event env f) a (spec_state ss')"
    "meets (f_payload f) a r" "session_ok ss'" "ss_id ss' = ss_id ss"
    "case r of Inl _ \<Rightarrow> ss_out_seq ss' = ss_out_seq ss
     | Inr ra \<Rightarrow> list_all frame_ok (ra_frames ra)
        \<and> (ra_frames ra = [] \<and> ss_out_seq ss' = ss_out_seq ss
           \<or> map f_seq (ra_frames ra) = [ss_out_seq ss]
             \<and> ss_out_seq ss' = (ss_out_seq ss + 1) AND MAX_SEQ)"
  shows "step_ok env f ss (r, ss')"
  unfolding step_ok_def fst_conv snd_conv using assms by blast

lemma reply_frame_ok:
  "session_ok ss \<Longrightarrow> length p \<le> MAX_PAYLOAD \<Longrightarrow> list_all frame_ok (ra_frames (reply t p c m ss))"
  by (simp add: reply_def frame_ok_def session_ok_def)

lemma refuse_step_ok:
  assumes "session_ok ss'" "wire_text m" "ss_id ss' = ss_id ss" "ss_out_seq ss' = ss_out_seq ss"
    and "spec_step (spec_state ss) (spec_event env f) (Refuse c) (P_Closed, ss_last_peer_seq ss')"
  shows "step_ok env f ss (ss_error c m ss')"
proof -
  obtain p where p: "encode_error c m = Inr p" "length p \<le> MAX_PAYLOAD"
    "ss_error c m ss' = (Inr (reply ERROR p True (Some (error_text c m)) ss'),
      ss'\<lparr>ss_state := CLOSED, ss_out_seq := (ss_out_seq ss' + 1) AND MAX_SEQ\<rparr>)"
    using ss_error_outcome [OF assms(2)] by blast
  have "session_ok (ss'\<lparr>ss_state := CLOSED, ss_out_seq := (ss_out_seq ss' + 1) AND MAX_SEQ\<rparr>)"
    using assms(1) by (simp add: session_ok_def next_seq_bounds)
  with assms(3-) p(1) reply_frame_ok [OF assms(1) p(2), of ERROR True] show ?thesis
    unfolding p(3) by (intro step_okI) (auto simp: spec_state_def reply_def)
qed

text \<open>The accepted frames: what dispatching returns, with a \<open>ProtocolError\<close> made a refusal.\<close>

lemma on_frame_dispatch:
  assumes "ss_state ss = NEW \<or> ss_state ss = READY" "ss_last_peer_seq ss < f_seq f"
  shows "on_frame env rng f ss =
    (case dispatch env rng f (ss\<lparr>ss_last_peer_seq := f_seq f\<rparr>) of
       (Inl (ProtocolError code message), ss') \<Rightarrow> ss_error code message ss'
     | (r, ss') \<Rightarrow> (r, ss'))"
  using assms by (auto simp: on_frame_def)

lemma payload_error_step_ok:
  assumes "session_ok ss1" "ss1 = ss\<lparr>ss_last_peer_seq := f_seq f\<rparr>" "payload_exn env f = Some e"
    "(phase_of (ss_state ss), f_type f) \<in> {(P_New, HELLO), (P_Ready, ERROR)}"
    "ss_last_peer_seq ss < f_seq f" "load_exn e" "\<And>c m. e = ProtocolError c m \<Longrightarrow> wire_text m"
  shows "step_ok env f ss
    (case (Inl e :: reaction res, ss1) of (Inl (ProtocolError code message), ss') \<Rightarrow> ss_error code message ss'
     | (r, ss') \<Rightarrow> (r, ss'))"
proof (cases "is_protocol_error e")
  case True
  then obtain c m where e: "e = ProtocolError c m" by (rule is_protocol_errorE)
  have "spec_step (spec_state ss) (spec_event env f) (Refuse c) (P_Closed, ss_last_peer_seq ss1)"
    unfolding spec_state_def spec_event_def assms(3) e
    using assms(2,4,5) by (auto intro: spec_step.malformed)
  with e assms(1,2,7) show ?thesis by (auto intro: refuse_step_ok)
next
  case False
  have "spec_step (spec_state ss) (spec_event env f) Crash (spec_state ss1)"
    unfolding spec_state_def spec_event_def assms(3)
    using assms(2,4,5) False by (auto intro: spec_step.crash)
  with False assms(1,2,6) show ?thesis
    by (cases e) (auto simp: load_exn_def intro!: step_okI)
qed

lemma reply_step_ok:
  assumes "spec_step (spec_state ss) (spec_event env f) a (phase_of (ss_state ss2), ss_last_peer_seq ss2)"
    "meets (f_payload f) a (Inr (reply t p c m ss))" "session_ok ss2"
    "session_ok ss" "length p \<le> MAX_PAYLOAD" "ss_id ss2 = ss_id ss"
    "ss_out_seq ss2 = (ss_out_seq ss + 1) AND MAX_SEQ"
  shows "step_ok env f ss (Inr (reply t p c m ss), ss2)"
  using assms(1-3,6,7) reply_frame_ok [OF assms(4,5), of t c m]
  by (intro step_okI [where a = a]) (simp_all add: spec_state_def reply_def)

lemma ss_marked_ok:
  assumes "session_ok ss" "frame_ok f"
  shows "session_ok (ss\<lparr>ss_last_peer_seq := f_seq f\<rparr>)"
  using assms by (simp add: session_ok_def frame_ok_def)

lemma on_hello_step_ok:
  assumes ss: "session_ok ss" and f: "frame_ok f" and rng: "rng_ok rng"
    and new: "ss_state ss = NEW" "ss_last_peer_seq ss < f_seq f" and hello: "f_type f = HELLO"
    and dec: "decode_hello env (f_payload f) = Inr (cid, nonce)"
  shows "step_ok env f ss (on_frame env rng f ss)"
proof -
  let ?ss1 = "ss\<lparr>ss_last_peer_seq := f_seq f\<rparr>"
  let ?ss2 = "?ss1\<lparr>ss_client_id := Some cid, ss_peer_nonce := Some nonce, ss_state := READY,
     ss_out_seq := (ss_out_seq ss + 1) AND MAX_SEQ\<rparr>"
  obtain p where p: "length p \<le> MAX_PAYLOAD"
    "on_hello env rng f ?ss1 = (Inr (reply HELLO_ACK p False None ?ss1), ?ss2)"
    using on_hello_outcome [OF dec ss_marked_ok [OF ss f] rng] by auto
  then have on: "on_frame env rng f ss = (Inr (reply HELLO_ACK p False None ss), ?ss2)"
    using new hello by (simp add: on_frame_dispatch dispatch_def reply_def)
  have "spec_step (spec_state ss) (spec_event env f) (Answer HELLO_ACK) (P_Ready, f_seq f)"
    using new hello dec by (simp add: spec_state_def spec_event_def payload_exn_def spec_step.hello)
  moreover have "session_ok ?ss2"
    using ss_marked_ok [OF ss f] by (simp add: session_ok_def next_seq_bounds)
  ultimately show ?thesis
    unfolding on using p(1) ss by (intro reply_step_ok [where a = "Answer HELLO_ACK"]) (simp_all add: reply_def)
qed

lemma on_frame_new_step_ok:
  assumes ss: "session_ok ss" and f: "frame_ok f" and rng: "rng_ok rng"
    and new: "ss_state ss = NEW" "ss_last_peer_seq ss < f_seq f"
  shows "step_ok env f ss (on_frame env rng f ss)"
proof -
  define ss1 where "ss1 = ss\<lparr>ss_last_peer_seq := f_seq f\<rparr>"
  have ss1: "session_ok ss1" using ss_marked_ok [OF ss f] by (simp add: ss1_def)
  consider (early) "f_type f \<noteq> HELLO"
    | (bad) e where "f_type f = HELLO" "decode_hello env (f_payload f) = Inl e"
    | (good) cid nonce where "f_type f = HELLO" "decode_hello env (f_payload f) = Inr (cid, nonce)"
    by (cases "decode_hello env (f_payload f)") auto
  then show ?thesis
  proof cases
    case early
    with new have "on_frame env rng f ss = ss_error ERR_STATE
        (msg_name (f_type f) @ ascii '' is not allowed before the handshake'') ss1"
      by (simp add: on_frame_dispatch dispatch_def ss1_def)
    moreover have "spec_step (spec_state ss) (spec_event env f) (Refuse ERR_STATE) (P_Closed, ss_last_peer_seq ss1)"
      using early new by (simp add: spec_state_def spec_event_def ss1_def spec_step.early)
    ultimately show ?thesis
      using ss1 by (simp add: refuse_step_ok wire_text_before ss1_def)
  next
    case bad
    then have "dispatch env rng f ss1 = (Inl e, ss1)" "payload_exn env f = Some e" "load_exn e"
      using new by (auto simp: dispatch_def on_hello_def ss1_def payload_exn_def dest: decode_hello_Inl)
    moreover have "wire_text m" if "e = ProtocolError c m" for c m
      using bad(2) that f by (auto simp: frame_ok_def dest: decode_hello_text)
    ultimately show ?thesis
      using payload_error_step_ok [OF ss1 ss1_def] new bad(1)
      by (simp add: on_frame_dispatch ss1_def [symmetric])
  next
    case good
    with assms show ?thesis by (rule on_hello_step_ok)
  qed
qed

text \<open>A ready session, by the kind of frame: DATA and PING are answered with their payload.\<close>

lemma on_echo_step_ok:
  assumes ss: "session_ok ss" and f: "frame_ok f" and ready: "ss_state ss = READY" "ss_last_peer_seq ss < f_seq f"
    and t: "f_type f = DATA \<and> t = DATA \<or> f_type f = PING \<and> t = PONG"
  shows "step_ok env f ss (on_frame env rng f ss)"
proof -
  let ?next = "ss\<lparr>ss_last_peer_seq := f_seq f, ss_out_seq := (ss_out_seq ss + 1) AND MAX_SEQ\<rparr>"
  have on: "on_frame env rng f ss = (Inr (reply t (f_payload f) False None ss), ?next)"
    using t ready by (auto simp: on_frame_dispatch dispatch_def on_data_def ss_frame_eq reply_def)
  have "spec_step (spec_state ss) (spec_event env f) (Answer t) (P_Ready, f_seq f)"
    using t ready by (auto simp: spec_state_def spec_event_def intro: spec_step.data spec_step.ping)
  moreover have "session_ok ?next"
    using ss_marked_ok [OF ss f] by (simp add: session_ok_def next_seq_bounds)
  ultimately show ?thesis
    unfolding on using t ss f ready
    by (intro reply_step_ok [where a = "Answer t"]) (auto simp: reply_def frame_ok_def)
qed

lemma on_bye_step_ok:
  assumes ss: "session_ok ss" and f: "frame_ok f" and ready: "ss_state ss = READY" "ss_last_peer_seq ss < f_seq f"
    and bye: "f_type f = BYE"
  shows "step_ok env f ss (on_frame env rng f ss)"
proof -
  let ?next = "ss\<lparr>ss_last_peer_seq := f_seq f, ss_state := CLOSED, ss_out_seq := (ss_out_seq ss + 1) AND MAX_SEQ\<rparr>"
  have on: "on_frame env rng f ss = (Inr (reply BYE [] True (Some (ascii ''peer said bye'')) ss), ?next)"
    using bye ready by (simp add: on_frame_dispatch dispatch_def ss_frame_eq reply_def)
  have "session_ok ?next"
    using ss_marked_ok [OF ss f] by (simp add: session_ok_def next_seq_bounds)
  then show ?thesis
    unfolding on using bye ss ready
    by (intro reply_step_ok [where a = Farewell])
      (simp_all add: spec_state_def spec_event_def spec_step.bye, simp_all add: reply_def)
qed

lemma on_error_step_ok:
  assumes ss: "session_ok ss" and f: "frame_ok f" and ready: "ss_state ss = READY" "ss_last_peer_seq ss < f_seq f"
    and error: "f_type f = ERROR"
  shows "step_ok env f ss (on_frame env rng f ss)"
proof -
  define ss1 where "ss1 = ss\<lparr>ss_last_peer_seq := f_seq f\<rparr>"
  have ss1: "session_ok ss1" using ss_marked_ok [OF ss f] by (simp add: ss1_def)
  note on = on_frame_dispatch [OF disjI2, OF ready, of env rng, folded ss1_def]
  show ?thesis
  proof (cases "decode_error env (f_payload f)")
    case (Inl e)
    have "payload_exn env f = Some e" using Inl error by (simp add: payload_exn_def)
    moreover have "load_exn e" using Inl by (rule decode_error_Inl)
    moreover have "wire_text m" if "e = ProtocolError c m" for c m
      using Inl that f by (auto simp: frame_ok_def dest: decode_error_text)
    ultimately show ?thesis
      using payload_error_step_ok [OF ss1 ss1_def, of env e] ready error Inl
      by (simp add: on dispatch_def ss1_def)
  next
    case (Inr cm)
    obtain c m where cm: "decode_error env (f_payload f) = Inr (c, m)" using Inr by (cases cm) auto
    with error ready have "on_frame env rng f ss =
        (Inr \<lparr>ra_frames = [], ra_close = True,
           ra_reason = Some (ascii ''peer reported '' @ code_name c @ ascii '': '' @ m)\<rparr>,
         ss1\<lparr>ss_state := CLOSED\<rparr>)"
      by (simp add: on dispatch_def ss1_def)
    moreover have "spec_step (spec_state ss) (spec_event env f) Hang_up (P_Closed, f_seq f)"
      using ready error cm by (simp add: spec_state_def spec_event_def payload_exn_def spec_step.error)
    ultimately show ?thesis
      using ss1 by (auto simp: ss1_def spec_state_def session_ok_def intro!: step_okI [where a = Hang_up])
  qed
qed

lemma on_frame_ready_step_ok:
  assumes ss: "session_ok ss" and f: "frame_ok f"
    and ready: "ss_state ss = READY" "ss_last_peer_seq ss < f_seq f"
  shows "step_ok env f ss (on_frame env rng f ss)"
proof -
  define ss1 where "ss1 = ss\<lparr>ss_last_peer_seq := f_seq f\<rparr>"
  have ss1: "session_ok ss1" using ss_marked_ok [OF ss f] by (simp add: ss1_def)
  note on = on_frame_dispatch [OF disjI2, OF ready, of env rng, folded ss1_def]
  have refuse: "step_ok env f ss (ss_error ERR_STATE m ss1)"
    if "wire_text m" "f_type f \<in> {HELLO, HELLO_ACK}" for m
    using that ready ss1
    by (intro refuse_step_ok) (auto simp: ss1_def spec_state_def spec_event_def intro: spec_step.misplaced)
  show ?thesis
  proof (cases "f_type f")
    case HELLO
    with ready refuse [of "ascii ''handshake already completed''"] show ?thesis
      by (simp add: on dispatch_def ss1_def wire_text_def)
  next
    case HELLO_ACK
    with ready refuse [of "ascii ''hello_ack is server to client''"] show ?thesis
      by (simp add: on dispatch_def ss1_def wire_text_def)
  next
    case PONG
    with ready ss1 show ?thesis
      by (auto simp: on dispatch_def ss1_def spec_event_def spec_state_def spec_step.quiet
          intro!: step_okI [where a = Silent])
  next
    case ACK
    with ready ss1 show ?thesis
      by (auto simp: on dispatch_def ss1_def spec_event_def spec_state_def spec_step.quiet
          intro!: step_okI [where a = Silent])
  qed (use assms in \<open>auto intro: on_echo_step_ok on_bye_step_ok on_error_step_ok\<close>)
qed

lemma on_frame_step_ok:
  assumes ss: "session_ok ss" and f: "frame_ok f" and rng: "rng_ok rng"
  shows "step_ok env f ss (on_frame env rng f ss)"
proof -
  consider (closed) "ss_state ss = CLOSED"
    | (stale) "ss_state ss \<in> {NEW, READY}" "f_seq f \<le> ss_last_peer_seq ss"
    | (new) "ss_state ss = NEW" "ss_last_peer_seq ss < f_seq f"
    | (ready) "ss_state ss = READY" "ss_last_peer_seq ss < f_seq f"
    using ss that
    by (cases "f_seq f \<le> ss_last_peer_seq ss"; cases "ss_state ss") (simp_all add: session_ok_def)
  then show ?thesis
  proof cases
    case closed
    then show ?thesis
      using ss by (auto simp: on_frame_def step_ok_def spec_state_def intro: spec_step.after_close)
  next
    case stale
    then have "on_frame env rng f ss = ss_error ERR_SEQ (ascii ''seq '' @ dec_int (f_seq f)
        @ ascii '' not greater than last accepted '' @ dec_int (ss_last_peer_seq ss)) ss"
      by (auto simp: on_frame_def)
    moreover have "spec_step (spec_state ss) (spec_event env f) (Refuse ERR_SEQ) (P_Closed, ss_last_peer_seq ss)"
      using stale by (auto simp: spec_state_def spec_event_def intro: spec_step.stale)
    ultimately show ?thesis
      using refuse_step_ok [OF ss wire_text_seq [OF f ss] refl refl] by simp
  qed (use assms in \<open>simp_all add: on_frame_new_step_ok on_frame_ready_step_ok\<close>)
qed

end
