(* ===== verification/Session_Runs.thy ===== *)
theory Session_Runs
  imports Session_Spec
begin

text \<open>
  Reachable sessions and runs: the sessions a sequence of events can lead to, and what a run of
  decoded frames does, up to the first frame that closes the connection or raises.
\<close>

section \<open>Reachable sessions\<close>

inductive session_reach :: "py_env \<Rightarrow> server_session \<Rightarrow> bool" for env where
  fresh: "session_reach env (new_session rng)"
| frame: "session_reach env ss \<Longrightarrow> frame_ok f \<Longrightarrow> rng_ok rng \<Longrightarrow> on_frame env rng f ss = (r, ss')
    \<Longrightarrow> session_reach env ss'"
| undecodable: "session_reach env ss \<Longrightarrow> wire_text m \<Longrightarrow> on_protocol_error c m ss = (r, ss')
    \<Longrightarrow> session_reach env ss'"
| acknowledge: "session_reach env ss \<Longrightarrow> ss_ack n ss = (g, ss') \<Longrightarrow> session_reach env ss'"
| idle: "session_reach env ss \<Longrightarrow> on_idle_timeout ss = (ra, ss') \<Longrightarrow> session_reach env ss'"

lemma session_ok_closed: "session_ok ss \<Longrightarrow> session_ok (ss\<lparr>ss_state := CLOSED\<rparr>)"
  by (simp add: session_ok_def)

lemma session_ok_next: "session_ok ss \<Longrightarrow> session_ok (ss\<lparr>ss_out_seq := (v + 1) AND MAX_SEQ\<rparr>)"
  by (simp add: session_ok_def next_seq_bounds)

lemma session_reach_ok: "session_reach env ss \<Longrightarrow> session_ok ss"
proof (induction rule: session_reach.induct)
  case (fresh rng)
  show ?case by (rule new_session_ok)
next
  case (frame ss f rng r ss')
  then show ?case using on_frame_step_ok [of ss f rng env] by (simp add: step_ok_def)
next
  case (undecodable ss m c r ss')
  then show ?case
    using ss_error_outcome [of m c ss] session_ok_closed session_ok_next
    by (fastforce simp: on_protocol_error_def)
next
  case (acknowledge ss n g ss')
  then show ?case
    by (auto simp: ss_ack_def ss_frame_eq session_ok_next split: sum.split_asm)
next
  case (idle ss ra ss')
  then show ?case by (auto simp: on_idle_timeout_def session_ok_closed)
qed

section \<open>Runs of frames\<close>

text \<open>The replies in order, the exception if one escaped, and the session afterwards.\<close>

fun run_frames ::
  "py_env \<Rightarrow> (nat \<Rightarrow> bytes) \<Rightarrow> frame list \<Rightarrow> server_session \<Rightarrow> frame list \<times> exn option \<times> server_session"
where
  "run_frames env rng [] ss = ([], None, ss)"
| "run_frames env rng (f # fs) ss =
     (case on_frame env rng f ss of
        (Inl e, ss') \<Rightarrow> ([], Some e, ss')
      | (Inr ra, ss') \<Rightarrow>
          if ra_close ra then (ra_frames ra, None, ss')
          else (case run_frames env rng fs ss' of (gs, x, ss'') \<Rightarrow> (ra_frames ra @ gs, x, ss'')))"

text \<open>The frames of an open session that are answered, if at all, with an echo.\<close>

definition echoed :: "frame \<Rightarrow> bool" where
  "echoed f \<longleftrightarrow> f_type f \<in> {PING, PONG, DATA, ACK}"

definition echo :: "frame \<Rightarrow> (msg_type \<times> bytes) list" where
  "echo f = (case f_type f of PING \<Rightarrow> [(PONG, f_payload f)] | DATA \<Rightarrow> [(DATA, f_payload f)] | _ \<Rightarrow> [])"

definition after_echo :: "frame \<Rightarrow> server_session \<Rightarrow> server_session" where
  "after_echo f ss = ss\<lparr>ss_last_peer_seq := f_seq f,
     ss_out_seq := (if echo f = [] then ss_out_seq ss else (ss_out_seq ss + 1) AND MAX_SEQ)\<rparr>"

lemma on_frame_echo:
  assumes "ss_state ss = READY" "ss_last_peer_seq ss < f_seq f" "echoed f"
  shows "on_frame env rng f ss =
    (Inr \<lparr>ra_frames = map (\<lambda>(t, p). mk_frame t (ss_out_seq ss) p 0) (echo f), ra_close = False, ra_reason = None\<rparr>,
     after_echo f ss)"
  using assms
  by (auto simp: on_frame_dispatch dispatch_def on_data_def ss_frame_eq echoed_def echo_def after_echo_def)

lemma after_echo_sel [simp]:
  "ss_state (after_echo f ss) = ss_state ss" "ss_last_peer_seq (after_echo f ss) = f_seq f"
  "ss_id (after_echo f ss) = ss_id ss"
  by (simp_all add: after_echo_def)

text \<open>Sequence numbers strictly increasing from a bound.\<close>

definition increasing_from :: "int \<Rightarrow> frame list \<Rightarrow> bool" where
  "increasing_from n fs \<longleftrightarrow> sorted_wrt (<) (n # map f_seq fs)"

lemma increasing_from_simps [simp]:
  "increasing_from n []" "increasing_from n (f # fs) \<longleftrightarrow> n < f_seq f \<and> increasing_from (f_seq f) fs"
  by (auto simp: increasing_from_def)

definition numbered :: "int \<Rightarrow> frame list \<Rightarrow> bool" where
  "numbered n fs \<longleftrightarrow> map f_seq fs = map (\<lambda>i. (n + int i) mod 2 ^ 32) [0..<length fs]"

lemma numbered_Nil [simp]: "numbered n []"
  by (simp add: numbered_def)

lemma numbered_Cons:
  assumes "0 \<le> n" "n \<le> MAX_SEQ"
  shows "numbered n (f # fs) \<longleftrightarrow> f_seq f = n \<and> numbered ((n + 1) AND MAX_SEQ) fs"
proof -
  have "(((n + 1) AND MAX_SEQ) + int i) mod 2 ^ 32 = (n + int (Suc i)) mod 2 ^ 32" for i
    by (simp add: and_MAX_SEQ mod_add_left_eq add.assoc)
  moreover have "n mod 2 ^ 32 = n" using assms by (simp add: MAX_SEQ_def)
  moreover have "[0..<length (f # fs)] = 0 # map Suc [0..<length fs]"
    by (simp add: upt_conv_Cons map_Suc_upt del: upt_Suc)
  ultimately show ?thesis by (simp add: numbered_def comp_def del: upt_Suc)
qed

lemma run_echo:
  assumes "ss_state ss = READY" "0 \<le> ss_out_seq ss" "ss_out_seq ss \<le> MAX_SEQ"
    "list_all echoed fs" "increasing_from (ss_last_peer_seq ss) fs"
  shows "\<exists>gs ss'. run_frames env rng fs ss = (gs, None, ss') \<and> ss_state ss' = READY
    \<and> map (\<lambda>g. (f_type g, f_payload g)) gs = concat (map echo fs) \<and> numbered (ss_out_seq ss) gs"
  using assms
proof (induction fs arbitrary: ss)
  case Nil
  then show ?case by simp
next
  case (Cons f fs)
  have out: "0 \<le> ss_out_seq (after_echo f ss) \<and> ss_out_seq (after_echo f ss) \<le> MAX_SEQ"
    using Cons.prems by (simp add: after_echo_def next_seq_bounds)
  obtain gs ss' where gs: "run_frames env rng fs (after_echo f ss) = (gs, None, ss')"
    "ss_state ss' = READY" "map (\<lambda>g. (f_type g, f_payload g)) gs = concat (map echo fs)"
    "numbered (ss_out_seq (after_echo f ss)) gs"
    using Cons.IH [of "after_echo f ss"] Cons.prems out by auto
  have "run_frames env rng (f # fs) ss =
      (map (\<lambda>(t, p). mk_frame t (ss_out_seq ss) p 0) (echo f) @ gs, None, ss')"
    using Cons.prems gs(1) by (simp add: on_frame_echo)
  moreover have "numbered (ss_out_seq ss) (map (\<lambda>(t, p). mk_frame t (ss_out_seq ss) p 0) (echo f) @ gs)"
    using gs(4) Cons.prems
    by (cases "f_type f") (simp_all add: echo_def after_echo_def numbered_Cons)
  moreover have "map (\<lambda>g. (f_type g, f_payload g)) (map (\<lambda>(t, p). mk_frame t n p 0) (echo f)) = echo f" for n
    by (cases "f_type f") (simp_all add: echo_def)
  ultimately show ?case using gs(2,3) by simp
qed

text \<open>The converse: a run that leaves the session open consists of such frames.\<close>

lemma on_frame_to_ready:
  assumes "on_frame env rng f ss = (Inr ra, ss')" "\<not> ra_close ra"
    "session_ok ss" "frame_ok f" "rng_ok rng" "ss_state ss = READY"
  shows "ss_last_peer_seq ss < f_seq f \<and> echoed f \<and> ss' = after_echo f ss"
proof -
  from on_frame_step_ok [OF assms(3-5), of env] assms(1) obtain a where
    "spec_step (P_Ready, ss_last_peer_seq ss) (f_type f, f_seq f, payload_exn env f) a (spec_state ss')"
    "meets (f_payload f) a (Inr ra)"
    using assms(6) by (auto simp: step_ok_def spec_state_def spec_event_def)
  then have "ss_last_peer_seq ss < f_seq f \<and> echoed f"
    using assms(2) by (auto elim!: spec_step_readyE simp: echoed_def)
  with assms(1,6) on_frame_echo [of ss f env rng] show ?thesis by simp
qed

lemma run_stays_ready:
  assumes "run_frames env rng fs ss = (gs, None, ss')" "ss_state ss' = READY"
    "session_ok ss" "list_all frame_ok fs" "rng_ok rng" "ss_state ss = READY"
  shows "list_all echoed fs \<and> increasing_from (ss_last_peer_seq ss) fs"
  using assms
proof (induction fs arbitrary: ss gs)
  case Nil
  then show ?case by simp
next
  case (Cons f fs)
  obtain r ss1 where on: "on_frame env rng f ss = (r, ss1)" by (cases "on_frame env rng f ss")
  with Cons.prems(1) obtain ra where r: "r = Inr ra" by (cases r) auto
  have ok1: "session_ok ss1"
    using on_frame_step_ok [of ss f rng env] Cons.prems on by (simp add: step_ok_def)
  have "\<not> ra_close ra"
  proof
    assume close: "ra_close ra"
    with Cons.prems(1,2) on r have "ss_state ss1 = READY" by simp
    moreover from on_frame_step_ok [of ss f rng env] Cons.prems on r obtain a where
      "spec_step (P_Ready, ss_last_peer_seq ss) (f_type f, f_seq f, payload_exn env f) a (spec_state ss1)"
      "meets (f_payload f) a (Inr ra)"
      by (auto simp: step_ok_def spec_state_def spec_event_def)
    ultimately show False using close
      by (auto simp: spec_state_def elim!: spec_step_readyE)
  qed
  with on_frame_to_ready [of env rng f ss ra ss1] Cons.prems on r
  have f: "ss_last_peer_seq ss < f_seq f" "echoed f" "ss1 = after_echo f ss" by simp_all
  from Cons.prems(1) on r \<open>\<not> ra_close ra\<close> obtain hs where "run_frames env rng fs ss1 = (hs, None, ss')"
    by (cases "run_frames env rng fs ss1") auto
  with Cons.IH [of ss1 hs] Cons.prems f ok1 show ?case by simp
qed

section \<open>Conversations\<close>

text \<open>
  The runs that leave a fresh session open: a HELLO that decodes, then echoed frames, all
  numbered in strictly increasing order.
\<close>

definition conversation :: "py_env \<Rightarrow> frame list \<Rightarrow> bool" where
  "conversation env fs =
     (case fs of [] \<Rightarrow> False
      | h # rest \<Rightarrow> f_type h = HELLO \<and> (\<exists>x. decode_hello env (f_payload h) = Inr x)
          \<and> list_all echoed rest \<and> increasing_from (-1) fs)"

lemma on_frame_hello:
  assumes "f_type h = HELLO" "decode_hello env (f_payload h) = Inr x" "frame_ok h" "rng_ok rng"
  shows "\<exists>p ss'. encode_hello_ack rng (ss_id (new_session rng0)) None = Inr p \<and>
    on_frame env rng h (new_session rng0) =
      (Inr \<lparr>ra_frames = [mk_frame HELLO_ACK 0 p 0], ra_close = False, ra_reason = None\<rparr>, ss')
    \<and> ss_state ss' = READY \<and> ss_last_peer_seq ss' = f_seq h \<and> ss_out_seq ss' = 1
    \<and> ss_client_id ss' = Some (fst x) \<and> session_ok ss'"
proof -
  let ?ss = "(new_session rng0)\<lparr>ss_last_peer_seq := f_seq h\<rparr>"
  have ok: "session_ok ?ss"
    using new_session_ok [of rng0] assms(3) by (simp add: session_ok_def frame_ok_def)
  have st: "ss_state (new_session rng0) = NEW" "ss_last_peer_seq (new_session rng0) < f_seq h"
    "ss_out_seq (new_session rng0) = 0"
    using assms(3) by (simp_all add: new_session_def frame_ok_def)
  from assms(2) on_hello_outcome [OF _ ok assms(4), of env h "fst x" "snd x"] obtain p where
    p: "encode_hello_ack rng (ss_id (new_session rng0)) None = Inr p"
    "on_hello env rng h ?ss = (Inr (reply HELLO_ACK p False None ?ss),
      ?ss\<lparr>ss_client_id := Some (fst x), ss_peer_nonce := Some (snd x), ss_state := READY,
         ss_out_seq := (ss_out_seq ?ss + 1) AND MAX_SEQ\<rparr>)" by auto
  have on: "on_frame env rng h (new_session rng0) = on_hello env rng h ?ss"
    using st assms(1) p(2) by (simp add: on_frame_dispatch dispatch_def)
  have "session_ok (snd (on_frame env rng h (new_session rng0)))"
    using on_frame_step_ok [OF new_session_ok assms(3,4)] by (simp add: step_ok_def)
  then show ?thesis
    unfolding on p(2) using p(1) st by (simp add: reply_def and_MAX_SEQ)
qed

lemma run_conversation:
  assumes "conversation env fs" "list_all frame_ok fs" "rng_ok rng"
  shows "\<exists>p gs ss'. encode_hello_ack rng (ss_id (new_session rng0)) None = Inr p
    \<and> run_frames env rng fs (new_session rng0) = (mk_frame HELLO_ACK 0 p 0 # gs, None, ss')
    \<and> ss_state ss' = READY
    \<and> map (\<lambda>g. (f_type g, f_payload g)) gs = concat (map echo (tl fs)) \<and> numbered 1 gs"
proof -
  from assms(1) obtain h rest x where fs: "fs = h # rest" "f_type h = HELLO"
    "decode_hello env (f_payload h) = Inr x" "list_all echoed rest" "increasing_from (f_seq h) rest"
    by (auto simp: conversation_def split: list.split_asm)
  with assms(2) have h: "frame_ok h" by simp
  obtain p ss1 where hello: "encode_hello_ack rng (ss_id (new_session rng0)) None = Inr p"
    "on_frame env rng h (new_session rng0) =
      (Inr \<lparr>ra_frames = [mk_frame HELLO_ACK 0 p 0], ra_close = False, ra_reason = None\<rparr>, ss1)"
    "ss_state ss1 = READY" "ss_last_peer_seq ss1 = f_seq h" "ss_out_seq ss1 = 1"
    using on_frame_hello [OF fs(2,3) h assms(3)] by blast
  obtain gs ss' where "run_frames env rng rest ss1 = (gs, None, ss')" "ss_state ss' = READY"
    "map (\<lambda>g. (f_type g, f_payload g)) gs = concat (map echo rest)" "numbered 1 gs"
    using run_echo [of ss1 rest env rng] hello fs by (auto simp: MAX_SEQ_def)
  with fs(1) hello show ?thesis by simp
qed

lemma run_ready_conversation:
  assumes "run_frames env rng fs (new_session rng0) = (gs, None, ss')" "ss_state ss' = READY"
    "list_all frame_ok fs" "rng_ok rng"
  shows "conversation env fs"
proof (cases fs)
  case Nil
  with assms(1,2) show ?thesis by (auto simp: new_session_def)
next
  case (Cons h rest)
  let ?ss = "new_session rng0"
  have st: "spec_state ?ss = (P_New, -1)" by (simp add: new_session_def spec_state_def)
  obtain r ss1 where on: "on_frame env rng h ?ss = (r, ss1)" by (cases "on_frame env rng h ?ss")
  with assms(1) Cons obtain ra where r: "r = Inr ra" by (cases r) auto
  from Cons assms(3) have h: "frame_ok h" by simp
  from on_frame_step_ok [OF new_session_ok h assms(4), of env rng0] on r obtain a where
    a: "spec_step (P_New, -1) (f_type h, f_seq h, payload_exn env h) a (spec_state ss1)"
    "meets (f_payload h) a (Inr ra)" and ok1: "session_ok ss1"
    by (auto simp: step_ok_def st spec_event_def)
  have open': "\<not> ra_close ra \<and> phase_of (ss_state ss1) = P_Ready"
    using a assms(1,2) on r Cons by (cases "ra_close ra") (auto simp: spec_state_def elim!: spec_step_newE)
  with a have hello: "f_type h = HELLO" "payload_exn env h = None" "-1 < f_seq h"
    "ss_last_peer_seq ss1 = f_seq h"
    by (auto simp: spec_state_def elim!: spec_step_newE)
  have ready: "ss_state ss1 = READY" using open' ok1 by (auto simp: session_ok_def)
  obtain hs where "run_frames env rng rest ss1 = (hs, None, ss')"
    using assms(1) on r Cons open' by (cases "run_frames env rng rest ss1") auto
  from run_stays_ready [OF this assms(2) ok1 _ assms(4) ready] assms(3) Cons hello
  show ?thesis
    by (auto simp: conversation_def payload_exn_def split: sum.split_asm)
qed

lemma on_frame_close:
  assumes "on_frame env rng f ss = (Inr ra, ss')" "ra_close ra" "session_ok ss" "frame_ok f" "rng_ok rng"
  shows "ss_state ss' = CLOSED"
proof -
  from on_frame_step_ok [OF assms(3-5), of env] assms(1) obtain a where
    a: "spec_step (spec_state ss) (spec_event env f) a (spec_state ss')" "meets (f_payload f) a (Inr ra)"
    and ok: "session_ok ss'" by (auto simp: step_ok_def)
  from a assms(2) have "phase_of (ss_state ss') = P_Closed"
    by (cases rule: spec_step.cases) (auto simp: spec_state_def)
  with ok show ?thesis by (auto simp: session_ok_def)
qed

lemma run_frames_append:
  assumes "run_frames env rng fs ss = (gs, None, ss1)" "ss_state ss1 \<noteq> CLOSED"
    "session_ok ss" "list_all frame_ok fs" "rng_ok rng"
  shows "run_frames env rng (fs @ es) ss =
    (case run_frames env rng es ss1 of (hs, x, ss2) \<Rightarrow> (gs @ hs, x, ss2))"
  using assms
proof (induction fs arbitrary: ss gs)
  case Nil
  then show ?case by simp
next
  case (Cons f fs)
  obtain r t where on: "on_frame env rng f ss = (r, t)" by (cases "on_frame env rng f ss")
  with Cons.prems(1) obtain ra where r: "r = Inr ra" by (cases r) auto
  have "\<not> ra_close ra"
    using on_frame_close [of env rng f ss ra t] Cons.prems on r by auto
  moreover have "session_ok t"
    using on_frame_step_ok [of ss f rng env] Cons.prems on by (simp add: step_ok_def)
  moreover from calculation Cons.prems(1) on r obtain hs where
    "run_frames env rng fs t = (hs, None, ss1)" "gs = ra_frames ra @ hs"
    by (cases "run_frames env rng fs t") auto
  ultimately show ?case
    using Cons.IH [of t hs] Cons.prems on r by (auto split: prod.split)
qed

lemma run_session_ok:
  assumes "run_frames env rng fs ss = (gs, x, ss')" "session_ok ss" "list_all frame_ok fs" "rng_ok rng"
  shows "session_ok ss'"
  using assms
proof (induction fs arbitrary: ss gs)
  case (Cons f fs)
  have "session_ok (snd (on_frame env rng f ss))"
    using on_frame_step_ok [of ss f rng env] Cons.prems by (simp add: step_ok_def)
  with Cons show ?case
    by (auto split: prod.split_asm sum.split_asm if_split_asm)
qed simp

lemma run_last_seq:
  assumes "run_frames env rng fs ss = (gs, None, ss')" "ss_state ss' = READY" "ss_state ss = READY"
    "session_ok ss" "list_all frame_ok fs" "rng_ok rng"
  shows "ss_last_peer_seq ss' = last (ss_last_peer_seq ss # map f_seq fs)"
  using assms
proof (induction fs arbitrary: ss gs)
  case Nil
  then show ?case by simp
next
  case (Cons f fs)
  have f: "ss_last_peer_seq ss < f_seq f" "echoed f"
    using run_stays_ready [OF Cons.prems(1,2,4,5,6,3)] by simp_all
  with Cons.prems(1,3) obtain hs where "run_frames env rng fs (after_echo f ss) = (hs, None, ss')"
    by (cases "run_frames env rng fs (after_echo f ss)") (auto simp: on_frame_echo)
  moreover have "session_ok (after_echo f ss)"
    using Cons.prems(4,5) by (auto simp: after_echo_def session_ok_def frame_ok_def next_seq_bounds)
  ultimately show ?case using Cons.IH [of "after_echo f ss" hs] Cons.prems by simp
qed

lemma sorted_le_last:
  assumes "sorted_wrt (<) xs" "x \<in> set xs"
  shows "x \<le> (last xs :: int)"
proof -
  from assms(2) obtain ys zs where xs: "xs = ys @ x # zs" by (meson split_list)
  show ?thesis
  proof (cases zs rule: rev_cases)
    case (snoc us u)
    with assms(1) xs show ?thesis by (simp add: sorted_wrt_append)
  qed (simp add: xs)
qed

lemma conversation_last_seq:
  assumes "run_frames env rng fs (new_session rng0) = (gs, None, ss')" "ss_state ss' = READY"
    "list_all frame_ok fs" "rng_ok rng" "f \<in> set fs"
  shows "f_seq f \<le> ss_last_peer_seq ss'"
proof -
  from run_ready_conversation [OF assms(1-4)] obtain h rest x where fs: "fs = h # rest"
    "f_type h = HELLO" "decode_hello env (f_payload h) = Inr x" "increasing_from (-1) fs"
    by (auto simp: conversation_def split: list.split_asm)
  with assms(3) have h: "frame_ok h" by simp
  obtain p ss1 where on: "on_frame env rng h (new_session rng0) =
      (Inr \<lparr>ra_frames = [mk_frame HELLO_ACK 0 p 0], ra_close = False, ra_reason = None\<rparr>, ss1)"
    "ss_state ss1 = READY" "ss_last_peer_seq ss1 = f_seq h" "session_ok ss1"
    using on_frame_hello [OF fs(2,3) h assms(4)] by blast
  then obtain hs where "run_frames env rng rest ss1 = (hs, None, ss')"
    using assms(1) fs(1) by (cases "run_frames env rng rest ss1") auto
  from run_last_seq [OF this assms(2) on(2,4) _ assms(4)] assms(3) fs(1) on(3)
  have "ss_last_peer_seq ss' = last (map f_seq fs)" by simp
  moreover have "sorted_wrt (<) (map f_seq fs)" using fs(4) by (simp add: increasing_from_def)
  ultimately show ?thesis using sorted_le_last [of "map f_seq fs" "f_seq f"] assms(5) by simp
qed

lemma on_frame_stale:
  assumes "ss_state ss = NEW \<or> ss_state ss = READY" "f_seq f \<le> ss_last_peer_seq ss" "session_ok ss" "frame_ok f"
  shows "\<exists>p m ss'. encode_error ERR_SEQ m = Inr p \<and> wire_text m \<and> ss_state ss' = CLOSED \<and>
    on_frame env rng f ss = (Inr (reply ERROR p True (Some (error_text ERR_SEQ m)) ss), ss')"
proof -
  let ?m = "ascii ''seq '' @ dec_int (f_seq f) @ ascii '' not greater than last accepted ''
    @ dec_int (ss_last_peer_seq ss)"
  have m: "wire_text ?m" by (rule wire_text_seq [OF assms(4,3)])
  obtain p where "encode_error ERR_SEQ ?m = Inr p" "ss_error ERR_SEQ ?m ss =
      (Inr (reply ERROR p True (Some (error_text ERR_SEQ ?m)) ss),
       ss\<lparr>ss_state := CLOSED, ss_out_seq := (ss_out_seq ss + 1) AND MAX_SEQ\<rparr>)"
    using ss_error_outcome [OF m, of ERR_SEQ ss] by blast
  with m assms(1,2) show ?thesis
    by (intro exI [of _ p] exI [of _ ?m]) (auto simp: on_frame_def)
qed

section \<open>Properties\<close>

text \<open>
  C6. The session refines the state machine of \<^verbatim>\<open>docs/PROTOCOL.md\<close> section 5: for every reachable
  session and every frame the codec can deliver, \<open>on_frame\<close> makes a step of the abstract machine,
  and its reaction carries out the abstract answer (an echo, a refusal with that error code, a
  hang-up, or an exception that escapes).
\<close>

theorem session_refines_protocol:
  assumes "session_reach env ss" "frame_ok f" "rng_ok rng"
  shows "\<exists>a. spec_step (spec_state ss) (spec_event env f) a (spec_state (snd (on_frame env rng f ss)))
    \<and> meets (f_payload f) a (fst (on_frame env rng f ss))"
  using on_frame_step_ok [OF session_reach_ok [OF assms(1)] assms(2,3), of env]
  by (simp add: step_ok_def)

text \<open>A concrete fresh session and PING for the witnesses.\<close>

lemma ping_ok: "frame_ok (mk_frame PING 5 [] 0)"
  by (simp add: frame_ok_def MAX_PAYLOAD_def MAX_SEQ_def)

lemma zeros_ok: "rng_ok (\<lambda>n. replicate n 0)"
  by (simp add: rng_ok_def)

theorem session_refines_protocol_witness:
  "\<exists>a. spec_step (P_New, -1) (PING, 5, None) a
     (spec_state (snd (on_frame py_env0 (\<lambda>n. replicate n 0) (mk_frame PING 5 [] 0) (new_session (\<lambda>n. replicate n 0)))))"
  using session_refines_protocol [OF session_reach.fresh [of py_env0 "\<lambda>n. replicate n 0"] ping_ok zeros_ok]
  by (auto simp: spec_state_def spec_event_def payload_exn_def new_session_def)

text \<open>
  C35. Every reachable session satisfies the invariant: both counters are in range, the server
  never occupies HANDSHAKE or CLOSING, the identity is recorded exactly while it is known, and the
  session id is at most twelve ASCII characters.
\<close>

theorem session_invariant:
  assumes "session_reach env ss"
  shows "session_ok ss"
  using assms by (rule session_reach_ok)

theorem session_invariant_witness: "session_ok (snd (on_idle_timeout (new_session (\<lambda>n. replicate n 0))))"
  by (rule session_invariant [of py_env0]) (rule session_reach.idle [OF session_reach.fresh], simp add: on_idle_timeout_def)

text \<open>
  Every frame a session hands to the transport can be encoded: its number, payload and flags
  are within the limits of the wire format, for echoes and error reports alike.
\<close>

theorem replies_encode:
  assumes "session_reach env ss" "frame_ok f" "rng_ok rng"
    "on_frame env rng f ss = (Inr ra, ss')" "g \<in> set (ra_frames ra)"
  shows "encode g secret = Inr (frame_bytes g (frame_mac g secret))"
  using on_frame_step_ok [OF session_reach_ok [OF assms(1)] assms(2,3), of env] assms(4,5)
  by (auto simp: step_ok_def list_all_iff encode_frame_ok)

theorem replies_encode_witness:
  "\<exists>p. encode (mk_frame ERROR 0 p 0) [1] =
     Inr (frame_bytes (mk_frame ERROR 0 p 0) (frame_mac (mk_frame ERROR 0 p 0) [1]))"
proof -
  let ?rng = "\<lambda>n. replicate n 0 :: bytes"
  obtain p where "on_frame py_env0 ?rng (mk_frame PING 5 [] 0) (new_session ?rng) =
      (Inr (reply ERROR p True (Some (error_text ERR_STATE
        (msg_name PING @ ascii '' is not allowed before the handshake''))) (new_session ?rng)),
       (new_session ?rng)\<lparr>ss_last_peer_seq := 5, ss_state := CLOSED, ss_out_seq := 1\<rparr>)"
    using ss_error_outcome [OF wire_text_before [of PING], of ERR_STATE "(new_session ?rng)\<lparr>ss_last_peer_seq := 5\<rparr>"]
    by (auto simp: on_frame_def dispatch_def new_session_def reply_def and_MAX_SEQ)
  from replies_encode [OF session_reach.fresh ping_ok zeros_ok this, of "mk_frame ERROR 0 p 0" "[1]"]
  show ?thesis by (auto simp: reply_def new_session_def)
qed

text \<open>
  An exception that escapes \<open>on_frame\<close> is a \<^verbatim>\<open>ValueError\<close> or a \<^verbatim>\<open>RecursionError\<close> of the JSON
  scanner, can only come from the payload of a HELLO that opens the session or of an ERROR in an
  open one, and leaves the state as it was. Every other failure becomes an ERROR reaction.
\<close>

theorem on_frame_escapes:
  assumes "session_reach env ss" "frame_ok f" "rng_ok rng" "on_frame env rng f ss = (Inl e, ss')"
  shows "(e = ValueError \<or> e = RecursionError) \<and> ss_state ss' = ss_state ss
    \<and> (ss_state ss, f_type f) \<in> {(NEW, HELLO), (READY, ERROR)}"
proof -
  have ss: "session_ok ss" using assms(1) by (rule session_reach_ok)
  from on_frame_step_ok [OF ss assms(2,3), of env] assms(4) obtain a where
    a: "spec_step (spec_state ss) (spec_event env f) a (spec_state ss')" "meets (f_payload f) a (Inl e)"
    and ok: "session_ok ss'" by (auto simp: step_ok_def)
  from a(2) have e: "a = Crash" "e = ValueError \<or> e = RecursionError" by (cases a; simp)+
  from a(1) have "phase_of (ss_state ss') = phase_of (ss_state ss)
      \<and> (phase_of (ss_state ss), f_type f) \<in> {(P_New, HELLO), (P_Ready, ERROR)}"
    unfolding e(1) by (cases rule: spec_step.cases) (auto simp: spec_state_def spec_event_def)
  then show ?thesis
    using e(2) ss ok by (cases "ss_state ss"; cases "ss_state ss'") (auto simp: session_ok_def)
qed

lemma on_frame_long_int:
  assumes "0 < json_depth env" "INT_MAX_STR_DIGITS < n" "0 \<le> s"
  shows "on_frame env rng (mk_frame HELLO s (map word_of_nat (long_int_doc n)) 0) (new_session rng0) =
    (Inl ValueError, (new_session rng0)\<lparr>ss_last_peer_seq := s\<rparr>)"
  using load_long_int [OF assms(2,1)] assms(3)
  by (simp add: on_frame_def dispatch_def on_hello_def decode_hello_def new_session_def)

theorem on_frame_escapes_witness:
  "ss_state (snd (on_frame py_env0 (\<lambda>n. replicate n 0)
      (mk_frame HELLO 0 (map word_of_nat (long_int_doc 4301)) 0) (new_session (\<lambda>n. replicate n 0)))) = NEW"
proof -
  let ?f = "mk_frame HELLO 0 (map word_of_nat (long_int_doc 4301)) 0"
  let ?ss = "new_session (\<lambda>n. replicate n 0)"
  have f: "frame_ok ?f" by (simp add: frame_ok_def MAX_SEQ_def MAX_PAYLOAD_def long_int_doc_def)
  have on: "on_frame py_env0 (\<lambda>n. replicate n 0) ?f ?ss = (Inl ValueError, ?ss\<lparr>ss_last_peer_seq := 0\<rparr>)"
    by (rule on_frame_long_int) (simp_all add: py_env0_def INT_MAX_STR_DIGITS_def)
  have "ss_state (?ss\<lparr>ss_last_peer_seq := 0\<rparr>) = ss_state ?ss"
    using on_frame_escapes [OF session_reach.fresh f zeros_ok on] by blast
  then show ?thesis unfolding on by (simp add: new_session_def)
qed

text \<open>
  C36. Contrary to its docstring, \<open>on_frame\<close> can raise: a HELLO of a peer that holds the key, whose
  JSON object contains an integer literal above the interpreter's digit limit, raises
  \<^verbatim>\<open>ValueError\<close> and leaves the session in NEW.
\<close>

theorem on_frame_can_raise:
  assumes "0 < json_depth env" "INT_MAX_STR_DIGITS < n" "0 \<le> s"
  shows "\<exists>ss'. on_frame env rng (mk_frame HELLO s (map word_of_nat (long_int_doc n)) 0) (new_session rng0)
      = (Inl ValueError, ss') \<and> ss_state ss' = NEW"
  using on_frame_long_int [OF assms] by (simp add: new_session_def)

theorem on_frame_can_raise_witness:
  "fst (on_frame py_env0 (\<lambda>_. []) (mk_frame HELLO 7 (map word_of_nat (long_int_doc 5000)) 0)
     (new_session (\<lambda>_. []))) = Inl ValueError"
  using on_frame_can_raise [of py_env0 5000 7 "\<lambda>_. []" "\<lambda>_. []"]
  by (auto simp: py_env0_def INT_MAX_STR_DIGITS_def)

text \<open>
  C7. A fresh session is open after a run of frames exactly if the run is a conversation: a HELLO
  whose payload decodes, then only PING, PONG, DATA and ACK frames, with sequence numbers that
  strictly increase throughout. (Rules 1, 2 and 3 of the specification's table, in both
  directions.)
\<close>

theorem open_iff_conversation:
  assumes "list_all frame_ok fs" "rng_ok rng"
  shows "(\<exists>gs ss'. run_frames env rng fs (new_session rng0) = (gs, None, ss') \<and> ss_state ss' = READY)
    \<longleftrightarrow> conversation env fs"
  using run_conversation [of env fs rng rng0] run_ready_conversation [of env rng fs rng0] assms
  by blast

theorem open_iff_conversation_witness:
  "\<not> (\<exists>gs ss'. run_frames py_env0 (\<lambda>n. replicate n 0) [mk_frame PING 5 [] 0] (new_session (\<lambda>n. replicate n 0))
      = (gs, None, ss') \<and> ss_state ss' = READY)"
  using open_iff_conversation [of "[mk_frame PING 5 [] 0]" "\<lambda>n. replicate n 0" py_env0] ping_ok zeros_ok
  by (simp add: conversation_def)

lemma hello_ack_decodes:
  assumes "encode_hello_ack rng (ss_id (new_session rng0)) None = Inr p" "0 < json_depth env"
  shows "decode_hello_ack env p = Inr (ss_id (new_session rng0), new_nonce rng)"
proof -
  have "list_all scalar (ss_id (new_session rng0))"
    using new_session_ok [of rng0] by (auto simp: session_ok_def list_all_iff scalar_def)
  then show ?thesis
    using hello_ack.dec_of_enc [where x = "(ss_id (new_session rng0), None)" and env = env and rng = rng and p = p]
      assms nonce_scalar(2) [of rng] by (simp add: nonce_or_new_def)
qed

lemma conversation_replies_aux:
  assumes "conversation env fs" "list_all frame_ok fs" "rng_ok rng" "0 < json_depth env"
  shows "\<exists>g gs ss'. run_frames env rng fs (new_session rng0) = (g # gs, None, ss')
    \<and> f_type g = HELLO_ACK
    \<and> decode_hello_ack env (f_payload g) = Inr (ss_id (new_session rng0), new_nonce rng)
    \<and> map (\<lambda>g. (f_type g, f_payload g)) gs = concat (map echo (tl fs))
    \<and> numbered 0 (g # gs)"
proof -
  obtain p gs ss' where r: "encode_hello_ack rng (ss_id (new_session rng0)) None = Inr p"
    "run_frames env rng fs (new_session rng0) = (mk_frame HELLO_ACK 0 p 0 # gs, None, ss')"
    "map (\<lambda>g. (f_type g, f_payload g)) gs = concat (map echo (tl fs))" "numbered 1 gs"
    using run_conversation [OF assms(1-3)] by blast
  have "decode_hello_ack env p = Inr (ss_id (new_session rng0), new_nonce rng)"
    using hello_ack_decodes [OF r(1) assms(4)] .
  moreover have "numbered 0 (mk_frame HELLO_ACK 0 p 0 # gs)"
    using r(4) by (simp add: numbered_Cons and_MAX_SEQ MAX_SEQ_def)
  ultimately show ?thesis using r(2,3) by auto
qed

text \<open>
  C8. What a conversation is answered with: first a HELLO_ACK that decodes to the session's id,
  then, in order, a PONG for each PING and a DATA for each DATA with the same payload, and nothing
  else. The server's own frames are numbered 0, 1, 2 and so on without gaps, modulo \<open>2 ^ 32\<close>.
\<close>

theorem conversation_replies:
  assumes "conversation env fs" "list_all frame_ok fs" "rng_ok rng" "0 < json_depth env"
  shows "\<exists>g gs ss'. run_frames env rng fs (new_session rng0) = (g # gs, None, ss')
    \<and> f_type g = HELLO_ACK
    \<and> decode_hello_ack env (f_payload g) = Inr (ss_id (new_session rng0), new_nonce rng)
    \<and> map (\<lambda>g. (f_type g, f_payload g)) gs = concat (map echo (tl fs))
    \<and> numbered 0 (g # gs)"
  using assms by (rule conversation_replies_aux)

text \<open>A concrete conversation for the witnesses: a HELLO and one DATA frame.\<close>

definition hello0 :: frame where
  "hello0 = mk_frame HELLO 0 (projr (encode_hello (\<lambda>n. replicate n 0) [97] None)) 0"

lemma hello0_ok: "frame_ok hello0 \<and> (\<exists>x. decode_hello py_env0 (f_payload hello0) = Inr x)"
proof -
  obtain p where p: "encode_hello (\<lambda>n. replicate n 0) [97] None = Inr p" "length p \<le> 20000"
    using encode_hello_fits [of "[97]" "\<lambda>n. replicate n 0"] by auto
  have "decode_hello py_env0 p = Inr ([97], nonce_or_new (\<lambda>n. replicate n 0) None)"
    using hello.dec_of_enc [where x = "([97], None)" and env = py_env0 and rng = "\<lambda>n. replicate n 0" and p = p]
      p(1) nonce_scalar(2) by (simp add: py_env0_def scalar_def)
  with p show ?thesis by (simp add: hello0_def frame_ok_def MAX_SEQ_def MAX_PAYLOAD_def)
qed

lemma conversation0: "conversation py_env0 [hello0, mk_frame DATA 1 [7] 0]"
  "list_all frame_ok [hello0, mk_frame DATA 1 [7] 0]"
  using hello0_ok
  by (auto simp: conversation_def hello0_def echoed_def frame_ok_def MAX_SEQ_def MAX_PAYLOAD_def)

theorem conversation_replies_witness:
  "\<exists>g gs ss'. run_frames py_env0 (\<lambda>n. replicate n 0) [hello0, mk_frame DATA 1 [7] 0]
      (new_session (\<lambda>n. replicate n 0)) = (g # gs, None, ss')
    \<and> map (\<lambda>g. (f_type g, f_payload g)) gs = [(DATA, [7])]"
  using conversation_replies [OF conversation0 zeros_ok, of "\<lambda>n. replicate n 0"]
  by (auto simp: py_env0_def echo_def)

text \<open>
  Within a connection a replay is refused: if a frame of a conversation arrives again, the
  session answers with an ERROR frame that decodes to \<open>ERR_SEQ\<close>, and is closed.
\<close>

theorem replay_refused:
  assumes "conversation env fs" "list_all frame_ok fs" "rng_ok rng" "0 < json_depth env" "f \<in> set fs"
  shows "\<exists>gs g m ss'. run_frames env rng (fs @ [f]) (new_session rng0) = (gs @ [g], None, ss')
    \<and> f_type g = ERROR \<and> decode_error env (f_payload g) = Inr (ERR_SEQ, m) \<and> ss_state ss' = CLOSED"
proof -
  obtain gs ss1 where r: "run_frames env rng fs (new_session rng0) = (gs, None, ss1)" "ss_state ss1 = READY"
    using run_conversation [OF assms(1-3)] by blast
  have ok: "session_ok ss1" by (rule run_session_ok [OF r(1) new_session_ok assms(2,3)])
  have f: "frame_ok f" using assms(2,5) by (simp add: list_all_iff)
  have "f_seq f \<le> ss_last_peer_seq ss1"
    by (rule conversation_last_seq [OF r assms(2,3,5)])
  then obtain p m ss' where e: "encode_error ERR_SEQ m = Inr p" "wire_text m" "ss_state ss' = CLOSED"
    "on_frame env rng f ss1 = (Inr (reply ERROR p True (Some (error_text ERR_SEQ m)) ss1), ss')"
    using on_frame_stale [OF _ _ ok f] r(2) by blast
  have "list_all scalar m" using e(2) by (auto simp: wire_text_def list_all_iff scalar_def)
  then have "decode_error env p = Inr (ERR_SEQ, m)"
    using error_msg.dec_of_enc [where x = "(ERR_SEQ, m)" and env = env and p = p] e(1) assms(4) by simp
  moreover have "run_frames env rng (fs @ [f]) (new_session rng0) =
      (gs @ [mk_frame ERROR (ss_out_seq ss1) p 0], None, ss')"
    using run_frames_append [OF r(1) _ new_session_ok assms(2,3), of "[f]"] r(2) e(4)
    by (simp add: reply_def)
  ultimately show ?thesis using e(3) by auto
qed

theorem replay_refused_witness:
  "\<exists>gs g m ss'. run_frames py_env0 (\<lambda>n. replicate n 0) ([hello0, mk_frame DATA 1 [7] 0] @ [hello0])
      (new_session (\<lambda>n. replicate n 0)) = (gs @ [g], None, ss') \<and> f_type g = ERROR"
  using replay_refused [OF conversation0 zeros_ok, of hello0 "\<lambda>n. replicate n 0"]
  by (simp add: py_env0_def) blast

text \<open>
  Across connections nothing is refused (the gap that section 8.4 of the specification
  records): a conversation captured on one session and replayed byte for byte on another fresh
  session, whatever its id and nonces, is accepted to the end and answered with the same echoes.
\<close>

theorem replay_across_sessions_accepted:
  assumes "run_frames env rng1 fs (new_session id1) = (gs1, None, ss1)" "ss_state ss1 = READY"
    "list_all frame_ok fs" "rng_ok rng1" "rng_ok rng2"
  shows "\<exists>gs2 ss2. run_frames env rng2 fs (new_session id2) = (gs2, None, ss2) \<and> ss_state ss2 = READY
    \<and> map (\<lambda>g. (f_type g, f_payload g)) (tl gs2) = map (\<lambda>g. (f_type g, f_payload g)) (tl gs1)"
proof -
  have conv: "conversation env fs" by (rule run_ready_conversation [OF assms(1-4)])
  show ?thesis
    using run_conversation [OF conv assms(3,4), of id1] run_conversation [OF conv assms(3,5), of id2]
      assms(1) by auto
qed

theorem replay_across_sessions_accepted_witness:
  "\<exists>gs2 ss2. run_frames py_env0 (\<lambda>n. replicate n 1) [hello0, mk_frame DATA 1 [7] 0]
     (new_session (\<lambda>n. replicate n 1)) = (gs2, None, ss2) \<and> ss_state ss2 = READY"
proof -
  obtain gs ss where "run_frames py_env0 (\<lambda>n. replicate n 0) [hello0, mk_frame DATA 1 [7] 0]
      (new_session (\<lambda>n. replicate n 0)) = (gs, None, ss)" "ss_state ss = READY"
    using run_conversation [OF conversation0 zeros_ok] by blast
  from replay_across_sessions_accepted [OF this conversation0(2) zeros_ok, of "\<lambda>n. replicate n 1" "\<lambda>n. replicate n 1"]
  show ?thesis by (auto simp: rng_ok_def)
qed

end
