(* ===== verification/Server.thy ===== *)
theory Server
  imports Reader Session_Runs
begin

text \<open>
  \<^verbatim>\<open>src/wireline/server.py\<close>: the handling of one accepted TCP connection. The connection is
  its stream reader; what the server writes is the list of encoded frames it hands to the
  transport. A reset or a broken pipe while writing is caught and logged by \<^verbatim>\<open>_send\<close>, so it
  changes nothing in this model; the time that \<^verbatim>\<open>drain\<close> may wait for flow control is not
  modelled. Sockets, TLS and logging are outside.
\<close>

section \<open>The server's state and one connection\<close>

record server =
  sv_secret :: bytes
  sv_idle_timeout :: rat
  sv_handshake_timeout :: rat
  sv_connections :: nat

definition DEFAULT_IDLE_TIMEOUT :: rat where "DEFAULT_IDLE_TIMEOUT = 30"
definition DEFAULT_HANDSHAKE_TIMEOUT :: rat where "DEFAULT_HANDSHAKE_TIMEOUT = 5"

definition new_server :: "bytes \<Rightarrow> server" where
  "new_server secret =
     \<lparr>sv_secret = secret, sv_idle_timeout = DEFAULT_IDLE_TIMEOUT,
      sv_handshake_timeout = DEFAULT_HANDSHAKE_TIMEOUT, sv_connections = 0\<rparr>"

text \<open>How a connection's handler ends: in its loop, or in one of its three except clauses.\<close>

datatype conn_end = Finished | Peer_closed | Connection_reset | Unhandled exn

definition except_clause :: "exn \<Rightarrow> conn_end" where
  "except_clause e =
     (case e of IncompleteReadError \<Rightarrow> Peer_closed | ConnectionResetError \<Rightarrow> Connection_reset
      | _ \<Rightarrow> Unhandled e)"

definition send_frame :: "bytes \<Rightarrow> frame \<Rightarrow> bytes list \<Rightarrow> bytes list res" where
  "send_frame secret f out = rbind (encode f secret) (\<lambda>raw. Inr (out @ [raw]))"

text \<open>\<^verbatim>\<open>_apply\<close>: the frames sent before an exception stay sent.\<close>

fun apply_frames :: "bytes \<Rightarrow> frame list \<Rightarrow> bytes list \<Rightarrow> exn option \<times> bytes list" where
  "apply_frames secret [] out = (None, out)"
| "apply_frames secret (f # fs) out =
     (case send_frame secret f out of
        Inl e \<Rightarrow> (Some e, out)
      | Inr out' \<Rightarrow> apply_frames secret fs out')"

definition conn_timeout :: "server \<Rightarrow> server_session \<Rightarrow> rat" where
  "conn_timeout sv ss =
     (if ss_state ss = NEW then sv_handshake_timeout sv else sv_idle_timeout sv)"

definition apply_last ::
  "bytes \<Rightarrow> reaction \<Rightarrow> server_session \<Rightarrow> reader \<Rightarrow> bytes list \<Rightarrow> conn_end \<times> server_session \<times> reader \<times> bytes list"
where
  "apply_last secret ra ss rd out =
     (case apply_frames secret (ra_frames ra) out of
        (None, out') \<Rightarrow> (Finished, ss, rd, out')
      | (Some e, out') \<Rightarrow> (except_clause e, ss, rd, out'))"

function serve_loop ::
  "py_env \<Rightarrow> (nat \<Rightarrow> bytes) \<Rightarrow> server \<Rightarrow> server_session \<Rightarrow> reader \<Rightarrow> bytes list
     \<Rightarrow> conn_end \<times> server_session \<times> reader \<times> bytes list"
where
  "serve_loop env rng sv ss rd out =
     (if ss_state ss = CLOSING \<or> ss_state ss = CLOSED then (Finished, ss, rd, out)
      else
        case wait_frame (sv_secret sv) (conn_timeout sv ss) rd of
          (Inl TimeoutError, rd') \<Rightarrow>
            (case on_idle_timeout ss of (ra, ss') \<Rightarrow> apply_last (sv_secret sv) ra ss' rd' out)
        | (Inl (ProtocolError c m), rd') \<Rightarrow>
            (case on_protocol_error c m ss of
               (Inl e, ss') \<Rightarrow> (except_clause e, ss', rd', out)
             | (Inr ra, ss') \<Rightarrow> apply_last (sv_secret sv) ra ss' rd' out)
        | (Inl e, rd') \<Rightarrow> (except_clause e, ss, rd', out)
        | (Inr f, rd') \<Rightarrow>
            (case on_frame env rng f ss of
               (Inl e, ss') \<Rightarrow> (except_clause e, ss', rd', out)
             | (Inr ra, ss') \<Rightarrow>
                 (case apply_frames (sv_secret sv) (ra_frames ra) out of
                    (Some e, out') \<Rightarrow> (except_clause e, ss', rd', out')
                  | (None, out') \<Rightarrow>
                      if ra_close ra then (Finished, ss', rd', out')
                      else serve_loop env rng sv ss' rd' out')))"
  by pat_completeness auto
termination
  by (relation "measure (\<lambda>(env, rng, sv, ss, rd, out). pending rd)")
    (auto dest: sym [THEN wait_frame_progress])

declare serve_loop.simps [simp del]

text \<open>\<^verbatim>\<open>_handle\<close>: \<open>rng0\<close> is the randomness of the session id, \<open>rng\<close> that of the nonce.\<close>

definition handle ::
  "py_env \<Rightarrow> (nat \<Rightarrow> bytes) \<Rightarrow> (nat \<Rightarrow> bytes) \<Rightarrow> server \<Rightarrow> reader
     \<Rightarrow> (conn_end \<times> server_session \<times> reader \<times> bytes list) \<times> server"
where
  "handle env rng0 rng sv rd =
     (serve_loop env rng sv (new_session rng0) rd [],
      sv\<lparr>sv_connections := sv_connections sv + 1\<rparr>)"

end
