(* ===== verification/Server_Facts.thy ===== *)
theory Server_Facts
  imports Server
begin

text \<open>
  Lemmas on the connection handler: what reading can raise, what it writes, that on a stream of
  encoded frames it is the session's run, and the properties of a connection.
\<close>

section \<open>Writing\<close>

text \<open>The encoding of a well-formed frame under a key.\<close>

definition wire :: "bytes \<Rightarrow> frame \<Rightarrow> bytes" where
  "wire key f = frame_bytes f (frame_mac f key)"

lemma encode_wire: "frame_ok f \<Longrightarrow> encode f key = Inr (wire key f)"
  by (simp add: wire_def encode_frame_ok)

lemma decode_wire: "frame_ok f \<Longrightarrow> decode (wire key f) (Some key) = Inr f"
  by (auto simp: wire_def decode_eq_Inr_iff mac_ok_def)

lemma apply_frames_ok:
  "list_all frame_ok fs \<Longrightarrow> apply_frames key fs out = (None, out @ map (wire key) fs)"
  by (induction fs arbitrary: out) (simp_all add: send_frame_def encode_wire)

lemma apply_last_ok:
  "list_all frame_ok (ra_frames ra) \<Longrightarrow>
     apply_last key ra ss rd out = (Finished, ss, rd, out @ map (wire key) (ra_frames ra))"
  by (simp add: apply_last_def apply_frames_ok)

lemma on_frame_replies_ok:
  "session_ok ss \<Longrightarrow> frame_ok f \<Longrightarrow> rng_ok rng \<Longrightarrow> on_frame env rng f ss = (r, ss') \<Longrightarrow>
     session_ok ss' \<and> (case r of Inl e \<Rightarrow> e = ValueError \<or> e = RecursionError
       | Inr ra \<Rightarrow> list_all frame_ok (ra_frames ra))"
  using on_frame_step_ok [of ss f rng env]
  by (fastforce simp: step_ok_def elim!: meets.elims split: sum.splits)

lemma on_protocol_error_outcome:
  assumes "wire_text m" "session_ok ss"
  shows "\<exists>g ss'. on_protocol_error c m ss =
      (Inr \<lparr>ra_frames = [g], ra_close = True, ra_reason = Some (error_text c m)\<rparr>, ss')
    \<and> frame_ok g \<and> f_type g = ERROR \<and> encode_error c m = Inr (f_payload g)
    \<and> session_ok ss' \<and> ss_state ss' = CLOSED \<and> ss_client_id ss' = ss_client_id ss"
proof -
  obtain p where p: "encode_error c m = Inr p" "length p \<le> MAX_PAYLOAD"
    "ss_error c m ss = (Inr (reply ERROR p True (Some (error_text c m)) ss),
      ss\<lparr>ss_state := CLOSED, ss_out_seq := (ss_out_seq ss + 1) AND MAX_SEQ\<rparr>)"
    using ss_error_outcome [OF assms(1)] by blast
  have "session_ok (ss\<lparr>ss_state := CLOSED, ss_out_seq := (ss_out_seq ss + 1) AND MAX_SEQ\<rparr>)"
    using assms(2) by (simp add: session_ok_def next_seq_bounds)
  with p reply_frame_ok [OF assms(2) p(2), of ERROR True "Some (error_text c m)"] show ?thesis
    by (auto simp: on_protocol_error_def reply_def)
qed

section \<open>Reading\<close>

definition read_exn :: "exn \<Rightarrow> bool" where
  "read_exn e \<longleftrightarrow> e \<in> {TimeoutError, IncompleteReadError, ConnectionResetError}
     \<or> (\<exists>c m. e = ProtocolError c m \<and> wire_text m)"

lemma wait_bytes_Inl:
  "wait_bytes n d buf eof now es = (Inl e, rd) \<Longrightarrow>
     e \<in> {TimeoutError, IncompleteReadError, ConnectionResetError}"
proof (induction n d buf eof now es rule: wait_bytes.induct)
  case (2 n deadline buf eof now t ev es)
  then show ?case by (cases ev) (auto split: if_split_asm)
qed (auto split: if_split_asm)

lemma readexactly_Inl:
  "readexactly n d rd = (Inl e, rd') \<Longrightarrow> e \<in> {TimeoutError, IncompleteReadError, ConnectionResetError}"
  by (auto simp: readexactly_def split: if_split_asm dest: wait_bytes_Inl)

lemma read_frame_Inl:
  assumes "read_frame key d rd = (Inl e, rd')"
  shows "read_exn e"
proof (cases "e \<in> {TimeoutError, IncompleteReadError, ConnectionResetError}")
  case True
  then show ?thesis by (simp add: read_exn_def)
next
  case False
  with assms obtain raw rd1 where r1: "readexactly 19 d rd = (Inr raw, rd1)"
    by (auto simp: read_frame_def split: prod.split_asm sum.split_asm dest: readexactly_Inl)
  then have raw: "length raw = 19" by (auto dest: readexactly_pending)
  have proto: "read_exn e" if "is_protocol_error e" "\<And>c m. e = ProtocolError c m \<Longrightarrow> wire_text m"
    using that by (auto simp: read_exn_def elim: is_protocol_errorE)
  show ?thesis
  proof (cases "decode_header raw")
    case (Inl e')
    with assms r1 have "decode_header raw = Inl e" by (simp add: read_frame_def)
    with raw show ?thesis by (intro proto) (auto dest: decode_header_Inl decode_header_text)
  next
    case (Inr h)
    have h: "h_length h < 10 ^ 20"
      using decode_header_InrD(1) [OF Inr] by (simp add: header_ok_def MAX_PAYLOAD_def)
    from assms r1 Inr False obtain p rd2 mac rd3 where
      p: "(if h_length h \<noteq> 0 then readexactly (h_length h) d rd1 else (Inr [], rd1)) = (Inr p, rd2)"
      and mac: "readexactly 32 d rd2 = (Inr mac, rd3)"
      and e: "decode_frame raw p mac (Some key) = Inl e"
      by (auto simp: read_frame_def split: prod.split_asm sum.split_asm if_split_asm dest: readexactly_Inl)
    have "length p = h_length h" "length mac = 32"
      using p mac by (auto dest: readexactly_pending split: if_split_asm)
    with e raw h show ?thesis
      by (intro proto) (auto dest: decode_frame_Inl decode_frame_text)
  qed
qed

lemma read_frame_Inr: "read_frame key d rd = (Inr f, rd') \<Longrightarrow> frame_ok f"
  by (auto simp: read_frame_def decode_frame_eq_Inr_iff split: prod.split_asm sum.split_asm if_split_asm)

lemma wait_frame_Inl: "wait_frame key timeout rd = (Inl e, rd') \<Longrightarrow> read_exn e"
  unfolding wait_frame_def by (rule read_frame_Inl)

lemma wait_frame_Inr: "wait_frame key timeout rd = (Inr f, rd') \<Longrightarrow> frame_ok f"
  unfolding wait_frame_def by (rule read_frame_Inr)

section \<open>Any connection\<close>

definition sent_frames :: "bytes \<Rightarrow> bytes list \<Rightarrow> bool" where
  "sent_frames key out \<longleftrightarrow> (\<exists>gs. list_all frame_ok gs \<and> out = map (wire key) gs)"

lemma sent_frames_append:
  "sent_frames key out \<Longrightarrow> list_all frame_ok gs \<Longrightarrow> sent_frames key (out @ map (wire key) gs)"
  unfolding sent_frames_def by (metis list_all_append map_append)

definition end_ok :: "conn_end \<Rightarrow> bool" where
  "end_ok r \<longleftrightarrow> r \<in> {Finished, Peer_closed, Connection_reset, Unhandled ValueError, Unhandled RecursionError}"

lemma serve_loop_read_failed:
  assumes run: "serve_loop env rng sv ss rd out = (r, ss', rd', out')" and ok: "session_ok ss" "sent_frames (sv_secret sv) out"
    and op: "\<not> (ss_state ss = CLOSING \<or> ss_state ss = CLOSED)"
    and w: "wait_frame (sv_secret sv) (conn_timeout sv ss) rd = (Inl e, rd1)"
  shows "end_ok r \<and> session_ok ss' \<and> sent_frames (sv_secret sv) out' \<and> (r = Finished \<longrightarrow> ss_state ss' = CLOSED)"
proof -
  consider (proto) c m where "e = ProtocolError c m" "wire_text m" | (time) "e = TimeoutError"
    | (other) "e = IncompleteReadError \<or> e = ConnectionResetError"
    using wait_frame_Inl [OF w] by (auto simp: read_exn_def)
  then show ?thesis
  proof cases
    case proto
    obtain g s1 where g: "on_protocol_error c m ss =
        (Inr \<lparr>ra_frames = [g], ra_close = True, ra_reason = Some (error_text c m)\<rparr>, s1)"
      "frame_ok g" "session_ok s1" "ss_state s1 = CLOSED"
      using on_protocol_error_outcome [OF proto(2) ok(1), of c] by blast
    with run op w proto have "(Finished, s1, rd1, out @ [wire (sv_secret sv) g]) = (r, ss', rd', out')"
      by (subst (asm) serve_loop.simps) (simp add: apply_last_ok)
    with g sent_frames_append [OF ok(2), of "[g]"] show ?thesis by (auto simp: end_ok_def)
  next
    case time
    with run op w ok session_ok_closed show ?thesis
      by (subst (asm) serve_loop.simps)
        (auto simp: apply_last_def on_idle_timeout_def end_ok_def)
  next
    case other
    with run op w ok show ?thesis
      by (subst (asm) serve_loop.simps) (auto simp: except_clause_def end_ok_def)
  qed
qed

lemma serve_loop_safe:
  "serve_loop env rng sv ss rd out = (r, ss', rd', out') \<Longrightarrow> session_ok ss \<Longrightarrow> rng_ok rng \<Longrightarrow>
     sent_frames (sv_secret sv) out \<Longrightarrow>
     end_ok r \<and> session_ok ss' \<and> sent_frames (sv_secret sv) out' \<and> (r = Finished \<longrightarrow> ss_state ss' = CLOSED)"
proof (induction env rng sv ss rd out rule: serve_loop.induct)
  case (1 env rng sv ss rd out)
  note ok = "1.prems"(2-4)
  show ?case
  proof (cases "ss_state ss = CLOSING \<or> ss_state ss = CLOSED")
    case True
    with "1.prems" show ?thesis
      by (subst (asm) serve_loop.simps) (auto simp: end_ok_def session_ok_def)
  next
    case open': False
    obtain res rd1 where w: "wait_frame (sv_secret sv) (conn_timeout sv ss) rd = (res, rd1)"
      by (cases "wait_frame (sv_secret sv) (conn_timeout sv ss) rd")
    show ?thesis
    proof (cases res)
      case (Inl e)
      from serve_loop_read_failed [OF "1.prems"(1) ok(1,3) open' w [unfolded Inl]] show ?thesis .
    next
      case (Inr f)
      with w have f: "frame_ok f" by (auto dest: wait_frame_Inr)
      obtain rr ss1 where on: "on_frame env rng f ss = (rr, ss1)" by (cases "on_frame env rng f ss")
      note rep = on_frame_replies_ok [OF ok(1) f ok(2) on]
      show ?thesis
      proof (cases rr)
        case (Inl e)
        with "1.prems"(1) open' w Inr on rep ok show ?thesis
          by (subst (asm) serve_loop.simps) (auto simp: except_clause_def end_ok_def)
      next
        case ra: (Inr ra)
        with rep have ap: "apply_frames (sv_secret sv) (ra_frames ra) out =
            (None, out @ map (wire (sv_secret sv)) (ra_frames ra))" by (simp add: apply_frames_ok)
        have out: "sent_frames (sv_secret sv) (out @ map (wire (sv_secret sv)) (ra_frames ra))"
          using rep ra ok(3) by (simp add: sent_frames_append)
        show ?thesis
        proof (cases "ra_close ra")
          case True
          with on_frame_close [OF on [unfolded ra] True ok(1) f ok(2)] "1.prems"(1) open' w Inr on ra ap out rep
          show ?thesis by (subst (asm) serve_loop.simps) (auto simp: end_ok_def)
        next
          case False
          with "1.prems"(1) open' w Inr on ra ap
          have "serve_loop env rng sv ss1 rd1 (out @ map (wire (sv_secret sv)) (ra_frames ra)) = (r, ss', rd', out')"
            by (subst (asm) serve_loop.simps) simp
          with "1.IH" [OF open' w [symmetric] Inr on [symmetric] ra ap [symmetric] refl False] rep ok(2) out
          show ?thesis by simp
        qed
      qed
    qed
  qed
qed

section \<open>A stream of encoded frames\<close>

text \<open>The bytes a reader holds or will still get, and whether they all arrive in time.\<close>

definition stream :: "reader \<Rightarrow> bytes" where
  "stream rd = rd_buf rd @ chunk_bytes (rd_events rd)"

definition in_time :: "server \<Rightarrow> reader \<Rightarrow> bool" where
  "in_time sv rd \<longleftrightarrow> 0 \<le> sv_idle_timeout sv \<and> 0 \<le> sv_handshake_timeout sv
     \<and> punctual (rd_now rd + min (sv_idle_timeout sv) (sv_handshake_timeout sv)) rd"

lemma conn_timeout_bounds:
  assumes "in_time sv rd"
  shows "rd_now rd + min (sv_idle_timeout sv) (sv_handshake_timeout sv) \<le> rd_now rd + conn_timeout sv ss"
    "0 \<le> conn_timeout sv ss"
  using assms by (auto simp: in_time_def conn_timeout_def)

lemma punctual_mono: "punctual T rd \<Longrightarrow> T \<le> T' \<Longrightarrow> punctual T' rd"
  by (auto simp: punctual_def list_all_iff elim!: on_timeE)

lemma wait_frame_prompt:
  assumes "punctual (rd_now rd + d) rd" "d \<le> timeout" "0 \<le> timeout" "stream rd = wire key f @ b" "frame_ok f"
  shows "\<exists>rd'. wait_frame key timeout rd = (Inr f, rd') \<and> punctual (rd_now rd' + d) rd' \<and> stream rd' = b"
proof -
  let ?T = "rd_now rd + d"
  let ?d = "rd_now rd + timeout"
  have d: "?T \<le> ?d" using assms(2) by simp
  have "pop \<lparr>fb_buf = avail ?d rd, fb_secret = Some key\<rparr> =
      (Inr (Some f), \<lparr>fb_buf = b, fb_secret = Some key\<rparr>)"
    using assms(4,5) avail_punctual(1) [OF assms(1) d]
    by (auto simp: pop_frame_iff stream_def wire_def mac_ok_def)
  from read_frame_pop_aux [OF this] obtain rd' where
    r: "read_frame key ?d rd = (Inr f, rd')" "avail ?d rd' = b" by auto
  have p': "punctual ?T rd'" using read_frame_punctual [OF r(1) assms(1)] .
  have "rd_now rd \<le> rd_now rd'" using read_frame_now [OF r(1)] assms(3) by simp
  then have "punctual (rd_now rd' + d) rd'" using punctual_mono [OF p'] by simp
  moreover have "stream rd' = b"
    using avail_punctual(1) [OF p' d] r(2) by (simp add: stream_def)
  ultimately show ?thesis using r(1) by (auto simp: wait_frame_def)
qed

lemma wait_frame_wire:
  assumes "in_time sv rd" "stream rd = wire (sv_secret sv) f @ b" "frame_ok f"
  shows "\<exists>rd'. wait_frame (sv_secret sv) (conn_timeout sv ss) rd = (Inr f, rd') \<and> in_time sv rd' \<and> stream rd' = b"
  using wait_frame_prompt [OF _ _ conn_timeout_bounds(2) [OF assms(1)] assms(2,3)]
    conn_timeout_bounds [OF assms(1), of ss] assms(1)
  by (auto simp: in_time_def)

lemma wait_frame_error:
  assumes "in_time sv rd" "pop \<lparr>fb_buf = stream rd, fb_secret = Some (sv_secret sv)\<rparr> = (r, fb')"
    "\<And>f. r \<noteq> Inr (Some f)"
  shows "\<exists>rd'. wait_frame (sv_secret sv) (conn_timeout sv ss) rd =
    ((case r of Inl e \<Rightarrow> Inl e | Inr _ \<Rightarrow> Inl TimeoutError), rd')"
proof -
  have p: "punctual (rd_now rd + min (sv_idle_timeout sv) (sv_handshake_timeout sv)) rd"
    using assms(1) by (simp add: in_time_def)
  note av = avail_punctual [OF p conn_timeout_bounds(1) [OF assms(1), of ss]]
  from read_frame_pop_aux [of "rd_now rd + conn_timeout sv ss" rd "sv_secret sv" r fb'] assms(2,3) av
  show ?thesis
    by (auto simp: wait_frame_def stream_def split: sum.split option.split)
qed

lemma serve_one:
  assumes "in_time sv rd" "stream rd = wire (sv_secret sv) f @ b" "frame_ok f" "session_ok ss"
    "ss_state ss \<noteq> CLOSED" "rng_ok rng"
  shows "\<exists>rd'. in_time sv rd' \<and> stream rd' = b \<and> serve_loop env rng sv ss rd out =
    (case on_frame env rng f ss of
       (Inl e, ss') \<Rightarrow> (except_clause e, ss', rd', out)
     | (Inr ra, ss') \<Rightarrow>
         if ra_close ra then (Finished, ss', rd', out @ map (wire (sv_secret sv)) (ra_frames ra))
         else serve_loop env rng sv ss' rd' (out @ map (wire (sv_secret sv)) (ra_frames ra)))"
proof -
  obtain rd' where w: "wait_frame (sv_secret sv) (conn_timeout sv ss) rd = (Inr f, rd')"
    "in_time sv rd'" "stream rd' = b" using wait_frame_wire [OF assms(1-3)] by blast
  obtain r ss' where on: "on_frame env rng f ss = (r, ss')" by (cases "on_frame env rng f ss")
  note rep = on_frame_replies_ok [OF assms(4,3,6) on]
  have "\<not> (ss_state ss = CLOSING \<or> ss_state ss = CLOSED)" using assms(4,5) by (auto simp: session_ok_def)
  with w on rep show ?thesis
    by (subst serve_loop.simps) (auto simp: apply_frames_ok split: sum.split)
qed

text \<open>After frames that leave the session open, the loop goes on with the bytes that follow them.\<close>

lemma serve_prefix:
  assumes "in_time sv rd" "stream rd = concat (map (wire (sv_secret sv)) fs) @ b" "list_all frame_ok fs"
    "session_ok ss" "rng_ok rng" "run_frames env rng fs ss = (gs, None, ss1)" "ss_state ss1 \<noteq> CLOSED"
  shows "\<exists>rd'. in_time sv rd' \<and> stream rd' = b \<and> serve_loop env rng sv ss rd out =
    serve_loop env rng sv ss1 rd' (out @ map (wire (sv_secret sv)) gs)"
  using assms
proof (induction fs arbitrary: rd ss gs out)
  case Nil
  then show ?case by auto
next
  case (Cons f fs)
  obtain r t where on: "on_frame env rng f ss = (r, t)" by (cases "on_frame env rng f ss")
  with Cons.prems(6) obtain ra where r: "r = Inr ra" by (cases r) auto
  have f: "frame_ok f" using Cons.prems(3) by simp
  have t: "session_ok t" using on_frame_replies_ok [OF Cons.prems(4) f Cons.prems(5) on] by simp
  have nc: "\<not> ra_close ra"
    using on_frame_close [of env rng f ss ra t] Cons.prems on r f by auto
  have "ss_state ss \<noteq> CLOSED"
    using nc on r by (auto simp: on_frame_def)
  then obtain rd' where rd': "in_time sv rd'" "stream rd' = concat (map (wire (sv_secret sv)) fs) @ b"
    "serve_loop env rng sv ss rd out =
       serve_loop env rng sv t rd' (out @ map (wire (sv_secret sv)) (ra_frames ra))"
    using serve_one [of sv rd f "concat (map (wire (sv_secret sv)) fs) @ b" ss rng env out] Cons.prems f on r nc
    by auto
  obtain hs where hs: "run_frames env rng fs t = (hs, None, ss1)" "gs = ra_frames ra @ hs"
    using Cons.prems(6) on r nc by (cases "run_frames env rng fs t") auto
  from Cons.IH [OF rd'(1,2) _ t Cons.prems(5) hs(1) Cons.prems(7),
      of "out @ map (wire (sv_secret sv)) (ra_frames ra)"] Cons.prems(3) hs(2) rd'(3)
  show ?case by simp
qed

text \<open>The first frame that closes the session ends the loop.\<close>

lemma serve_until_closed:
  assumes "in_time sv rd" "stream rd = concat (map (wire (sv_secret sv)) fs) @ b" "list_all frame_ok fs"
    "session_ok ss" "rng_ok rng" "run_frames env rng fs ss = (gs, x, ss1)" "ss_state ss \<noteq> CLOSED"
    "x \<noteq> None \<or> ss_state ss1 = CLOSED"
  shows "\<exists>rd'. serve_loop env rng sv ss rd out =
    ((case x of None \<Rightarrow> Finished | Some e \<Rightarrow> except_clause e), ss1, rd', out @ map (wire (sv_secret sv)) gs)"
  using assms
proof (induction fs arbitrary: rd ss gs out)
  case Nil
  then show ?case by auto
next
  case (Cons f fs)
  obtain r t where on: "on_frame env rng f ss = (r, t)" by (cases "on_frame env rng f ss")
  have f: "frame_ok f" using Cons.prems(3) by simp
  note rep = on_frame_replies_ok [OF Cons.prems(4) f Cons.prems(5) on]
  obtain rd' where rd': "in_time sv rd'" "stream rd' = concat (map (wire (sv_secret sv)) fs) @ b"
    "serve_loop env rng sv ss rd out =
     (case r of Inl e \<Rightarrow> (except_clause e, t, rd', out)
      | Inr ra \<Rightarrow>
         if ra_close ra then (Finished, t, rd', out @ map (wire (sv_secret sv)) (ra_frames ra))
         else serve_loop env rng sv t rd' (out @ map (wire (sv_secret sv)) (ra_frames ra)))"
    using serve_one [of sv rd f "concat (map (wire (sv_secret sv)) fs) @ b" ss rng env out] Cons.prems f on
    by auto
  show ?case
  proof (cases r)
    case (Inl e)
    with Cons.prems(6) on rd'(3) show ?thesis by auto
  next
    case (Inr ra)
    show ?thesis
    proof (cases "ra_close ra")
      case True
      with Cons.prems(6) on Inr rd'(3) show ?thesis by auto
    next
      case False
      obtain hs where hs: "run_frames env rng fs t = (hs, x, ss1)" "gs = ra_frames ra @ hs"
        using Cons.prems(6) on Inr False by (cases "run_frames env rng fs t") auto
      have "ss_state t \<noteq> CLOSED"
        using on_frame_step_ok [OF Cons.prems(4) f Cons.prems(5), of env] False on Inr Cons.prems(7)
        by (auto simp: step_ok_def spec_state_def elim!: spec_step.cases)
      from Cons.IH [OF rd'(1,2) _ _ Cons.prems(5) hs(1) this Cons.prems(8),
          of "out @ map (wire (sv_secret sv)) (ra_frames ra)"] Cons.prems(3) hs(2) rd'(3) Inr False rep
      show ?thesis by simp
    qed
  qed
qed

end
