(* ===== verification/Dedup.thy ===== *)
theory Dedup
  imports Server_Facts
begin

text \<open>
  \<^verbatim>\<open>src/wireline/transport/udp.py\<close>, the parts below the server and the client: the lossy link, the
  deduplication window and \<^verbatim>\<open>split_datagram\<close>. The locale \<open>reply_cache\<close> states what the UDP server
  relies on in a window; the window is an interpretation of it.
\<close>

section \<open>The lossy link\<close>

text \<open>\<open>ll_random n\<close> is the result of the \<open>n\<close>-th call of \<^verbatim>\<open>rng.random()\<close>.\<close>

record lossy_link =
  ll_loss_rate :: rat
  ll_random :: "nat \<Rightarrow> rat"
  ll_calls :: nat
  ll_dropped :: nat

definition ll_sendto :: "bytes \<Rightarrow> 'a \<Rightarrow> lossy_link \<Rightarrow> (bytes \<times> 'a) list \<times> lossy_link" where
  "ll_sendto data addr ll =
     (let ll' = ll\<lparr>ll_calls := ll_calls ll + 1\<rparr>
      in if ll_random ll (ll_calls ll) < ll_loss_rate ll
         then ([], ll'\<lparr>ll_dropped := ll_dropped ll + 1\<rparr>)
         else ([(data, addr)], ll'))"

fun ll_send_all :: "(bytes \<times> 'a) list \<Rightarrow> lossy_link \<Rightarrow> (bytes \<times> 'a) list \<times> lossy_link" where
  "ll_send_all [] ll = ([], ll)"
| "ll_send_all ((d, a) # ds) ll =
     (case ll_sendto d a ll of (out, ll1) \<Rightarrow>
        (case ll_send_all ds ll1 of (outs, ll2) \<Rightarrow> (out @ outs, ll2)))"

section \<open>The deduplication window\<close>

text \<open>The entries of the \<^verbatim>\<open>OrderedDict\<close>, oldest first.\<close>

record dedup_window =
  dw_size :: int
  dw_entries :: "(int \<times> bytes) list"

definition DEFAULT_DEDUP_WINDOW :: int where "DEFAULT_DEDUP_WINDOW = 256"

definition new_window :: "int \<Rightarrow> dedup_window" where
  "new_window n = \<lparr>dw_size = n, dw_entries = []\<rparr>"

definition dw_get :: "int \<Rightarrow> dedup_window \<Rightarrow> bytes option" where
  "dw_get seq dw = map_of (dw_entries dw) seq"

text \<open>The eviction loop: \<^verbatim>\<open>popitem\<close> on an empty dict raises \<^verbatim>\<open>KeyError\<close>.\<close>

fun dw_evict :: "int \<Rightarrow> (int \<times> bytes) list \<Rightarrow> unit res \<times> (int \<times> bytes) list" where
  "dw_evict n [] = (if 0 > n then (Inl KeyError, []) else (Inr (), []))"
| "dw_evict n (e # es) =
     (if int (length (e # es)) > n then dw_evict n es else (Inr (), e # es))"

definition dw_put :: "int \<Rightarrow> bytes \<Rightarrow> dedup_window \<Rightarrow> unit res \<times> dedup_window" where
  "dw_put seq data dw =
     (case dw_evict (dw_size dw) (filter (\<lambda>e. fst e \<noteq> seq) (dw_entries dw) @ [(seq, data)]) of
        (r, es) \<Rightarrow> (r, dw\<lparr>dw_entries := es\<rparr>))"

definition dw_contains :: "int \<Rightarrow> dedup_window \<Rightarrow> bool" where
  "dw_contains seq dw \<longleftrightarrow> seq \<in> fst ` set (dw_entries dw)"

definition dw_len :: "dedup_window \<Rightarrow> nat" where
  "dw_len dw = length (dw_entries dw)"

section \<open>A cache of replies as an interface\<close>

text \<open>
  What is kept of a reply once stored: it is found under its number at once, storing another
  reply ages it by at most one, and it is found as long as its age stays below the capacity.
  Storing never makes up or alters a reply.
\<close>

locale reply_cache =
  fixes valid :: "'c \<Rightarrow> bool" and capacity :: "'c \<Rightarrow> nat"
    and lookup :: "'k \<Rightarrow> 'c \<Rightarrow> 'v option" and age :: "'k \<Rightarrow> 'c \<Rightarrow> nat"
    and store :: "'k \<Rightarrow> 'v \<Rightarrow> 'c \<Rightarrow> 'c"
  assumes valid_store: "valid c \<Longrightarrow> valid (store k v c)"
    and capacity_store: "valid c \<Longrightarrow> capacity (store k v c) = capacity c"
    and lookup_store: "valid c \<Longrightarrow> lookup k (store k v c) = Some v"
    and age_store: "valid c \<Longrightarrow> age k (store k v c) = 0"
    and lookup_store_other: "valid c \<Longrightarrow> j \<noteq> k \<Longrightarrow> lookup j (store k v c) = Some w \<Longrightarrow> lookup j c = Some w"
    and kept: "valid c \<Longrightarrow> j \<noteq> k \<Longrightarrow> lookup j c = Some w \<Longrightarrow> age j c + 1 < capacity c \<Longrightarrow>
      lookup j (store k v c) = Some w \<and> age j (store k v c) \<le> age j c + 1"
begin

lemma valid_stores: "valid c \<Longrightarrow> valid (fold (\<lambda>(k, v). store k v) kvs c)"
  by (induction kvs arbitrary: c) (auto simp: valid_store)

text \<open>A reply survives storing fewer than \<open>capacity\<close> replies under other numbers.\<close>

lemma kept_stores:
  "valid c \<Longrightarrow> k \<notin> fst ` set kvs \<Longrightarrow> lookup k c = Some v \<Longrightarrow> age k c + length kvs < capacity c \<Longrightarrow>
     lookup k (fold (\<lambda>(k, v). store k v) kvs c) = Some v"
proof (induction kvs arbitrary: c)
  case Nil
  then show ?case by simp
next
  case (Cons kv kvs)
  obtain j w where kv: "kv = (j, w)" by (cases kv)
  have "lookup k (store j w c) = Some v \<and> age k (store j w c) \<le> age k c + 1"
    using Cons.prems by (intro kept) (auto simp: kv)
  with Cons.IH [of "store j w c"] Cons.prems show ?case
    by (auto simp: kv valid_store capacity_store)
qed

lemma recent_kept:
  "valid c \<Longrightarrow> k \<notin> fst ` set kvs \<Longrightarrow> length kvs < capacity c \<Longrightarrow>
     lookup k (fold (\<lambda>(k, v). store k v) kvs (store k v c)) = Some v"
  by (rule kept_stores) (simp_all add: valid_store lookup_store age_store capacity_store)

lemma lookup_stores_sound:
  "valid c \<Longrightarrow> lookup k (fold (\<lambda>(k, v). store k v) kvs c) = Some v \<Longrightarrow>
     lookup k c = Some v \<or> (k, v) \<in> set kvs"
proof (induction kvs arbitrary: c)
  case Nil
  then show ?case by simp
next
  case (Cons kv kvs)
  obtain j w where kv: "kv = (j, w)" by (cases kv)
  with Cons.IH [of "store j w c"] Cons.prems
  have "lookup k (store j w c) = Some v \<or> (k, v) \<in> set kvs" by (simp add: valid_store)
  with Cons.prems(1) show ?case
    by (cases "k = j") (auto simp: kv lookup_store dest: lookup_store_other)
qed

end

section \<open>The window is such a cache\<close>

text \<open>The number of entries younger than that of a number.\<close>

definition dw_age :: "int \<Rightarrow> dedup_window \<Rightarrow> nat" where
  "dw_age seq dw = length (takeWhile (\<lambda>e. fst e \<noteq> seq) (rev (dw_entries dw)))"

definition window_ok :: "dedup_window \<Rightarrow> bool" where
  "window_ok dw \<longleftrightarrow> 0 < dw_size dw \<and> distinct (map fst (dw_entries dw))
     \<and> int (length (dw_entries dw)) \<le> dw_size dw"

lemma dw_evict_drop:
  "0 \<le> n \<Longrightarrow> dw_evict n es = (Inr (), drop (length es - nat n) es)"
  by (induction es) (auto simp: Suc_diff_le nat_le_iff)

lemma dw_put_ok:
  assumes "0 \<le> dw_size dw"
  shows "dw_put seq data dw = (Inr (), dw\<lparr>dw_entries :=
    (let es = filter (\<lambda>e. fst e \<noteq> seq) (dw_entries dw) @ [(seq, data)]
     in drop (length es - nat (dw_size dw)) es)\<rparr>)"
  using assms by (simp add: dw_put_def dw_evict_drop Let_def)

lemma map_of_drop_distinct:
  assumes "distinct (map fst es)" "map_of (drop n es) k = Some v"
  shows "map_of es k = Some v"
proof -
  from assms(2) have "(k, v) \<in> set (drop n es)" by (rule map_of_SomeD)
  then have "(k, v) \<in> set es" by (rule in_set_dropD)
  with assms(1) show ?thesis by simp
qed

text \<open>An entry with fewer younger entries than are kept survives dropping the oldest.\<close>

lemma map_of_drop_young:
  assumes "distinct (map fst es)" "map_of es k = Some v"
    "length (takeWhile (\<lambda>e. fst e \<noteq> k) (rev es)) < length es - n"
  shows "map_of (drop n es) k = Some v"
    "takeWhile (\<lambda>e. fst e \<noteq> k) (rev (drop n es)) = takeWhile (\<lambda>e. fst e \<noteq> k) (rev es)"
proof -
  from assms(2) have "(k, v) \<in> set es" by (rule map_of_SomeD)
  then obtain xs ys where es: "es = xs @ (k, v) # ys" by (meson split_list)
  have ys: "\<forall>e \<in> set ys. fst e \<noteq> k" "k \<notin> fst ` set xs"
    using assms(1) by (auto simp: es)
  then have tw: "takeWhile (\<lambda>e. fst e \<noteq> k) (rev es) = rev ys"
    by (simp add: es takeWhile_append)
  with assms(3) have n: "n \<le> length xs" by (simp add: es)
  then have d: "drop n es = drop n xs @ (k, v) # ys" by (simp add: es)
  have "k \<notin> fst ` set (drop n xs)" using ys(2) set_drop_subset [of n xs] by auto
  then show "map_of (drop n es) k = Some v"
    by (simp add: d map_add_def map_of_eq_None_iff split: option.split)
      (metis map_of_eq_None_iff option.distinct(1))
  show "takeWhile (\<lambda>e. fst e \<noteq> k) (rev (drop n es)) = takeWhile (\<lambda>e. fst e \<noteq> k) (rev es)"
    using ys(1) tw by (simp add: d takeWhile_append)
qed

lemma dw_put_entries:
  assumes "window_ok dw"
  shows "snd (dw_put seq data dw) = dw\<lparr>dw_entries :=
    (let es = filter (\<lambda>e. fst e \<noteq> seq) (dw_entries dw) @ [(seq, data)]
     in drop (length es - nat (dw_size dw)) es)\<rparr>"
  using assms by (simp add: dw_put_ok window_ok_def)

lemma dw_put_ok_result: "window_ok dw \<Longrightarrow> fst (dw_put seq data dw) = Inr ()"
  by (simp add: dw_put_ok window_ok_def)

lemma put_distinct:
  "distinct (map fst es) \<Longrightarrow> distinct (map fst (filter (\<lambda>e. fst e \<noteq> seq) es @ [(seq, data)]))"
  by (induction es) auto

lemma map_of_filter_other: "j \<noteq> k \<Longrightarrow> map_of (filter (\<lambda>e. fst e \<noteq> k) es) j = map_of es j"
  by (induction es) auto

lemma length_takeWhile_less: "\<exists>x \<in> set xs. \<not> P x \<Longrightarrow> length (takeWhile P xs) < length xs"
  by (induction xs) auto

lemma takeWhile_found:
  assumes "map_of es k = Some v"
  shows "length (takeWhile (\<lambda>e. fst e \<noteq> k) (rev es)) < length es"
proof -
  from assms have "(k, v) \<in> set es" by (rule map_of_SomeD)
  then have "\<exists>e \<in> set (rev es). \<not> fst e \<noteq> k" by (intro bexI [of _ "(k, v)"]) simp_all
  then show ?thesis using length_takeWhile_less [of "rev es" "\<lambda>e. fst e \<noteq> k"] by simp
qed

lemma length_takeWhile_filter:
  "\<forall>x \<in> set xs. P x \<or> Q x \<Longrightarrow> length (takeWhile P (filter Q xs)) \<le> length (takeWhile P xs)"
proof (induction xs)
  case (Cons x xs)
  then show ?case by (cases "P x"; cases "Q x") simp_all
qed simp

interpretation window: reply_cache window_ok "\<lambda>dw. nat (dw_size dw)" dw_get dw_age "\<lambda>seq data dw. snd (dw_put seq data dw)"
proof
  fix dw seq data assume ok: "window_ok dw"
  let ?es = "filter (\<lambda>e. fst e \<noteq> seq) (dw_entries dw) @ [(seq, data)]"
  let ?n = "length ?es - nat (dw_size dw)"
  have dist: "distinct (map fst ?es)"
    using put_distinct [of "dw_entries dw" seq data] ok by (simp add: window_ok_def)
  have pos: "0 < dw_size dw" using ok by (simp add: window_ok_def)
  note put = dw_put_entries [OF ok, of seq data, unfolded Let_def]
  show "window_ok (snd (dw_put seq data dw))"
    using distinct_drop [OF dist, of ?n] pos by (auto simp: put window_ok_def drop_map)
  show "nat (dw_size (snd (dw_put seq data dw))) = nat (dw_size dw)" by (simp add: put)
  have young: "takeWhile (\<lambda>e. fst e \<noteq> seq) (rev ?es) = []" by simp
  have found: "map_of ?es seq = Some data"
    using dist by (intro map_of_is_SomeI) simp_all
  have small: "?n < length ?es" using pos by simp
  show "dw_get seq (snd (dw_put seq data dw)) = Some data"
    using map_of_drop_young(1) [OF dist found, of ?n] young small by (simp add: put dw_get_def)
  show "dw_age seq (snd (dw_put seq data dw)) = 0"
    using map_of_drop_young(2) [OF dist found, of ?n] young small by (simp add: put dw_age_def)
  fix j w assume j: "j \<noteq> seq"
  have filt: "map_of ?es j = map_of (dw_entries dw) j"
    using map_of_filter_other [OF j, of "dw_entries dw"] j
    by (simp add: map_add_def split: option.split)
  show "dw_get j dw = Some w" if "dw_get j (snd (dw_put seq data dw)) = Some w"
    using map_of_drop_distinct [OF dist, of ?n j w] that filt by (simp add: put dw_get_def)
  assume w: "dw_get j dw = Some w" and age: "dw_age j dw + 1 < nat (dw_size dw)"
  have tw: "length (takeWhile (\<lambda>e. fst e \<noteq> j) (rev ?es)) \<le> dw_age j dw + 1"
    using j length_takeWhile_filter [of "rev (dw_entries dw)" "\<lambda>e. fst e \<noteq> j" "\<lambda>e. fst e \<noteq> seq"]
    by (auto simp: dw_age_def rev_filter)
  have found: "map_of ?es j = Some w" using w by (simp only: filt dw_get_def)
  have less: "length (takeWhile (\<lambda>e. fst e \<noteq> j) (rev ?es)) < length ?es"
    using takeWhile_found [of ?es j] found by simp
  have "length (takeWhile (\<lambda>e. fst e \<noteq> j) (rev ?es)) < length ?es - ?n"
    using tw age less by simp
  with map_of_drop_young [OF dist found this]
  show "dw_get j (snd (dw_put seq data dw)) = Some w \<and> dw_age j (snd (dw_put seq data dw)) \<le> dw_age j dw + 1"
    using tw by (simp add: put dw_get_def dw_age_def)
qed

section \<open>Datagrams of several frames\<close>

definition split_datagram :: "bytes \<Rightarrow> bytes \<Rightarrow> frame list res" where
  "split_datagram data secret =
     (case drain (feed data (new_buffer (Some secret))) of
        (_, Some e, _) \<Rightarrow> Inl e
      | (fs, None, fb) \<Rightarrow>
          if fb_buf fb \<noteq> [] then
            Inl (ProtocolError ERR_LENGTH
              (dec_nat (length (fb_buf fb)) @ ascii '' trailing bytes in datagram''))
          else Inr fs)"

lemma macs_wire:
  "length macs = length fs \<Longrightarrow> list_all2 (\<lambda>f mac. mac_ok f (Some key) mac) fs macs
     \<Longrightarrow> concat (map2 frame_bytes fs macs) = concat (map (wire key) fs)"
  by (induction fs macs rule: list_induct2') (auto simp: mac_ok_def wire_def)

lemma split_datagram_iff:
  "split_datagram data key = Inr fs \<longleftrightarrow> list_all frame_ok fs \<and> data = concat (map (wire key) fs)"
proof
  assume s: "split_datagram data key = Inr fs"
  then obtain fb where d: "drain (feed data (new_buffer (Some key))) = (fs, None, fb)" "fb_buf fb = []"
    by (auto simp: split_datagram_def split: prod.split_asm option.split_asm if_split_asm)
  from drain_consumes [OF d(1)] d(2) obtain macs where g: "data = concat (map2 frame_bytes fs macs)"
    "list_all2 (good_frame (Some key)) fs macs" by (auto simp: new_buffer_def feed_def drained_def)
  from g(1) list_all2_lengthD [OF g(2)] g(2) have
    m: "data = concat (map2 frame_bytes fs macs)" "length macs = length fs" "list_all frame_ok fs"
      "list_all2 (\<lambda>f mac. mac_ok f (Some key) mac) fs macs"
    by (auto simp: good_frame_def list_all2_conv_all_nth list_all_length)
  with macs_wire [OF m(2,4)] show "list_all frame_ok fs \<and> data = concat (map (wire key) fs)" by simp
next
  assume "list_all frame_ok fs \<and> data = concat (map (wire key) fs)"
  then show "split_datagram data key = Inr fs"
    using drain_frames [of fs key] by (simp add: split_datagram_def wire_def [abs_def] new_buffer_def)
qed

lemma split_datagram_Inl: "split_datagram data key = Inl e \<Longrightarrow> is_protocol_error e"
  by (auto simp: split_datagram_def dest: drain_error split: prod.split_asm option.split_asm if_split_asm)

end
