(* ===== verification/Udp_Server.thy ===== *)
theory Udp_Server
  imports Dedup
begin

text \<open>
  \<^verbatim>\<open>src/wireline/transport/udp.py\<close>, the receive path of the UDP server: one session and one
  deduplication window per peer address. Addresses are values of any type. What the server sends
  is the list of datagrams it hands to \<^verbatim>\<open>_sendto\<close>, that is to the send hook where there is one.
\<close>

section \<open>The server and one datagram\<close>

record 'a udp_server =
  us_secret :: bytes
  us_dedup_size :: int
  us_attached :: bool
  us_peers :: "'a \<Rightarrow> (server_session \<times> dedup_window) option"
  us_duplicates :: nat
  us_handled :: nat

definition new_udp_server :: "bytes \<Rightarrow> int \<Rightarrow> 'a udp_server" where
  "new_udp_server secret dedup_window =
     \<lparr>us_secret = secret, us_dedup_size = dedup_window, us_attached = False, us_peers = Map.empty,
      us_duplicates = 0, us_handled = 0\<rparr>"

text \<open>\<^verbatim>\<open>_attach\<close> sets \<^verbatim>\<open>_transport\<close> and \<^verbatim>\<open>_sendto\<close>; \<^verbatim>\<open>close\<close> clears only the former.\<close>

definition us_attach :: "'a udp_server \<Rightarrow> 'a udp_server" where
  "us_attach us = us\<lparr>us_attached := True\<rparr>"

text \<open>\<^verbatim>\<open>b"".join(encode(f, secret) for f in frames)\<close>\<close>

fun join_encoded :: "bytes \<Rightarrow> frame list \<Rightarrow> bytes res" where
  "join_encoded secret [] = Inr []"
| "join_encoded secret (f # fs) =
     rbind (encode f secret) (\<lambda>raw. rbind (join_encoded secret fs) (\<lambda>raws. Inr (raw @ raws)))"

definition us_acks :: "frame \<Rightarrow> server_session \<Rightarrow> frame list res \<times> server_session" where
  "us_acks f ss =
     (if f_flags f AND FLAG_REQUIRE_ACK \<noteq> 0 then
        (case ss_ack (f_seq f) ss of
           (Inl e, ss') \<Rightarrow> (Inl e, ss')
         | (Inr a, ss') \<Rightarrow> (Inr [a], ss'))
      else (Inr [], ss))"

text \<open>A frame that is not a duplicate. The session is shared, so what it did stays on a raise.\<close>

definition us_execute ::
  "py_env \<Rightarrow> (nat \<Rightarrow> bytes) \<Rightarrow> frame \<Rightarrow> 'a \<Rightarrow> server_session \<Rightarrow> dedup_window \<Rightarrow> 'a udp_server
     \<Rightarrow> unit res \<times> (bytes \<times> 'a) list \<times> 'a udp_server"
where
  "us_execute env rng f addr ss dw us =
     (case us_acks f ss of
        (Inl e, ss1) \<Rightarrow> (Inl e, [], us\<lparr>us_peers := (us_peers us)(addr \<mapsto> (ss1, dw))\<rparr>)
      | (Inr acks, ss1) \<Rightarrow>
          (case on_frame env rng f ss1 of
             (Inl e, ss2) \<Rightarrow> (Inl e, [], us\<lparr>us_peers := (us_peers us)(addr \<mapsto> (ss2, dw))\<rparr>)
           | (Inr ra, ss2) \<Rightarrow>
               let us1 = us\<lparr>us_peers := (us_peers us)(addr \<mapsto> (ss2, dw)), us_handled := us_handled us + 1\<rparr>
               in case join_encoded (us_secret us) (acks @ ra_frames ra) of
                    Inl e \<Rightarrow> (Inl e, [], us1)
                  | Inr data \<Rightarrow>
                      let sent = (if data \<noteq> [] then [(data, addr)] else [])
                      in case dw_put (f_seq f) data dw of
                           (Inl e, dw') \<Rightarrow>
                             (Inl e, sent, us1\<lparr>us_peers := (us_peers us1)(addr \<mapsto> (ss2, dw'))\<rparr>)
                         | (Inr _, dw') \<Rightarrow>
                             (Inr (), sent,
                              us1\<lparr>us_peers := (us_peers us1)
                                (addr := if ra_close ra then None else Some (ss2, dw'))\<rparr>)))"

definition us_on_datagram ::
  "py_env \<Rightarrow> (nat \<Rightarrow> bytes) \<Rightarrow> (nat \<Rightarrow> bytes) \<Rightarrow> bytes \<Rightarrow> 'a \<Rightarrow> 'a udp_server
     \<Rightarrow> unit res \<times> (bytes \<times> 'a) list \<times> 'a udp_server"
where
  "us_on_datagram env rng0 rng data addr us =
     (if \<not> us_attached us then (Inl AssertionError, [], us)
      else
        case decode data (Some (us_secret us)) of
          Inl (ProtocolError _ _) \<Rightarrow> (Inr (), [], us)
        | Inl e \<Rightarrow> (Inl e, [], us)
        | Inr f \<Rightarrow>
            let (ss, dw) = (case us_peers us addr of
                  None \<Rightarrow> (new_session rng0, new_window (us_dedup_size us)) | Some p \<Rightarrow> p);
                us1 = us\<lparr>us_peers := (us_peers us)(addr \<mapsto> (ss, dw))\<rparr>
            in case dw_get (f_seq f) dw of
                 Some cached \<Rightarrow>
                   (Inr (), if cached \<noteq> [] then [(cached, addr)] else [],
                    us1\<lparr>us_duplicates := us_duplicates us1 + 1\<rparr>)
               | None \<Rightarrow> us_execute env rng f addr ss dw us1)"

text \<open>Datagrams in the order they arrive; what each made the server send, in the same order.\<close>

fun us_run ::
  "py_env \<Rightarrow> (nat \<Rightarrow> bytes) \<Rightarrow> (nat \<Rightarrow> bytes) \<Rightarrow> (bytes \<times> 'a) list \<Rightarrow> 'a udp_server
     \<Rightarrow> (bytes \<times> 'a) list list \<times> 'a udp_server"
where
  "us_run env rng0 rng [] us = ([], us)"
| "us_run env rng0 rng ((d, a) # es) us =
     (case us_on_datagram env rng0 rng d a us of (_, out, us1) \<Rightarrow>
        (case us_run env rng0 rng es us1 of (outs, us2) \<Rightarrow> (out # outs, us2)))"

section \<open>Frames and datagrams\<close>

lemma join_encoded_ok:
  "list_all frame_ok fs \<Longrightarrow> join_encoded key fs = Inr (concat (map (wire key) fs))"
  by (induction fs) (simp_all add: encode_wire)

lemma length_wire: "length (wire key f) \<ge> 19"
  by (simp add: wire_def frame_bytes_def header_bytes_def)

lemma concat_wire_Nil: "concat (map (wire key) fs) = [] \<longleftrightarrow> fs = []"
proof (cases fs)
  case (Cons f gs)
  with length_wire [of key f] show ?thesis by (cases "wire key f") simp_all
qed simp

text \<open>The acknowledgement: numbered with the session's counter, naming the request.\<close>

lemma ss_ack_outcome:
  assumes "0 \<le> n" "n \<le> MAX_SEQ"
  shows "\<exists>p. encode_ack n = Inr p \<and> length p \<le> MAX_PAYLOAD
    \<and> ss_ack n ss = (Inr (mk_frame ACK (ss_out_seq ss) p 0), ss\<lparr>ss_out_seq := (ss_out_seq ss + 1) AND MAX_SEQ\<rparr>)"
proof -
  from assms have "\<bar>n\<bar> < 10 ^ 20" by (simp add: MAX_SEQ_def)
  from encode_ack_fits [OF this] show ?thesis by (auto simp: ss_ack_def ss_frame_eq MAX_PAYLOAD_def)
qed

lemma us_acks_outcome:
  assumes "session_ok ss" "frame_ok f"
  obtains acks ss1 where "us_acks f ss = (Inr acks, ss1)" "list_all frame_ok acks" "session_ok ss1"
    "ss_state ss1 = ss_state ss" "ss_last_peer_seq ss1 = ss_last_peer_seq ss" "ss_id ss1 = ss_id ss"
    "f_flags f AND FLAG_REQUIRE_ACK \<noteq> 0 \<longrightarrow>
      (\<exists>p. acks = [mk_frame ACK (ss_out_seq ss) p 0] \<and> encode_ack (f_seq f) = Inr p)"
proof -
  have seq: "0 \<le> f_seq f" "f_seq f \<le> MAX_SEQ" using assms(2) by (simp_all add: frame_ok_def)
  from ss_ack_outcome [OF seq, of ss] obtain p where p: "encode_ack (f_seq f) = Inr p" "length p \<le> MAX_PAYLOAD"
    "ss_ack (f_seq f) ss = (Inr (mk_frame ACK (ss_out_seq ss) p 0),
       ss\<lparr>ss_out_seq := (ss_out_seq ss + 1) AND MAX_SEQ\<rparr>)" by blast
  have "frame_ok (mk_frame ACK (ss_out_seq ss) p 0)"
    using assms(1) p(2) by (simp add: frame_ok_def session_ok_def)
  with p assms(1) that [of "[mk_frame ACK (ss_out_seq ss) p 0]" "ss\<lparr>ss_out_seq := (ss_out_seq ss + 1) AND MAX_SEQ\<rparr>"]
    that [of "[]" ss]
  show thesis
    by (cases "f_flags f AND FLAG_REQUIRE_ACK = 0") (simp_all add: us_acks_def session_ok_next)
qed

section \<open>A frame on an open session\<close>

lemma on_frame_open:
  assumes "session_ok ss" "ss_state ss \<noteq> CLOSED" "frame_ok f" "rng_ok rng" "on_frame env rng f ss = (r, ss')"
  shows "session_ok ss' \<and> ss_id ss' = ss_id ss \<and> (case r of
      Inl e \<Rightarrow> (e = ValueError \<or> e = RecursionError) \<and> ss_state ss' \<noteq> CLOSED
        \<and> ss_last_peer_seq ss < f_seq f \<and> ss_last_peer_seq ss' = f_seq f
    | Inr ra \<Rightarrow> list_all frame_ok (ra_frames ra) \<and> (\<not> ra_close ra \<longrightarrow> ss_state ss' = READY
        \<and> ss_last_peer_seq ss < f_seq f \<and> ss_last_peer_seq ss' = f_seq f))"
proof -
  from on_frame_step_ok [OF assms(1,3,4), of env] obtain a where
    a: "spec_step (spec_state ss) (spec_event env f) a (spec_state ss')" "meets (f_payload f) a r"
    and ok: "session_ok ss'" "ss_id ss' = ss_id ss" "\<And>ra. r = Inr ra \<Longrightarrow> list_all frame_ok (ra_frames ra)"
    unfolding assms(5) step_ok_def fst_conv snd_conv by (auto split: sum.splits)
  have ph: "phase_of (ss_state s) = P_New \<longleftrightarrow> ss_state s = NEW" "phase_of (ss_state s) = P_Closed \<longleftrightarrow> ss_state s = CLOSED"
    "phase_of (ss_state s) = P_Ready \<longleftrightarrow> ss_state s = READY"
    if "session_ok s" for s using that by (auto simp: session_ok_def)
  note ph = ph [OF assms(1)] ph [OF ok(1)]
  from a ok assms(2) show ?thesis
    unfolding spec_state_def spec_event_def
    by (cases rule: spec_step.cases) (auto simp: ph dest: sym [THEN ph(6) [THEN iffD1]] split: sum.split)
qed

section \<open>The invariant\<close>

definition reply_ok :: "bytes \<Rightarrow> bytes \<Rightarrow> bool" where
  "reply_ok key d \<longleftrightarrow> (\<exists>gs. list_all frame_ok gs \<and> d = concat (map (wire key) gs))"

definition peer_ok :: "bytes \<Rightarrow> server_session \<Rightarrow> dedup_window \<Rightarrow> bool" where
  "peer_ok key ss dw \<longleftrightarrow> session_ok ss \<and> ss_state ss \<noteq> CLOSED \<and> window_ok dw
     \<and> (\<forall>(n, d) \<in> set (dw_entries dw). n \<le> ss_last_peer_seq ss \<and> reply_ok key d)"

definition us_ok :: "'a udp_server \<Rightarrow> bool" where
  "us_ok us \<longleftrightarrow> 0 < us_dedup_size us
     \<and> (\<forall>addr ss dw. us_peers us addr = Some (ss, dw) \<longrightarrow>
          peer_ok (us_secret us) ss dw \<and> dw_size dw = us_dedup_size us)"

lemma us_okD: "us_ok us \<Longrightarrow> us_peers us addr = Some (ss, dw) \<Longrightarrow>
    peer_ok (us_secret us) ss dw \<and> dw_size dw = us_dedup_size us"
  by (simp add: us_ok_def)

lemma new_udp_server_ok: "0 < n \<Longrightarrow> us_ok (us_attach (new_udp_server key n))"
  by (simp add: us_ok_def us_attach_def new_udp_server_def)

lemma new_peer_ok: "0 < n \<Longrightarrow> peer_ok key (new_session rng0) (new_window n)"
  using new_session_ok [of rng0]
  by (simp add: peer_ok_def new_window_def window_ok_def new_session_def)

lemma set_dw_put: "set (dw_entries (snd (dw_put seq d dw))) \<subseteq> insert (seq, d) (set (dw_entries dw))"
  if "window_ok dw"
  unfolding dw_put_entries [OF that] Let_def
  by (auto dest!: in_set_dropD)

lemma peer_ok_put:
  assumes "peer_ok key ss dw" "session_ok ss'" "ss_state ss' = READY" "ss_last_peer_seq ss < f_seq f"
    "ss_last_peer_seq ss' = f_seq f" "reply_ok key d"
  shows "peer_ok key ss' (snd (dw_put (f_seq f) d dw))"
proof -
  have w: "window_ok dw" using assms(1) by (simp add: peer_ok_def)
  have "n \<le> ss_last_peer_seq ss' \<and> reply_ok key d'" if "(n, d') \<in> set (dw_entries (snd (dw_put (f_seq f) d dw)))" for n d'
    using that set_dw_put [OF w, of "f_seq f" d] assms by (fastforce simp: peer_ok_def)
  then show ?thesis using assms(2,3) window.valid_store [OF w] by (auto simp: peer_ok_def)
qed

lemma us_execute_exact:
  assumes "window_ok dw" "us_acks f ss = (Inr acks, ss1)" "on_frame env rng f ss1 = (Inr ra, ss2)"
    "list_all frame_ok (acks @ ra_frames ra)"
    "d = concat (map (wire (us_secret us)) (acks @ ra_frames ra))"
  shows "us_execute env rng f addr ss dw us =
    (Inr (), if acks @ ra_frames ra \<noteq> [] then [(d, addr)] else [],
     us\<lparr>us_handled := us_handled us + 1, us_peers := (us_peers us)(addr := if ra_close ra then None
       else Some (ss2, snd (dw_put (f_seq f) d dw)))\<rparr>)"
proof -
  obtain dw' where put: "dw_put (f_seq f) d dw = (Inr (), dw')"
    using dw_put_ok_result [OF assms(1), of "f_seq f" d] by (cases "dw_put (f_seq f) d dw") auto
  have joined: "join_encoded (us_secret us) (acks @ ra_frames ra) = Inr d" "d = [] \<longleftrightarrow> acks @ ra_frames ra = []"
    using join_encoded_ok [OF assms(4), of "us_secret us"] concat_wire_Nil [of "us_secret us" "acks @ ra_frames ra"]
    by (simp_all only: assms(5))
  show ?thesis
    using assms(2,3) put joined by (simp add: us_execute_def Let_def del: append_is_Nil_conv)
qed

text \<open>What executing a frame amounts to: a crash of the handler, or a reply that is stored.\<close>

lemma us_execute_outcome:
  assumes "peer_ok (us_secret us) ss dw" "frame_ok f" "rng_ok rng"
  obtains (raised) e ss2 where
      "us_execute env rng f addr ss dw us = (Inl e, [], us\<lparr>us_peers := (us_peers us)(addr \<mapsto> (ss2, dw))\<rparr>)"
      "e = ValueError \<or> e = RecursionError" "peer_ok (us_secret us) ss2 dw" "ss_id ss2 = ss_id ss"
    | (replied) gs close ss2 where
      "us_execute env rng f addr ss dw us =
        (Inr (), if gs \<noteq> [] then [(concat (map (wire (us_secret us)) gs), addr)] else [],
         us\<lparr>us_handled := us_handled us + 1, us_peers := (us_peers us)(addr := if close then None
           else Some (ss2, snd (dw_put (f_seq f) (concat (map (wire (us_secret us)) gs)) dw)))\<rparr>)"
      "list_all frame_ok gs"
      "\<not> close \<Longrightarrow> peer_ok (us_secret us) ss2 (snd (dw_put (f_seq f) (concat (map (wire (us_secret us)) gs)) dw))"
      "\<not> close \<Longrightarrow> ss_id ss2 = ss_id ss"
      "f_flags f AND FLAG_REQUIRE_ACK \<noteq> 0 \<Longrightarrow>
        \<exists>p gs'. gs = mk_frame ACK (ss_out_seq ss) p 0 # gs' \<and> encode_ack (f_seq f) = Inr p"
proof -
  let ?k = "us_secret us"
  from assms(1) have ss: "session_ok ss" "ss_state ss \<noteq> CLOSED" "window_ok dw" by (simp_all add: peer_ok_def)
  obtain acks ss1 where a: "us_acks f ss = (Inr acks, ss1)" "list_all frame_ok acks" "session_ok ss1"
    "ss_state ss1 = ss_state ss" "ss_last_peer_seq ss1 = ss_last_peer_seq ss" "ss_id ss1 = ss_id ss"
    "f_flags f AND FLAG_REQUIRE_ACK \<noteq> 0 \<longrightarrow>
      (\<exists>p. acks = [mk_frame ACK (ss_out_seq ss) p 0] \<and> encode_ack (f_seq f) = Inr p)"
    using us_acks_outcome [OF ss(1) assms(2)] by metis
  obtain r ss2 where r: "on_frame env rng f ss1 = (r, ss2)" by (cases "on_frame env rng f ss1")
  have st: "ss_state ss1 \<noteq> CLOSED" using a(4) ss(2) by simp
  note o = on_frame_open [OF a(3) st assms(2,3) r]
  have p1: "peer_ok ?k ss1 dw" using assms(1) a(3-5) by (simp add: peer_ok_def)
  show thesis
  proof (cases r)
    case (Inl e)
    then have ok2: "peer_ok ?k ss2 dw" using p1 o by (fastforce simp: peer_ok_def)
    have ex: "us_execute env rng f addr ss dw us = (Inl e, [], us\<lparr>us_peers := (us_peers us)(addr \<mapsto> (ss2, dw))\<rparr>)"
      using a(1) r Inl by (simp add: us_execute_def)
    show thesis by (rule raised [OF ex _ ok2]) (use o Inl a(6) in auto)
  next
    case (Inr ra)
    define gs where "gs = acks @ ra_frames ra"
    have gs: "list_all frame_ok gs" using a(2) o Inr by (simp add: gs_def)
    note us_execute_exact [OF ss(3) a(1) r [unfolded Inr] gs [unfolded gs_def] refl, where us = us and addr = addr]
    then show thesis unfolding gs_def [symmetric]
    proof (rule replied)
      show "list_all frame_ok gs" by (rule gs)
      assume open': "\<not> ra_close ra"
      show "peer_ok ?k ss2 (snd (dw_put (f_seq f) (concat (map (wire ?k) gs)) dw))"
        using o Inr open' gs by (intro peer_ok_put [OF p1]) (auto simp: reply_ok_def)
      show "ss_id ss2 = ss_id ss" using o a(6) by simp
    next
      assume "f_flags f AND FLAG_REQUIRE_ACK \<noteq> 0"
      with a(7) show "\<exists>p gs'. gs = mk_frame ACK (ss_out_seq ss) p 0 # gs' \<and> encode_ack (f_seq f) = Inr p"
        by (auto simp: gs_def)
    qed
  qed
qed

end
