(* ===== verification/Udp_Server_Props.thy ===== *)
theory Udp_Server_Props
  imports Udp_Server
begin

text \<open>
  The UDP server as a whole: its invariant, that a retransmission inside the window is answered
  from the window, that what does not decode changes nothing, and where the deduplication ends.
\<close>

section \<open>One datagram\<close>

lemma decode_InrD: "decode data (Some key) = Inr f \<Longrightarrow> frame_ok f \<and> data = wire key f"
  by (auto simp: decode_eq_Inr_iff mac_ok_def wire_def)

definition peer_of :: "(nat \<Rightarrow> bytes) \<Rightarrow> 'a udp_server \<Rightarrow> 'a \<Rightarrow> server_session \<times> dedup_window" where
  "peer_of rng0 us addr =
     (case us_peers us addr of None \<Rightarrow> (new_session rng0, new_window (us_dedup_size us)) | Some p \<Rightarrow> p)"

lemma peer_of_ok:
  assumes "us_ok us" "peer_of rng0 us addr = (ss, dw)"
  shows "peer_ok (us_secret us) ss dw" "dw_size dw = us_dedup_size us"
    "us_ok (us\<lparr>us_peers := (us_peers us)(addr \<mapsto> (ss, dw))\<rparr>)"
proof -
  show p: "peer_ok (us_secret us) ss dw" and s: "dw_size dw = us_dedup_size us"
    using assms us_okD [OF assms(1), of addr] new_peer_ok [of "us_dedup_size us" "us_secret us" rng0]
    by (auto simp: peer_of_def us_ok_def new_window_def split: option.split_asm)
  show "us_ok (us\<lparr>us_peers := (us_peers us)(addr \<mapsto> (ss, dw))\<rparr>)"
    using assms(1) p s by (simp add: us_ok_def)
qed

text \<open>
  The five outcomes of a datagram: dropped, a duplicate, a crash of the handler, executed and
  remembered, executed and the peer forgotten.
\<close>

lemma us_on_datagram_cases:
  assumes "us_ok us" "us_attached us" "rng_ok rng"
  obtains (dropped) e where "decode data (Some (us_secret us)) = Inl e"
      "us_on_datagram env rng0 rng data addr us = (Inr (), [], us)"
    | (duplicate) f ss dw d where "decode data (Some (us_secret us)) = Inr f" "us_peers us addr = Some (ss, dw)"
      "dw_get (f_seq f) dw = Some d"
      "us_on_datagram env rng0 rng data addr us =
         (Inr (), if d \<noteq> [] then [(d, addr)] else [], us\<lparr>us_duplicates := us_duplicates us + 1\<rparr>)"
    | (crash) f ss dw e ss2 where "decode data (Some (us_secret us)) = Inr f" "peer_of rng0 us addr = (ss, dw)"
      "dw_get (f_seq f) dw = None" "e = ValueError \<or> e = RecursionError"
      "us_on_datagram env rng0 rng data addr us =
         (Inl e, [], us\<lparr>us_peers := (us_peers us)(addr \<mapsto> (ss2, dw))\<rparr>)"
      "peer_ok (us_secret us) ss2 dw" "ss_id ss2 = ss_id ss"
    | (executed) f ss dw gs close ss2 d where "decode data (Some (us_secret us)) = Inr f" "peer_of rng0 us addr = (ss, dw)"
      "dw_get (f_seq f) dw = None" "list_all frame_ok gs" "d = concat (map (wire (us_secret us)) gs)"
      "us_on_datagram env rng0 rng data addr us =
         (Inr (), if gs \<noteq> [] then [(d, addr)] else [],
          us\<lparr>us_handled := us_handled us + 1, us_peers := (us_peers us)(addr := if close then None
             else Some (ss2, snd (dw_put (f_seq f) d dw)))\<rparr>)"
      "\<not> close \<Longrightarrow> peer_ok (us_secret us) ss2 (snd (dw_put (f_seq f) d dw))"
      "\<not> close \<Longrightarrow> ss_id ss2 = ss_id ss"
      "f_flags f AND FLAG_REQUIRE_ACK \<noteq> 0 \<Longrightarrow>
        \<exists>p gs'. gs = mk_frame ACK (ss_out_seq ss) p 0 # gs' \<and> encode_ack (f_seq f) = Inr p"
proof (cases "decode data (Some (us_secret us))")
  case (Inl e)
  from decode_Inl [OF Inl] obtain c m where "e = ProtocolError c m" by (rule is_protocol_errorE)
  with assms(2) Inl show thesis by (intro that(1) [OF Inl]) (simp add: us_on_datagram_def)
next
  case (Inr f)
  obtain ss dw where p: "peer_of rng0 us addr = (ss, dw)" by (cases "peer_of rng0 us addr")
  let ?us = "us\<lparr>us_peers := (us_peers us)(addr \<mapsto> (ss, dw))\<rparr>"
  have eq: "us_on_datagram env rng0 rng data addr us =
    (case dw_get (f_seq f) dw of
       Some d \<Rightarrow> (Inr (), if d \<noteq> [] then [(d, addr)] else [], ?us\<lparr>us_duplicates := us_duplicates us + 1\<rparr>)
     | None \<Rightarrow> us_execute env rng f addr ss dw ?us)"
    using assms(2) Inr p by (simp add: us_on_datagram_def peer_of_def Let_def split: option.split)
  show thesis
  proof (cases "dw_get (f_seq f) dw")
    case (Some d)
    with p have peer: "us_peers us addr = Some (ss, dw)"
      by (auto simp: peer_of_def new_window_def dw_get_def split: option.split_asm)
    then have "(us_peers us)(addr \<mapsto> (ss, dw)) = us_peers us" by (rule map_upd_triv)
    with eq Some show thesis by (intro that(2) [OF Inr peer Some]) simp
  next
    case None
    have ok: "peer_ok (us_secret ?us) ss dw" using peer_of_ok(1) [OF assms(1) p] by simp
    have f: "frame_ok f" using decode_InrD [OF Inr] by simp
    show thesis
    proof (cases rule: us_execute_outcome [OF ok f assms(3), of env addr, case_names raised replied])
      case (raised e ss2)
      with eq None show thesis by (intro that(3) [OF Inr p None raised(2), of ss2]) simp_all
    next
      case (replied gs close ss2)
      with eq None show thesis
        by (intro that(4) [OF Inr p None replied(2) refl, of close ss2]) simp_all
    qed
  qed
qed

section \<open>The window over a run\<close>

text \<open>
  A reply is kept while its peer stays and fewer datagrams from that peer follow than the window
  holds: \<open>left\<close> bounds the datagrams still to come.
\<close>

definition remembers :: "'a \<Rightarrow> int \<Rightarrow> bytes \<Rightarrow> nat \<Rightarrow> 'a udp_server \<Rightarrow> bool" where
  "remembers addr seq d left us \<longleftrightarrow> (\<exists>ss dw. us_peers us addr = Some (ss, dw) \<and> dw_get seq dw = Some d
     \<and> dw_age seq dw + left < nat (us_dedup_size us))"

lemma us_ok_upd:
  assumes "us_ok us" "\<And>ss dw. p = Some (ss, dw) \<Longrightarrow> peer_ok (us_secret us) ss dw \<and> dw_size dw = us_dedup_size us"
  shows "us_ok (us\<lparr>us_peers := (us_peers us)(addr := p)\<rparr>)"
    "us_ok (us\<lparr>us_handled := n, us_peers := (us_peers us)(addr := p)\<rparr>)"
  using assms by (auto simp: us_ok_def)

lemma us_step_ok:
  assumes "us_ok us" "us_attached us" "rng_ok rng" "us_on_datagram env rng0 rng data addr us = (r, out, us')"
  shows "us_ok us' \<and> us_attached us' \<and> us_secret us' = us_secret us \<and> us_dedup_size us' = us_dedup_size us
    \<and> (\<forall>a. a \<noteq> addr \<longrightarrow> us_peers us' a = us_peers us a)"
proof (cases rule: us_on_datagram_cases [OF assms(1-3), of data env rng0 addr,
      case_names dropped duplicate crash executed])
  case (crash f ss dw e ss2)
  with peer_of_ok [OF assms(1) crash(2)] us_ok_upd(1) [OF assms(1), of "Some (ss2, dw)" addr]
  show ?thesis using assms(2,4) by auto
next
  case (executed f ss dw gs close ss2 d)
  have "window_ok dw" using peer_of_ok(1) [OF assms(1) executed(2)] by (simp add: peer_ok_def)
  then have "dw_size (snd (dw_put (f_seq f) d dw)) = dw_size dw"
    by (simp add: dw_put_entries)
  with peer_of_ok [OF assms(1) executed(2)] executed(6,7) assms(2,4)
    us_ok_upd(2) [OF assms(1), of "if close then None else Some (ss2, snd (dw_put (f_seq f) d dw))"]
  show ?thesis by auto
qed (use assms in \<open>auto simp: us_ok_def\<close>)

lemma remembers_step:
  assumes "us_ok us" "us_attached us" "rng_ok rng" "us_on_datagram env rng0 rng data a us = (r, out, us')"
    "us_peers us' addr \<noteq> None" "remembers addr seq d (left + (if a = addr then 1 else 0)) us"
  shows "remembers addr seq d left us'"
proof (cases "a = addr")
  case False
  with us_step_ok [OF assms(1-4)] assms(6) show ?thesis by (auto simp: remembers_def)
next
  case True
  from assms(6) True obtain ss dw where w: "us_peers us addr = Some (ss, dw)" "dw_get seq dw = Some d"
    "dw_age seq dw + left + 1 < nat (us_dedup_size us)" by (auto simp: remembers_def)
  then have peer: "peer_of rng0 us a = (ss, dw)" by (simp add: peer_of_def True)
  have ok: "window_ok dw" "dw_size dw = us_dedup_size us"
    using us_okD [OF assms(1) w(1)] by (simp_all add: peer_ok_def)
  show ?thesis
  proof (cases rule: us_on_datagram_cases [OF assms(1-3), of data env rng0 a,
      case_names dropped duplicate crash executed])
    case (executed f ss' dw' gs close ss2 d')
    with peer have "f_seq f \<noteq> seq" "dw' = dw" using w(2) by auto
    with window.kept [OF ok(1), of seq "f_seq f" d d'] w ok
    have "dw_get seq (snd (dw_put (f_seq f) d' dw')) = Some d"
      "dw_age seq (snd (dw_put (f_seq f) d' dw')) \<le> dw_age seq dw + 1" by auto
    with executed(6) assms(4,5) w(3) True show ?thesis
      by (cases close) (auto simp: remembers_def)
  qed (use assms(4) w peer True in \<open>auto simp: remembers_def\<close>)
qed

lemma us_run_append:
  "us_run env rng0 rng (ps @ qs) us =
     (case us_run env rng0 rng ps us of (o1, us1) \<Rightarrow>
        (case us_run env rng0 rng qs us1 of (o2, us2) \<Rightarrow> (o1 @ o2, us2)))"
  by (induction ps arbitrary: us) (auto split: prod.split)

lemma us_run_ok:
  assumes "us_ok us" "us_attached us" "rng_ok rng" "us_run env rng0 rng es us = (outs, us')"
  shows "us_ok us' \<and> us_attached us' \<and> us_secret us' = us_secret us"
  using assms
proof (induction es arbitrary: us outs)
  case (Cons e es)
  obtain d a where e: "e = (d, a)" by (cases e)
  obtain r out us1 where s: "us_on_datagram env rng0 rng d a us = (r, out, us1)"
    by (cases "us_on_datagram env rng0 rng d a us") auto
  from us_step_ok [OF Cons.prems(1-3) s] Cons.IH [of us1] Cons.prems(3,4) s show ?case
    by (auto simp: e split: prod.split_asm)
qed simp

text \<open>The peer is still there after every datagram of a run.\<close>

fun stays :: "py_env \<Rightarrow> (nat \<Rightarrow> bytes) \<Rightarrow> (nat \<Rightarrow> bytes) \<Rightarrow> 'a \<Rightarrow> (bytes \<times> 'a) list \<Rightarrow> 'a udp_server \<Rightarrow> bool" where
  "stays env rng0 rng addr [] us = (us_peers us addr \<noteq> None)"
| "stays env rng0 rng addr ((d, a) # es) us =
     (us_peers us addr \<noteq> None \<and> stays env rng0 rng addr es (snd (snd (us_on_datagram env rng0 rng d a us))))"

lemma stays_here: "stays env rng0 rng addr es us \<Longrightarrow> us_peers us addr \<noteq> None"
  by (cases es) auto

lemma remembers_run:
  assumes "us_ok us" "us_attached us" "rng_ok rng" "us_run env rng0 rng es us = (outs, us')"
    "stays env rng0 rng addr es us" "remembers addr seq d (length (filter (\<lambda>e. snd e = addr) es)) us"
  shows "remembers addr seq d 0 us'"
  using assms
proof (induction es arbitrary: us outs)
  case (Cons e es)
  obtain b a where e: "e = (b, a)" by (cases e)
  obtain r out us1 where s: "us_on_datagram env rng0 rng b a us = (r, out, us1)"
    by (cases "us_on_datagram env rng0 rng b a us") auto
  have there: "us_peers us1 addr \<noteq> None"
    using Cons.prems(5) s by (auto simp: e dest: stays_here)
  have "remembers addr seq d (length (filter (\<lambda>e. snd e = addr) es)) us1"
    by (rule remembers_step [OF Cons.prems(1-3) s there])
      (use Cons.prems(6) in \<open>auto simp: e\<close>)
  with Cons.IH [of us1] us_step_ok [OF Cons.prems(1-3) s] Cons.prems s show ?case
    by (auto simp: e split: prod.split_asm)
qed simp

section \<open>Exact results\<close>

lemma us_on_datagram_fresh:
  assumes "us_attached us" "frame_ok f" "peer_of rng0 us addr = (ss, dw)" "dw_get (f_seq f) dw = None"
  shows "us_on_datagram env rng0 rng (wire (us_secret us) f) addr us =
    us_execute env rng f addr ss dw (us\<lparr>us_peers := (us_peers us)(addr \<mapsto> (ss, dw))\<rparr>)"
  using assms by (simp add: us_on_datagram_def peer_of_def decode_wire Let_def split: option.split)

lemma us_acks_flag:
  assumes "session_ok ss" "frame_ok f" "f_flags f AND FLAG_REQUIRE_ACK \<noteq> 0"
  obtains p where "encode_ack (f_seq f) = Inr p" "frame_ok (mk_frame ACK (ss_out_seq ss) p 0)"
    "us_acks f ss = (Inr [mk_frame ACK (ss_out_seq ss) p 0], ss\<lparr>ss_out_seq := (ss_out_seq ss + 1) AND MAX_SEQ\<rparr>)"
proof -
  have seq: "0 \<le> f_seq f" "f_seq f \<le> MAX_SEQ" using assms(2) by (simp_all add: frame_ok_def)
  from ss_ack_outcome [OF seq, of ss] assms that show thesis
    by (auto simp: us_acks_def frame_ok_def session_ok_def)
qed

text \<open>A HELLO on a new session, whatever its counter.\<close>

lemma on_frame_hello_new:
  assumes "session_ok ss" "ss_state ss = NEW" "ss_last_peer_seq ss < f_seq h" "f_type h = HELLO"
    "decode_hello env (f_payload h) = Inr (cid, nonce)" "frame_ok h" "rng_ok rng"
  obtains p where "encode_hello_ack rng (ss_id ss) None = Inr p" "length p \<le> MAX_PAYLOAD"
    "on_frame env rng h ss =
      (Inr \<lparr>ra_frames = [mk_frame HELLO_ACK (ss_out_seq ss) p 0], ra_close = False, ra_reason = None\<rparr>,
       ss\<lparr>ss_last_peer_seq := f_seq h, ss_client_id := Some cid, ss_peer_nonce := Some nonce,
          ss_state := READY, ss_out_seq := (ss_out_seq ss + 1) AND MAX_SEQ\<rparr>)"
proof -
  let ?ss = "ss\<lparr>ss_last_peer_seq := f_seq h\<rparr>"
  have "session_ok ?ss" using assms(1,6) by (simp add: session_ok_def frame_ok_def)
  from on_hello_outcome [OF assms(5) this assms(7)] obtain p where
    "encode_hello_ack rng (ss_id ss) None = Inr p" "length p \<le> MAX_PAYLOAD"
    "on_hello env rng h ?ss = (Inr (reply HELLO_ACK p False None ?ss),
      ?ss\<lparr>ss_client_id := Some cid, ss_peer_nonce := Some nonce, ss_state := READY,
         ss_out_seq := (ss_out_seq ss + 1) AND MAX_SEQ\<rparr>)" by auto
  with assms(2-4) that show thesis
    by (simp add: on_frame_dispatch dispatch_def reply_def)
qed

section \<open>A session that a HELLO opened\<close>

lemma us_hello:
  assumes "us_ok us" "us_attached us" "rng_ok rng" "us_peers us addr = None" "f_type h = HELLO"
    "decode_hello env (f_payload h) = Inr (cid, nonce)" "frame_ok h" "f_flags h AND FLAG_REQUIRE_ACK \<noteq> 0"
  obtains p p' ss dw where "encode_ack (f_seq h) = Inr p" "encode_hello_ack rng (ss_id (new_session rng0)) None = Inr p'"
    "list_all frame_ok [mk_frame ACK 0 p 0, mk_frame HELLO_ACK 1 p' 0]"
    "us_on_datagram env rng0 rng (wire (us_secret us) h) addr us =
      (Inr (), [(wire (us_secret us) (mk_frame ACK 0 p 0) @ wire (us_secret us) (mk_frame HELLO_ACK 1 p' 0), addr)],
       us\<lparr>us_handled := us_handled us + 1, us_peers := (us_peers us)(addr \<mapsto> (ss, dw))\<rparr>)"
    "ss_state ss = READY" "ss_last_peer_seq ss = f_seq h" "ss_id ss = ss_id (new_session rng0)"
    "ss = (new_session rng0)\<lparr>ss_out_seq := 2, ss_last_peer_seq := f_seq h,
      ss_client_id := Some cid, ss_peer_nonce := Some nonce, ss_state := READY\<rparr>"
    "dw = snd (dw_put (f_seq h) (wire (us_secret us) (mk_frame ACK 0 p 0) @ wire (us_secret us) (mk_frame HELLO_ACK 1 p' 0))
      (new_window (us_dedup_size us)))"
proof -
  let ?ss = "new_session rng0" and ?dw = "new_window (us_dedup_size us)"
  have new: "session_ok ?ss" "ss_state ?ss = NEW" "ss_last_peer_seq ?ss < f_seq h" "ss_out_seq ?ss = 0"
    using new_session_ok [of rng0] assms(7) by (simp_all add: new_session_def frame_ok_def)
  have peer: "peer_of rng0 us addr = (?ss, ?dw)" "dw_get (f_seq h) ?dw = None"
    using assms(4) by (simp_all add: peer_of_def new_window_def dw_get_def)
  have w: "window_ok ?dw" using assms(1) by (simp add: us_ok_def new_window_def window_ok_def)
  obtain p where p: "encode_ack (f_seq h) = Inr p" "frame_ok (mk_frame ACK 0 p 0)"
    "us_acks h ?ss = (Inr [mk_frame ACK 0 p 0], ?ss\<lparr>ss_out_seq := 1\<rparr>)"
    using us_acks_flag [OF new(1) assms(7,8)] new(4) by (auto simp: and_MAX_SEQ)
  let ?ss1 = "?ss\<lparr>ss_out_seq := 1\<rparr>"
  have ok1: "session_ok ?ss1" "ss_state ?ss1 = NEW" "ss_last_peer_seq ?ss1 < f_seq h"
    using new by (simp_all add: session_ok_def MAX_SEQ_def)
  obtain p' where q: "encode_hello_ack rng (ss_id ?ss1) None = Inr p'" "length p' \<le> MAX_PAYLOAD"
    "on_frame env rng h ?ss1 =
      (Inr \<lparr>ra_frames = [mk_frame HELLO_ACK (ss_out_seq ?ss1) p' 0], ra_close = False, ra_reason = None\<rparr>,
       ?ss1\<lparr>ss_last_peer_seq := f_seq h, ss_client_id := Some cid, ss_peer_nonce := Some nonce,
          ss_state := READY, ss_out_seq := (ss_out_seq ?ss1 + 1) AND MAX_SEQ\<rparr>)"
    by (rule on_frame_hello_new [OF ok1 assms(5-7,3)])
  then have p': "encode_hello_ack rng (ss_id ?ss) None = Inr p'" "length p' \<le> MAX_PAYLOAD"
    "on_frame env rng h (?ss\<lparr>ss_out_seq := 1\<rparr>) =
      (Inr \<lparr>ra_frames = [mk_frame HELLO_ACK 1 p' 0], ra_close = False, ra_reason = None\<rparr>,
       ?ss\<lparr>ss_out_seq := 2, ss_last_peer_seq := f_seq h, ss_client_id := Some cid, ss_peer_nonce := Some nonce,
          ss_state := READY\<rparr>)" by (simp_all add: and_MAX_SEQ)
  have fs: "list_all frame_ok ([mk_frame ACK 0 p 0] @ ra_frames \<lparr>ra_frames = [mk_frame HELLO_ACK 1 p' 0],
      ra_close = False, ra_reason = None\<rparr>)"
    using p(2) p'(2) by (simp add: frame_ok_def MAX_SEQ_def)
  note ex = us_execute_exact [OF w p(3) p'(3) fs refl]
  show thesis
    by (rule that [OF p(1) p'(1), where ss = "?ss\<lparr>ss_out_seq := 2, ss_last_peer_seq := f_seq h,
          ss_client_id := Some cid, ss_peer_nonce := Some nonce, ss_state := READY\<rparr>"])
      (use fs in \<open>simp_all add: us_on_datagram_fresh [OF assms(2,7) peer] ex\<close>)
qed

section \<open>Requests on an open session\<close>

lemma us_duplicate:
  assumes "us_attached us" "us_peers us addr = Some (ss, dw)" "dw_get (f_seq f) dw = Some d" "d \<noteq> []" "frame_ok f"
  shows "us_on_datagram env rng0 rng (wire (us_secret us) f) addr us =
    (Inr (), [(d, addr)], us\<lparr>us_duplicates := us_duplicates us + 1\<rparr>)"
proof -
  have "(us_peers us)(addr \<mapsto> (ss, dw)) = us_peers us" using assms(2) by (rule map_upd_triv)
  with assms show ?thesis by (simp add: us_on_datagram_def decode_wire)
qed

text \<open>An echoed request: its answer depends on its type, number and payload, not on its flags.\<close>

definition echo_answer :: "bytes \<Rightarrow> server_session \<Rightarrow> bytes \<Rightarrow> msg_type \<Rightarrow> bytes \<Rightarrow> frame list" where
  "echo_answer key ss ack t payload =
     [mk_frame ACK (ss_out_seq ss) ack 0,
      mk_frame (if t = PING then PONG else DATA) ((ss_out_seq ss + 1) AND MAX_SEQ) payload 0]"

lemma us_echo:
  assumes "us_ok us" "us_attached us" "us_peers us addr = Some (ss, dw)" "ss_state ss = READY"
    "ss_last_peer_seq ss < f_seq f" "f_type f = PING \<or> f_type f = DATA" "frame_ok f"
    "f_flags f AND FLAG_REQUIRE_ACK \<noteq> 0" "encode_ack (f_seq f) = Inr ack"
    "gs = echo_answer (us_secret us) ss ack (f_type f) (f_payload f)"
    "d = concat (map (wire (us_secret us)) gs)"
  shows "us_on_datagram env rng0 rng (wire (us_secret us) f) addr us =
      (Inr (), [(d, addr)], us\<lparr>us_handled := us_handled us + 1, us_peers := (us_peers us)(addr \<mapsto>
         (ss\<lparr>ss_last_peer_seq := f_seq f, ss_out_seq := (((ss_out_seq ss + 1) AND MAX_SEQ) + 1) AND MAX_SEQ\<rparr>,
          snd (dw_put (f_seq f) d dw)))\<rparr>)"
    "list_all frame_ok gs" "dw_get (f_seq f) (snd (dw_put (f_seq f) d dw)) = Some d"
proof -
  have p: "peer_ok (us_secret us) ss dw" using us_okD [OF assms(1,3)] by simp
  then have ok: "session_ok ss" "window_ok dw" by (simp_all add: peer_ok_def)
  have get: "dw_get (f_seq f) dw = None"
    using p assms(5) by (auto simp: peer_ok_def dw_get_def map_of_eq_None_iff)
  have peer: "peer_of rng0 us addr = (ss, dw)" for rng0 using assms(3) by (simp add: peer_of_def)
  let ?ss1 = "ss\<lparr>ss_out_seq := (ss_out_seq ss + 1) AND MAX_SEQ\<rparr>"
  have acks: "us_acks f ss = (Inr [mk_frame ACK (ss_out_seq ss) ack 0], ?ss1)"
    "frame_ok (mk_frame ACK (ss_out_seq ss) ack 0)"
    by (rule us_acks_flag [OF ok(1) assms(7,8)], use assms(9) in simp)+
  let ?g = "mk_frame (if f_type f = PING then PONG else DATA) ((ss_out_seq ss + 1) AND MAX_SEQ) (f_payload f) 0"
  have on: "on_frame env rng f ?ss1 = (Inr \<lparr>ra_frames = [?g], ra_close = False, ra_reason = None\<rparr>,
      ss\<lparr>ss_last_peer_seq := f_seq f, ss_out_seq := (((ss_out_seq ss + 1) AND MAX_SEQ) + 1) AND MAX_SEQ\<rparr>)"
    using on_frame_echo [of ?ss1 f env rng] assms(4-6) by (auto simp: echoed_def echo_def after_echo_def)
  have g: "frame_ok ?g" using assms(7) by (auto simp: frame_ok_def next_seq_bounds)
  then have fs: "list_all frame_ok ([mk_frame ACK (ss_out_seq ss) ack 0] @
      ra_frames \<lparr>ra_frames = [?g], ra_close = False, ra_reason = None\<rparr>)" using acks(2) by simp
  show "us_on_datagram env rng0 rng (wire (us_secret us) f) addr us =
      (Inr (), [(d, addr)], us\<lparr>us_handled := us_handled us + 1, us_peers := (us_peers us)(addr \<mapsto>
         (ss\<lparr>ss_last_peer_seq := f_seq f, ss_out_seq := (((ss_out_seq ss + 1) AND MAX_SEQ) + 1) AND MAX_SEQ\<rparr>,
          snd (dw_put (f_seq f) d dw)))\<rparr>)"
    by (simp add: us_on_datagram_fresh [OF assms(2,7) peer get] us_execute_exact [OF ok(2) acks(1) on fs refl]
        assms(10,11) echo_answer_def)
  show "list_all frame_ok gs" using fs by (simp add: assms(10) echo_answer_def)
  show "dw_get (f_seq f) (snd (dw_put (f_seq f) d dw)) = Some d" by (rule window.lookup_store [OF ok(2)])
qed

section \<open>Properties\<close>

text \<open>A server with a window of four, and a HELLO that asks for an acknowledgement.\<close>

definition us0 :: "nat udp_server" where
  "us0 = us_attach (new_udp_server [1] 4)"

definition hello1 :: frame where
  "hello1 = hello0\<lparr>f_flags := FLAG_REQUIRE_ACK\<rparr>"

lemma us0: "us_ok us0" "us_attached us0" "us_peers us0 a = None" "us_secret us0 = [1]" "us_dedup_size us0 = 4"
  by (simp_all add: us0_def new_udp_server_ok) (simp_all add: us_attach_def new_udp_server_def)

lemma hello1: "frame_ok hello1" "f_type hello1 = HELLO" "f_flags hello1 AND FLAG_REQUIRE_ACK \<noteq> 0"
  "\<exists>cid nonce. decode_hello py_env0 (f_payload hello1) = Inr (cid, nonce)"
  using hello0_ok
  by (auto simp: hello1_def frame_ok_def FLAG_REQUIRE_ACK_def hello0_def)

lemma us_run0:
  obtains d us1 ss dw where "us_on_datagram py_env0 (\<lambda>n. replicate n 0) (\<lambda>n. replicate n 0) (wire [1] hello1) 0 us0
    = (Inr (), [(d, 0)], us1)" "us_handled us1 = us_handled us0 + 1" "us_peers us1 0 = Some (ss, dw)"
    "ss_state ss = READY" "ss_last_peer_seq ss = 0"
proof -
  obtain cid nonce where h: "decode_hello py_env0 (f_payload hello1) = Inr (cid, nonce)" using hello1 by blast
  obtain d us1 ss dw where "us_on_datagram py_env0 (\<lambda>n. replicate n 0) (\<lambda>n. replicate n 0) (wire (us_secret us0) hello1) 0 us0
    = (Inr (), [(d, 0)], us1)" "us1 = us0\<lparr>us_handled := us_handled us0 + 1, us_peers := (us_peers us0)(0 \<mapsto> (ss, dw))\<rparr>"
    "ss_state ss = READY" "ss_last_peer_seq ss = f_seq hello1"
    by (rule us_hello [OF us0(1,2) zeros_ok us0(3) hello1(2) h hello1(1,3), where addr = 0 and ?rng0.0 = "\<lambda>n. replicate n 0"]) blast
  with that [of d us1 ss dw] show thesis by (simp add: us0 hello1_def hello0_def)
qed

text \<open>
  C21. Whatever datagram arrives from whatever address, the server keeps its invariant (open
  sessions, distinct remembered numbers, at most a window of them, only replies that decode),
  changes no other peer, raises nothing but the scanner's ValueError or RecursionError, and sends
  at most one datagram, to the sender, made of well-formed authenticated frames.
\<close>

theorem udp_server_invariant:
  assumes "us_ok us" "us_attached us" "rng_ok rng" "us_on_datagram env rng0 rng data addr us = (r, out, us')"
  shows "us_ok us' \<and> us_attached us' \<and> (\<forall>a. a \<noteq> addr \<longrightarrow> us_peers us' a = us_peers us a)
    \<and> r \<in> {Inr (), Inl ValueError, Inl RecursionError}
    \<and> (out = [] \<or> (\<exists>d fs. out = [(d, addr)] \<and> fs \<noteq> [] \<and> split_datagram d (us_secret us) = Inr fs))
    \<and> us_handled us' + us_duplicates us' \<le> us_handled us + us_duplicates us + 1"
proof -
  have "r \<in> {Inr (), Inl ValueError, Inl RecursionError}
    \<and> (out = [] \<or> (\<exists>d fs. out = [(d, addr)] \<and> fs \<noteq> [] \<and> split_datagram d (us_secret us) = Inr fs))
    \<and> us_handled us' + us_duplicates us' \<le> us_handled us + us_duplicates us + 1"
  proof (cases rule: us_on_datagram_cases [OF assms(1-3), of data env rng0 addr,
      case_names dropped duplicate crash executed])
    case (duplicate f ss dw d)
    then have "reply_ok (us_secret us) d"
      using us_okD [OF assms(1) duplicate(2)] by (auto simp: peer_ok_def dw_get_def dest!: map_of_SomeD)
    then obtain gs where "list_all frame_ok gs" "d = concat (map (wire (us_secret us)) gs)"
      by (auto simp: reply_ok_def)
    moreover from this have "d \<noteq> [] \<Longrightarrow> gs \<noteq> []" by auto
    ultimately have "d \<noteq> [] \<Longrightarrow> gs \<noteq> [] \<and> split_datagram d (us_secret us) = Inr gs"
      by (simp add: split_datagram_iff)
    with duplicate(4) assms(4) show ?thesis by (cases "d = []") auto
  qed (use assms(4) in \<open>auto simp: split_datagram_iff\<close>)
  with us_step_ok [OF assms] show ?thesis by blast
qed

theorem udp_server_invariant_witness:
  "us_ok (snd (snd (us_on_datagram py_env0 (\<lambda>n. replicate n 0) (\<lambda>n. replicate n 0) [] 7 us0)))"
  using udp_server_invariant [OF us0(1,2) zeros_ok, of py_env0 "\<lambda>n. replicate n 0" "[]" 7]
  by (metis prod.collapse)

text \<open>
  A datagram that does not decode changes nothing and is not answered: no peer is created
  for its address and the session its address names is not torn down.
\<close>

theorem undecodable_datagram_ignored:
  assumes "us_attached us" "decode data (Some (us_secret us)) = Inl e"
  shows "us_on_datagram env rng0 rng data addr us = (Inr (), [], us)"
proof -
  from decode_Inl [OF assms(2)] obtain c m where "e = ProtocolError c m" by (rule is_protocol_errorE)
  with assms show ?thesis by (simp add: us_on_datagram_def)
qed

theorem undecodable_datagram_ignored_witness:
  "us_on_datagram py_env0 (\<lambda>n. []) (\<lambda>n. []) [1, 2] 7 us0 = (Inr (), [], us0)"
proof -
  have "\<exists>e. decode [1, 2] (Some (us_secret us0)) = Inl e"
    by (simp add: decode_def decode_header_def HEADER_SIZE_def MAC_SIZE_def)
  then show ?thesis using undecodable_datagram_ignored [OF us0(2)] by blast
qed

text \<open>
  C22. Exactly once inside the window: take a datagram that was executed and then any datagrams
  from anyone, as long as the peer stays and sends fewer datagrams than the window holds. A
  further frame with the same number is then not executed: it is answered with the very bytes
  the first one was answered with, and only the duplicate counter changes.
\<close>

theorem retransmission_replayed:
  assumes "us_ok us" "us_attached us" "rng_ok rng" "frame_ok f" "frame_ok g" "f_seq g = f_seq f"
    and "us_on_datagram env rng0 rng (wire (us_secret us) f) addr us = (Inr (), out, us1)"
      "us_handled us1 = us_handled us + 1"
    and "us_run env rng0 rng es us1 = (outs, us2)" "stays env rng0 rng addr es us1"
      "int (length (filter (\<lambda>e. snd e = addr) es)) < us_dedup_size us"
  shows "us_on_datagram env rng0 rng (wire (us_secret us) g) addr us2 =
    (Inr (), out, us2\<lparr>us_duplicates := us_duplicates us2 + 1\<rparr>)"
proof -
  note s1 = us_step_ok [OF assms(1-3,7)]
  obtain d where d: "out = (if d \<noteq> [] then [(d, addr)] else [])"
    "remembers addr (f_seq f) d (length (filter (\<lambda>e. snd e = addr) es)) us1"
  proof (cases rule: us_on_datagram_cases [OF assms(1-3), of "wire (us_secret us) f" env rng0 addr,
      case_names dropped duplicate crash executed])
    case (executed f' ss dw gs close ss2 d)
    have f': "f' = f" using executed(1) decode_wire [OF assms(4)] by simp
    have w: "window_ok dw" "dw_size dw = us_dedup_size us"
      using peer_of_ok [OF assms(1) executed(2)] by (simp_all add: peer_ok_def)
    have "d \<noteq> [] \<longleftrightarrow> gs \<noteq> []" unfolding executed(5) concat_wire_Nil by simp
    moreover have "\<not> close" using stays_here [OF assms(10)] executed(6) assms(7) by auto
    moreover have "dw_get (f_seq f) (snd (dw_put (f_seq f) d dw)) = Some d"
      "dw_age (f_seq f) (snd (dw_put (f_seq f) d dw)) = 0"
      by (rule window.lookup_store [OF w(1)], rule window.age_store [OF w(1)])
    ultimately show thesis
      using that [of d] executed(6) assms(7,11) by (auto simp: remembers_def f')
  qed (use assms(4,7,8) in \<open>auto simp: decode_wire\<close>)
  have u: "us_ok us1" "us_attached us1" "us_secret us1 = us_secret us" using s1 by simp_all
  have "us_attached us2 \<and> us_secret us2 = us_secret us"
    using us_run_ok [OF u(1,2) assms(3,9)] u(3) by simp
  moreover obtain ss dw where "us_peers us2 addr = Some (ss, dw)" "dw_get (f_seq g) dw = Some d"
    using remembers_run [OF u(1,2) assms(3,9,10) d(2)] by (auto simp: remembers_def assms(6))
  moreover from this have "(us_peers us2)(addr \<mapsto> (ss, dw)) = us_peers us2" by (simp add: map_upd_triv)
  ultimately show ?thesis
    using assms(5) d(1) decode_wire [of g "us_secret us"]
    by (simp add: us_on_datagram_def)
qed

theorem retransmission_replayed_witness:
  "\<exists>d us1. us_on_datagram py_env0 (\<lambda>n. replicate n 0) (\<lambda>n. replicate n 0) (wire [1] hello1) 0 us0 = (Inr (), [(d, 0)], us1)
    \<and> us_on_datagram py_env0 (\<lambda>n. replicate n 0) (\<lambda>n. replicate n 0) (wire [1] hello1) 0 us1
      = (Inr (), [(d, 0)], us1\<lparr>us_duplicates := us_duplicates us1 + 1\<rparr>)"
proof -
  obtain d us1 ss dw where r: "us_on_datagram py_env0 (\<lambda>n. replicate n 0) (\<lambda>n. replicate n 0) (wire [1] hello1) 0 us0
    = (Inr (), [(d, 0)], us1)" "us_handled us1 = us_handled us0 + 1" "us_peers us1 0 = Some (ss, dw)"
    by (rule us_run0)
  have "us_on_datagram py_env0 (\<lambda>n. replicate n 0) (\<lambda>n. replicate n 0) (wire (us_secret us0) hello1) 0 us1
      = (Inr (), [(d, 0)], us1\<lparr>us_duplicates := us_duplicates us1 + 1\<rparr>)"
    by (rule retransmission_replayed [OF us0(1,2) zeros_ok hello1(1,1) refl, where es = "[]" and outs = "[]"])
      (use r in \<open>auto simp: us0\<close>)
  with r(1) show ?thesis unfolding us0 by blast
qed

text \<open>
  An executed frame that asks for an acknowledgement is answered by one datagram whose first
  frame is an ACK that decodes to the number of the request, so that a client can tell which
  request a datagram answers.
\<close>

theorem answer_names_request:
  assumes "us_ok us" "us_attached us" "rng_ok rng" "0 < json_depth env"
    and "frame_ok f" "f_flags f AND FLAG_REQUIRE_ACK \<noteq> 0"
    and "us_on_datagram env rng0 rng (wire (us_secret us) f) addr us = (Inr (), out, us')"
      "us_handled us' = us_handled us + 1"
  shows "\<exists>d a fs. out = [(d, addr)] \<and> split_datagram d (us_secret us) = Inr (a # fs)
    \<and> f_type a = ACK \<and> decode_ack env (f_payload a) = Inr (f_seq f)"
proof (cases rule: us_on_datagram_cases [OF assms(1-3), of "wire (us_secret us) f" env rng0 addr,
      case_names dropped duplicate crash executed])
  case (executed f' ss dw gs close ss2 d)
  have f': "f' = f" using executed(1) decode_wire [OF assms(5)] by simp
  with executed(9) assms(6) obtain p gs' where p: "gs = mk_frame ACK (ss_out_seq ss) p 0 # gs'"
    "encode_ack (f_seq f) = Inr p" by blast
  have "\<bar>f_seq f\<bar> < 10 ^ 20" using assms(5) by (simp add: frame_ok_def MAX_SEQ_def)
  then have "field_ok (FInt (f_seq f))" by (rule field_ok_small)
  with assms(4) p(2) ack_msg.dec_of_enc [of env "f_seq f" p] have "decode_ack env p = Inr (f_seq f)"
    by auto
  moreover have "split_datagram d (us_secret us) = Inr gs" using executed(4,5) by (simp add: split_datagram_iff)
  ultimately show ?thesis using executed(6) assms(7) p(1) by auto
qed (use assms(5,7,8) in \<open>auto simp: decode_wire\<close>)

theorem answer_names_request_witness:
  "\<exists>d us1 a fs. us_on_datagram py_env0 (\<lambda>n. replicate n 0) (\<lambda>n. replicate n 0) (wire [1] hello1) 0 us0 = (Inr (), [(d, 0)], us1)
    \<and> split_datagram d [1] = Inr (a # fs) \<and> decode_ack py_env0 (f_payload a) = Inr 0"
proof -
  obtain d us1 ss dw where r: "us_on_datagram py_env0 (\<lambda>n. replicate n 0) (\<lambda>n. replicate n 0) (wire [1] hello1) 0 us0
    = (Inr (), [(d, 0)], us1)" "us_handled us1 = us_handled us0 + 1" "us_peers us1 0 = Some (ss, dw)"
    by (rule us_run0)
  have "f_seq hello1 = 0" by (simp add: hello1_def hello0_def)
  with answer_names_request [OF us0(1,2) zeros_ok _ hello1(1,3), of py_env0 "\<lambda>n. replicate n 0" 0 "[(d, 0)]" us1] r
  show ?thesis by (auto simp: us0 py_env0_def)
qed

text \<open>
  A BYE on a ready session is executed and the peer forgotten; on a peer that is not known it is
  answered, on a fresh session, with an error.
\<close>

lemma us_bye_forgets:
  assumes "us_ok us" "us_attached us" "us_peers us addr = Some (ss, dw)"
    and "ss_state ss = READY" "f_type f = BYE" "frame_ok f" "ss_last_peer_seq ss < f_seq f"
  obtains out where "us_on_datagram env rng0 rng (wire (us_secret us) f) addr us =
    (Inr (), out, us\<lparr>us_handled := us_handled us + 1, us_peers := (us_peers us)(addr := None)\<rparr>)"
proof -
  have p1: "peer_ok (us_secret us) ss dw" using us_okD [OF assms(1,3)] by simp
  have get: "dw_get (f_seq f) dw = None"
    using p1 assms(7) by (auto simp: peer_ok_def dw_get_def map_of_eq_None_iff)
  have peer: "peer_of rng0 us addr = (ss, dw)" using assms(3) by (simp add: peer_of_def)
  obtain acks ss1 where a: "us_acks f ss = (Inr acks, ss1)" "list_all frame_ok acks" "session_ok ss1"
    "ss_state ss1 = ss_state ss" "ss_last_peer_seq ss1 = ss_last_peer_seq ss"
    by (rule us_acks_outcome [of ss f]) (use p1 assms(6) in \<open>auto simp: peer_ok_def\<close>)
  let ?bye = "mk_frame BYE (ss_out_seq ss1) [] 0"
  obtain ss2 where on: "on_frame env rng f ss1 =
      (Inr \<lparr>ra_frames = [?bye], ra_close = True, ra_reason = Some (ascii ''peer said bye'')\<rparr>, ss2)"
    using a(4,5) assms(4,5,7) by (simp add: on_frame_dispatch dispatch_def ss_frame_eq)
  have "frame_ok ?bye" using a(3) by (simp add: frame_ok_def session_ok_def)
  then have fs: "list_all frame_ok (acks @ ra_frames \<lparr>ra_frames = [?bye], ra_close = True,
      ra_reason = Some (ascii ''peer said bye'')\<rparr>)" using a(2) by simp
  have w: "window_ok dw" using p1 by (simp add: peer_ok_def)
  show thesis
    by (rule that, simp add: us_on_datagram_fresh [OF assms(2,6) peer get] us_execute_exact [OF w a(1) on fs refl])
qed

lemma us_bye_unknown_peer:
  assumes "us_ok us" "us_attached us" "us_peers us addr = None" "f_type f = BYE" "frame_ok f"
  obtains gs e m us' where
    "us_on_datagram env rng0 rng (wire (us_secret us) f) addr us =
      (Inr (), [(concat (map (wire (us_secret us)) (gs @ [e])), addr)], us')"
    "us_handled us' = us_handled us + 1" "us_duplicates us' = us_duplicates us"
    "list_all frame_ok (gs @ [e])" "f_type e = ERROR" "encode_error ERR_STATE m = Inr (f_payload e)"
proof -
  let ?new = "new_session rng0" and ?w = "new_window (us_dedup_size us)"
  have peer: "peer_of rng0 us addr = (?new, ?w)" "dw_get (f_seq f) ?w = None"
    using assms(3) by (simp_all add: peer_of_def new_window_def dw_get_def)
  have new: "session_ok ?new" "ss_state ?new = NEW" "ss_last_peer_seq ?new < f_seq f"
    using new_session_ok [of rng0] assms(5) by (simp_all add: new_session_def frame_ok_def)
  obtain acks ss1 where a: "us_acks f ?new = (Inr acks, ss1)" "list_all frame_ok acks" "session_ok ss1"
    "ss_state ss1 = NEW" "ss_last_peer_seq ss1 < f_seq f"
    by (rule us_acks_outcome [OF new(1) assms(5)]) (use new(2,3) in auto)
  let ?m = "msg_name BYE @ ascii '' is not allowed before the handshake''"
  let ?ss = "ss1\<lparr>ss_last_peer_seq := f_seq f\<rparr>"
  obtain p where p: "encode_error ERR_STATE ?m = Inr p" "length p \<le> MAX_PAYLOAD"
    "ss_error ERR_STATE ?m ?ss = (Inr (reply ERROR p True (Some (error_text ERR_STATE ?m)) ?ss),
       ?ss\<lparr>ss_state := CLOSED, ss_out_seq := (ss_out_seq ?ss + 1) AND MAX_SEQ\<rparr>)"
    using ss_error_outcome [OF wire_text_before [of BYE], of ERR_STATE ?ss] by blast
  have on: "on_frame env rng f ss1 = ss_error ERR_STATE ?m ?ss"
    using a(4,5) assms(4) by (simp add: on_frame_dispatch dispatch_def)
  have fs: "list_all frame_ok (acks @ ra_frames (reply ERROR p True (Some (error_text ERR_STATE ?m)) ?ss))"
    using a(2,3) p(2) by (simp add: reply_def frame_ok_def session_ok_def)
  have w: "window_ok ?w" using assms(1) by (simp add: us_ok_def new_window_def window_ok_def)
  let ?e = "mk_frame ERROR (ss_out_seq ss1) p 0"
  obtain us' where "us_on_datagram env rng0 rng (wire (us_secret us) f) addr us =
      (Inr (), [(concat (map (wire (us_secret us)) (acks @ [?e])), addr)], us')"
    "us_handled us' = us_handled us + 1" "us_duplicates us' = us_duplicates us"
    by (simp add: us_on_datagram_fresh [OF assms(2,5) peer] us_execute_exact [OF w a(1) on [unfolded p(3)] fs refl]
      reply_def)
  then show thesis
    by (rule that) (use fs p(1) in \<open>simp_all add: reply_def\<close>)
qed

text \<open>
  C23. Deduplication ends with the session: when a BYE closes the session the peer is forgotten
  together with its window, so a retransmission of that BYE (its answer was lost) is executed a
  second time, on a fresh session, and answered with an ERR_STATE error instead of the stored
  reply.
\<close>

theorem bye_retransmission_executed:
  assumes "us_ok us" "us_attached us" "rng_ok rng" "us_peers us addr = Some (ss, dw)"
    and "ss_state ss = READY" "f_type f = BYE" "frame_ok f" "ss_last_peer_seq ss < f_seq f"
    and "us_run env rng0 rng [(wire (us_secret us) f, addr), (wire (us_secret us) f, addr)] us = ([out1, out2], us2)"
  shows "us_handled us2 = us_handled us + 2 \<and> us_duplicates us2 = us_duplicates us
    \<and> (\<exists>d fs e p m. out2 = [(d, addr)] \<and> split_datagram d (us_secret us) = Inr (fs @ [e])
      \<and> f_type e = ERROR \<and> f_payload e = p \<and> encode_error ERR_STATE m = Inr p)"
proof -
  define us1 where "us1 = us\<lparr>us_handled := us_handled us + 1, us_peers := (us_peers us)(addr := None)\<rparr>"
  have us1: "us_peers us1 addr = None" "us_handled us1 = us_handled us + 1" "us_duplicates us1 = us_duplicates us"
    "us_secret us1 = us_secret us" by (simp_all add: us1_def)
  obtain o1 where first: "us_on_datagram env rng0 rng (wire (us_secret us) f) addr us = (Inr (), o1, us1)"
    unfolding us1_def by (rule us_bye_forgets [OF assms(1,2,4-8)])
  have "us_ok us1" "us_attached us1" using us_step_ok [OF assms(1-3) first] by simp_all
  then obtain gs e m us3 where second: "us_on_datagram env rng0 rng (wire (us_secret us) f) addr us1 =
      (Inr (), [(concat (map (wire (us_secret us)) (gs @ [e])), addr)], us3)"
      "us_handled us3 = us_handled us1 + 1" "us_duplicates us3 = us_duplicates us1"
    and e: "list_all frame_ok (gs @ [e])" "f_type e = ERROR" "encode_error ERR_STATE m = Inr (f_payload e)"
    by (rule us_bye_unknown_peer [OF _ _ us1(1) assms(6,7), of env rng0 rng, unfolded us1(4)])
  have "split_datagram (concat (map (wire (us_secret us)) (gs @ [e]))) (us_secret us) = Inr (gs @ [e])"
    using e(1) by (simp add: split_datagram_iff del: map_append concat_append)
  moreover have "out2 = [(concat (map (wire (us_secret us)) (gs @ [e])), addr)]" "us2 = us3"
    using assms(9) first second(1) by simp_all
  ultimately show ?thesis using second(2,3) us1(2,3) e(2,3) by auto
qed

theorem bye_retransmission_executed_witness:
  "\<exists>us us2 out1 out2. us_run py_env0 (\<lambda>n. replicate n 0) (\<lambda>n. replicate n 0)
      [(wire [1] (mk_frame BYE 1 [] 1), 0), (wire [1] (mk_frame BYE 1 [] 1), 0 :: nat)] us = ([out1, out2], us2)
    \<and> us_handled us2 = us_handled us + 2"
proof -
  obtain d us1 ss dw where r: "us_on_datagram py_env0 (\<lambda>n. replicate n 0) (\<lambda>n. replicate n 0) (wire [1] hello1) 0 us0
    = (Inr (), [(d, 0)], us1)" "us_peers us1 0 = Some (ss, dw)" "ss_state ss = READY" "ss_last_peer_seq ss = 0"
    by (rule us_run0)
  from us_step_ok [OF us0(1,2) zeros_ok r(1)] us0(4)
  have ok: "us_ok us1" "us_attached us1" "us_secret us1 = [1]" by simp_all
  let ?f = "mk_frame BYE 1 [] 1"
  obtain out1 out2 us2 where run: "us_run py_env0 (\<lambda>n. replicate n 0) (\<lambda>n. replicate n 0)
      [(wire (us_secret us1) ?f, 0), (wire (us_secret us1) ?f, 0)] us1 = ([out1, out2], us2)"
    by (cases "us_run py_env0 (\<lambda>n. replicate n 0) (\<lambda>n. replicate n 0)
      [(wire (us_secret us1) ?f, 0), (wire (us_secret us1) ?f, 0)] us1") (auto split: prod.split_asm)
  have "us_handled us2 = us_handled us1 + 2"
    using bye_retransmission_executed [OF ok(1,2) zeros_ok r(2,3) _ _ _ run] r(4)
    by (simp add: frame_ok_def MAX_SEQ_def)
  with run show ?thesis unfolding ok by blast
qed

end
