(* ===== verification/Udp_Client.thy ===== *)
theory Udp_Client
  imports Udp_Server_Props
begin

text \<open>
  \<^verbatim>\<open>src/wireline/transport/udp.py\<close>, the UDP client: stop and wait with retransmission. The world
  behind the socket is a parameter \<open>net\<close>: given a datagram that the client sends it yields the
  datagrams that reach the client's queue before the retransmission timer runs out, and the new
  state of the world. Datagrams not read stay in the queue for later requests.
\<close>

section \<open>The client\<close>

record udp_client =
  uc_secret :: bytes
  uc_client_id :: ustr
  uc_max_retries :: int
  uc_attached :: bool
  uc_queue :: "bytes list"
  uc_out_seq :: int
  uc_state :: state
  uc_session_id :: "ustr option"
  uc_retransmits :: nat

definition DEFAULT_MAX_RETRIES :: int where "DEFAULT_MAX_RETRIES = 5"

definition new_udp_client :: "bytes \<Rightarrow> ustr \<Rightarrow> int \<Rightarrow> udp_client" where
  "new_udp_client secret client_id max_retries =
     \<lparr>uc_secret = secret, uc_client_id = client_id, uc_max_retries = max_retries,
      uc_attached = False, uc_queue = [], uc_out_seq = 0, uc_state = NEW, uc_session_id = None,
      uc_retransmits = 0\<rparr>"

text \<open>
  \<^verbatim>\<open>_await_reply\<close> on the datagrams in the queue: the result or the exception and the datagrams
  not read, or \<open>None\<close> when the queue runs dry and \<^verbatim>\<open>wait_for\<close> raises its TimeoutError.
\<close>

definition answers_seq :: "py_env \<Rightarrow> int \<Rightarrow> frame list \<Rightarrow> bool res" where
  "answers_seq env seq frames =
     (case frames of
        [] \<Rightarrow> Inl IndexError
      | a # _ \<Rightarrow>
          if f_type a = ACK then rbind (decode_ack env (f_payload a)) (\<lambda>n. Inr (n = seq))
          else Inr False)"

definition reply_result :: "py_env \<Rightarrow> frame \<Rightarrow> frame res" where
  "reply_result env g =
     (if f_type g = ERROR then
        (case decode_error env (f_payload g) of
           Inl e \<Rightarrow> Inl e
         | Inr (code, message) \<Rightarrow> Inl (ProtocolError code message))
      else Inr g)"

fun uc_await :: "py_env \<Rightarrow> bytes \<Rightarrow> int \<Rightarrow> bytes list \<Rightarrow> frame res option \<times> bytes list" where
  "uc_await env secret seq [] = (None, [])"
| "uc_await env secret seq (d # ds) =
     (case rbind (split_datagram d secret) (\<lambda>fs. rbind (answers_seq env seq fs) (\<lambda>b. Inr (b, fs))) of
        Inl (ProtocolError _ _) \<Rightarrow> uc_await env secret seq ds
      | Inl e \<Rightarrow> (Some (Inl e), ds)
      | Inr (False, _) \<Rightarrow> uc_await env secret seq ds
      | Inr (True, fs) \<Rightarrow> (Some (reply_result env (last fs)), ds))"

type_synonym 'w net = "bytes \<Rightarrow> 'w \<Rightarrow> bytes list \<times> 'w"

definition attempt_frame :: "msg_type \<Rightarrow> int \<Rightarrow> bytes \<Rightarrow> nat \<Rightarrow> frame" where
  "attempt_frame t seq payload attempt =
     mk_frame t seq payload (FLAG_REQUIRE_ACK OR (if attempt \<noteq> 0 then FLAG_RETRANSMIT else 0))"

text \<open>The loop of \<^verbatim>\<open>request\<close>: \<open>attempt\<close> is its counter, the next argument the attempts left.\<close>

fun uc_attempts ::
  "py_env \<Rightarrow> 'w net \<Rightarrow> msg_type \<Rightarrow> int \<Rightarrow> bytes \<Rightarrow> nat \<Rightarrow> nat \<Rightarrow> udp_client \<Rightarrow> 'w \<Rightarrow> frame res \<times> udp_client \<times> 'w"
where
  "uc_attempts env net t seq payload attempt 0 uc w =
     (Inl (ProtocolError ERR_TIMEOUT (ascii ''no reply for seq '' @ dec_int seq @ ascii '' after ''
        @ dec_int (uc_max_retries uc) @ ascii '' retries'')), uc, w)"
| "uc_attempts env net t seq payload attempt (Suc n) uc w =
     (case encode (attempt_frame t seq payload attempt) (uc_secret uc) of
        Inl e \<Rightarrow> (Inl e, uc, w)
      | Inr raw \<Rightarrow>
          (case net raw w of (arrived, w') \<Rightarrow>
             let uc1 = uc\<lparr>uc_retransmits := uc_retransmits uc + (if attempt \<noteq> 0 then 1 else 0)\<rparr>
             in case uc_await env (uc_secret uc) seq (uc_queue uc @ arrived) of
                  (None, q) \<Rightarrow>
                    uc_attempts env net t seq payload (attempt + 1) n (uc1\<lparr>uc_queue := q\<rparr>) w'
                | (Some r, q) \<Rightarrow> (r, uc1\<lparr>uc_queue := q\<rparr>, w')))"

definition uc_next_seq :: "udp_client \<Rightarrow> int \<times> udp_client" where
  "uc_next_seq uc = (uc_out_seq uc, uc\<lparr>uc_out_seq := (uc_out_seq uc + 1) AND MAX_SEQ\<rparr>)"

definition uc_request ::
  "py_env \<Rightarrow> 'w net \<Rightarrow> msg_type \<Rightarrow> bytes \<Rightarrow> udp_client \<Rightarrow> 'w \<Rightarrow> frame res \<times> udp_client \<times> 'w"
where
  "uc_request env net t payload uc w =
     (if \<not> uc_attached uc then (Inl (ProtocolError ERR_STATE (ascii ''client is not connected'')), uc, w)
      else
        case uc_next_seq uc of (seq, uc1) \<Rightarrow>
          uc_attempts env net t seq payload 0 (nat (uc_max_retries uc + 1)) uc1 w)"

definition uc_send_data ::
  "py_env \<Rightarrow> 'w net \<Rightarrow> bytes \<Rightarrow> udp_client \<Rightarrow> 'w \<Rightarrow> bytes res \<times> udp_client \<times> 'w"
where
  "uc_send_data env net payload uc w =
     (case uc_request env net DATA payload uc w of
        (Inl e, s) \<Rightarrow> (Inl e, s)
      | (Inr f, s) \<Rightarrow> (Inr (f_payload f), s))"

text \<open>\<open>opened\<close> is the outcome of \<^verbatim>\<open>create_datagram_endpoint\<close>.\<close>

definition uc_connect ::
  "py_env \<Rightarrow> (nat \<Rightarrow> bytes) \<Rightarrow> unit res \<Rightarrow> 'w net \<Rightarrow> udp_client \<Rightarrow> 'w \<Rightarrow> unit res \<times> udp_client \<times> 'w"
where
  "uc_connect env rng opened net uc w =
     (case opened of
        Inl e \<Rightarrow> (Inl e, uc, w)
      | Inr _ \<Rightarrow>
          let uc1 = uc\<lparr>uc_attached := True, uc_state := HANDSHAKE\<rparr>
          in case encode_hello rng (uc_client_id uc1) None of
               Inl e \<Rightarrow> (Inl e, uc1, w)
             | Inr p \<Rightarrow>
                 (case uc_request env net HELLO p uc1 w of
                    (Inl e, uc2, w') \<Rightarrow> (Inl e, uc2, w')
                  | (Inr f, uc2, w') \<Rightarrow>
                      if f_type f \<noteq> HELLO_ACK then
                        (Inl (ProtocolError ERR_STATE
                           (ascii ''expected HELLO_ACK, got '' @ msg_name (f_type f))), uc2, w')
                      else
                        (case decode_hello_ack env (f_payload f) of
                           Inl e \<Rightarrow> (Inl e, uc2, w')
                         | Inr (session_id, _) \<Rightarrow>
                             (Inr (), uc2\<lparr>uc_session_id := Some session_id, uc_state := READY\<rparr>, w'))))"

text \<open>The transport is closed and dropped; \<^verbatim>\<open>_sendto\<close> is not.\<close>

definition uc_close :: "udp_client \<Rightarrow> udp_client" where
  "uc_close uc = uc\<lparr>uc_state := CLOSED\<rparr>"

text \<open>\<^verbatim>\<open>async with UdpClient(...) as client\<close>: a failed \<^verbatim>\<open>connect\<close> leaves the client unclosed.\<close>

definition uc_async_with ::
  "py_env \<Rightarrow> (nat \<Rightarrow> bytes) \<Rightarrow> unit res \<Rightarrow> 'w net \<Rightarrow> (udp_client \<Rightarrow> 'w \<Rightarrow> 'a res \<times> udp_client \<times> 'w)
     \<Rightarrow> udp_client \<Rightarrow> 'w \<Rightarrow> 'a res \<times> udp_client \<times> 'w"
where
  "uc_async_with env rng opened net body uc w =
     (case uc_connect env rng opened net uc w of
        (Inl e, uc1, w1) \<Rightarrow> (Inl e, uc1, w1)
      | (Inr _, uc1, w1) \<Rightarrow>
          (case body uc1 w1 of (r, uc2, w2) \<Rightarrow> (r, uc_close uc2, w2)))"

interpretation uc_seq: sequence uc_next_seq uc_out_seq
  by unfold_locales (simp_all add: uc_next_seq_def)

section \<open>What a request returns\<close>

text \<open>A datagram that answers a request.\<close>

definition answer_to :: "py_env \<Rightarrow> bytes \<Rightarrow> int \<Rightarrow> bytes \<Rightarrow> frame \<Rightarrow> bool" where
  "answer_to env secret seq d g \<longleftrightarrow> (\<exists>a fs. split_datagram d secret = Inr (a # fs) \<and> f_type a = ACK
     \<and> decode_ack env (f_payload a) = Inr seq \<and> g = last (a # fs) \<and> f_type g \<noteq> ERROR)"

lemma answers_seq_True:
  "answers_seq env seq fs = Inr True \<longleftrightarrow>
     (\<exists>a gs. fs = a # gs \<and> f_type a = ACK \<and> decode_ack env (f_payload a) = Inr seq)"
  by (auto simp: answers_seq_def rbind_eq_Inr_iff split: list.split)

lemma reply_result_Inr: "reply_result env g = Inr h \<longleftrightarrow> g = h \<and> f_type h \<noteq> ERROR"
  by (auto simp: reply_result_def split: sum.split)

lemma uc_await_head:
  assumes "uc_await env secret seq (d # ds) = (Some (Inr g), ds)"
    "uc_await env secret seq (d # ds) \<noteq> uc_await env secret seq ds"
  shows "answer_to env secret seq d g"
proof -
  obtain fs where fs: "split_datagram d secret = Inr fs"
    using assms by (cases "split_datagram d secret") (auto split: exn.split_asm)
  obtain b where b: "answers_seq env seq fs = Inr b"
    using assms fs by (cases "answers_seq env seq fs") (auto split: exn.split_asm)
  have t: "b = True" using assms(2) fs b by (cases b) simp_all
  then have "answers_seq env seq fs = Inr True" using b by simp
  then obtain a gs where a: "fs = a # gs" "f_type a = ACK" "decode_ack env (f_payload a) = Inr seq"
    unfolding answers_seq_True by blast
  have "reply_result env (last fs) = Inr g" using assms(1) fs b t by simp
  then have "g = last fs" "f_type g \<noteq> ERROR" unfolding reply_result_Inr by auto
  with a fs show ?thesis unfolding answer_to_def by blast
qed

lemma uc_await_step:
  "uc_await env secret seq (d # ds) = uc_await env secret seq ds \<or> (\<exists>r. uc_await env secret seq (d # ds) = (Some r, ds))"
proof (cases "rbind (split_datagram d secret) (\<lambda>fs. rbind (answers_seq env seq fs) (\<lambda>b. Inr (b, fs)))")
  case (Inl e)
  then show ?thesis by (cases e) simp_all
next
  case (Inr bfs)
  then show ?thesis by (cases bfs; cases "fst bfs") auto
qed

lemma uc_await_answer:
  "uc_await env secret seq ds = (Some (Inr g), rest) \<Longrightarrow> \<exists>d \<in> set ds. answer_to env secret seq d g"
proof (induction ds)
  case (Cons d ds)
  show ?case
  proof (cases "uc_await env secret seq (d # ds) = uc_await env secret seq ds")
    case True
    with Cons show ?thesis by (simp del: uc_await.simps)
  next
    case False
    with uc_await_step [of env secret seq d ds] Cons.prems
    have "uc_await env secret seq (d # ds) = (Some (Inr g), ds)" by (auto simp del: uc_await.simps)
    then show ?thesis using uc_await_head False by simp
  qed
qed simp

lemma uc_await_rest: "uc_await env secret seq ds = (r, rest) \<Longrightarrow> set rest \<subseteq> set ds"
proof (induction ds)
  case (Cons d ds)
  from uc_await_step [of env secret seq d ds] Cons.prems Cons.IH show ?case
    by (elim disjE exE) (auto simp del: uc_await.simps)
qed simp

text \<open>Every datagram the client can read satisfies \<open>P\<close>.\<close>

definition yields :: "(bytes \<Rightarrow> bool) \<Rightarrow> 'w net \<Rightarrow> bool" where
  "yields P net \<longleftrightarrow> (\<forall>raw w. list_all P (fst (net raw w)))"

lemma uc_attempts_answer:
  "uc_attempts env net t seq p k n uc w = (Inr g, uc', w') \<Longrightarrow> yields P net \<Longrightarrow> list_all P (uc_queue uc) \<Longrightarrow>
     \<exists>d. P d \<and> answer_to env (uc_secret uc) seq d g"
proof (induction n arbitrary: k uc w)
  case (Suc n)
  let ?f = "attempt_frame t seq p k"
  obtain raw where raw: "encode ?f (uc_secret uc) = Inr raw"
    using Suc.prems(1) by (auto split: sum.split_asm)
  obtain arr w1 where net: "net raw w = (arr, w1)" by (cases "net raw w")
  have all: "list_all P (uc_queue uc @ arr)"
    using Suc.prems(2,3) net by (auto simp: yields_def) (metis fst_conv)
  obtain r q where aw: "uc_await env (uc_secret uc) seq (uc_queue uc @ arr) = (r, q)"
    by (cases "uc_await env (uc_secret uc) seq (uc_queue uc @ arr)")
  show ?case
  proof (cases r)
    case None
    have "list_all P q" using all uc_await_rest [OF aw] by (auto simp: list_all_iff)
    with None Suc.prems raw net aw
      Suc.IH [of "k + 1" "uc\<lparr>uc_retransmits := uc_retransmits uc + (if k \<noteq> 0 then 1 else 0), uc_queue := q\<rparr>" w1]
    show ?thesis by (simp add: Let_def)
  next
    case (Some r')
    with Suc.prems(1) raw net aw have "r' = Inr g" by (simp add: Let_def)
    with aw Some uc_await_answer [of env "uc_secret uc" seq "uc_queue uc @ arr" g q] all
    show ?thesis by (auto simp: list_all_iff)
  qed
qed simp

lemma attempt_frame_sel [simp]:
  "f_type (attempt_frame t seq p k) = t" "f_seq (attempt_frame t seq p k) = seq"
  "f_payload (attempt_frame t seq p k) = p"
  by (simp_all add: attempt_frame_def)

lemma attempt_frame_flags: "f_flags (attempt_frame t seq p k) AND FLAG_REQUIRE_ACK \<noteq> 0"
  "0 \<le> f_flags (attempt_frame t seq p k)" "f_flags (attempt_frame t seq p k) < 4"
  by (simp_all add: attempt_frame_def FLAG_REQUIRE_ACK_def FLAG_RETRANSMIT_def)

lemma attempt_frame_ok:
  "length p \<le> MAX_PAYLOAD \<Longrightarrow> 0 \<le> seq \<Longrightarrow> seq \<le> MAX_SEQ \<Longrightarrow> frame_ok (attempt_frame t seq p k)"
  by (simp add: frame_ok_def attempt_frame_flags)

section \<open>What a request sends\<close>

text \<open>A world that also logs what the client sends.\<close>

definition logged :: "'w net \<Rightarrow> ('w \<times> bytes list) net" where
  "logged net raw wl = (case wl of (w, l) \<Rightarrow> (case net raw w of (arrived, w') \<Rightarrow> (arrived, (w', l @ [raw]))))"

lemma logged_eq: "net raw w = (arrived, w') \<Longrightarrow> logged net raw (w, l) = (arrived, (w', l @ [raw]))"
  by (simp add: logged_def)

lemma uc_attempts_sends:
  assumes "length p \<le> MAX_PAYLOAD" "0 \<le> seq" "seq \<le> MAX_SEQ"
    "uc_attempts env (logged net) t seq p k n uc (w, l) = (r, uc', (w', l'))"
  shows "\<exists>m \<le> n. l' = l @ map (\<lambda>i. wire (uc_secret uc) (attempt_frame t seq p i)) [k..<k + m]
    \<and> uc_secret uc' = uc_secret uc \<and> uc_out_seq uc' = uc_out_seq uc \<and> uc_state uc' = uc_state uc
    \<and> uc_retransmits uc' + (if k = 0 \<and> 0 < m then 1 else 0) = uc_retransmits uc + m"
  using assms(4)
proof (induction n arbitrary: k uc w l)
  case 0
  then show ?case by (intro exI [of _ 0]) simp
next
  case (Suc n)
  let ?f = "attempt_frame t seq p k"
  have raw: "encode ?f (uc_secret uc) = Inr (wire (uc_secret uc) ?f)"
    using attempt_frame_ok [OF assms(1-3)] by (rule encode_wire)
  obtain arr w1 where net: "net (wire (uc_secret uc) ?f) w = (arr, w1)" by (cases "net (wire (uc_secret uc) ?f) w")
  obtain x q where aw: "uc_await env (uc_secret uc) seq (uc_queue uc @ arr) = (x, q)"
    by (cases "uc_await env (uc_secret uc) seq (uc_queue uc @ arr)")
  let ?uc = "uc\<lparr>uc_retransmits := uc_retransmits uc + (if k \<noteq> 0 then 1 else 0), uc_queue := q\<rparr>"
  show ?case
  proof (cases x)
    case None
    with Suc.prems raw net aw have "uc_attempts env (logged net) t seq p (k + 1) n ?uc
        (w1, l @ [wire (uc_secret uc) ?f]) = (r, uc', (w', l'))"
      by (simp add: Let_def logged_eq)
    from Suc.IH [OF this] obtain m where m: "m \<le> n" "l' = (l @ [wire (uc_secret uc) ?f])
        @ map (\<lambda>i. wire (uc_secret uc) (attempt_frame t seq p i)) [k + 1..<k + 1 + m]"
      "uc_secret uc' = uc_secret uc" "uc_out_seq uc' = uc_out_seq uc" "uc_state uc' = uc_state uc"
      "uc_retransmits uc' = uc_retransmits ?uc + m" by auto
    have "[k..<k + Suc m] = k # [k + 1..<k + 1 + m]" by (simp add: upt_conv_Cons del: upt_Suc)
    with m show ?thesis
      by (intro exI [of _ "Suc m"]) (auto simp del: upt_Suc)
  next
    case (Some r')
    with Suc.prems raw net aw have "uc' = ?uc" "l' = l @ [wire (uc_secret uc) ?f]"
      by (simp_all add: Let_def logged_eq)
    then show ?thesis by (intro exI [of _ 1]) auto
  qed
qed

end
