(* ===== verification/Server_Props.thy ===== *)
theory Server_Props
  imports Server_Facts
begin

text \<open>
  What a TCP connection to the server amounts to: any connection is safe, a conversation is
  served, bytes that do not decode are reported and end it, and a peer that does not complete
  the handshake is dropped within the handshake timeout.
\<close>

lemma session_id_new [simp]: "ss_state (new_session rng) = NEW"
  by (simp add: new_session_def)

lemma serve_silence:
  assumes "in_time sv rd" "stream rd = []" "ss_state ss \<noteq> CLOSED" "session_ok ss"
  shows "\<exists>rd'. serve_loop env rng sv ss rd out = (Finished, ss\<lparr>ss_state := CLOSED\<rparr>, rd', out)"
proof -
  have "pop \<lparr>fb_buf = stream rd, fb_secret = Some (sv_secret sv)\<rparr> =
      (Inr None, \<lparr>fb_buf = stream rd, fb_secret = Some (sv_secret sv)\<rparr>)"
    by (simp add: assms(2) pop_def)
  from wait_frame_error [OF assms(1) this, of ss] obtain rd' where
    "wait_frame (sv_secret sv) (conn_timeout sv ss) rd = (Inl TimeoutError, rd')" by auto
  moreover have "\<not> (ss_state ss = CLOSING \<or> ss_state ss = CLOSED)"
    using assms(3,4) by (auto simp: session_ok_def)
  ultimately show ?thesis
    by (subst serve_loop.simps) (simp add: on_idle_timeout_def apply_last_def)
qed

lemma serve_garbage:
  assumes "in_time sv rd" "pop \<lparr>fb_buf = stream rd, fb_secret = Some (sv_secret sv)\<rparr> = (Inl (ProtocolError c m), fb')"
    "ss_state ss \<noteq> CLOSED" "session_ok ss"
  shows "\<exists>g ss' rd'. serve_loop env rng sv ss rd out = (Finished, ss', rd', out @ [wire (sv_secret sv) g])
    \<and> frame_ok g \<and> f_type g = ERROR \<and> wire_text m \<and> encode_error c m = Inr (f_payload g) \<and> ss_state ss' = CLOSED"
proof -
  from wait_frame_error [OF assms(1,2), of ss] obtain rd' where
    w: "wait_frame (sv_secret sv) (conn_timeout sv ss) rd = (Inl (ProtocolError c m), rd')" by auto
  then have m: "wire_text m" by (auto dest!: wait_frame_Inl simp: read_exn_def)
  obtain g ss' where g: "on_protocol_error c m ss =
      (Inr \<lparr>ra_frames = [g], ra_close = True, ra_reason = Some (error_text c m)\<rparr>, ss')"
    "frame_ok g" "f_type g = ERROR" "encode_error c m = Inr (f_payload g)" "ss_state ss' = CLOSED"
    using on_protocol_error_outcome [OF m assms(4), of c] by blast
  have "\<not> (ss_state ss = CLOSING \<or> ss_state ss = CLOSED)"
    using assms(3,4) by (auto simp: session_ok_def)
  with w g(1,2) have "serve_loop env rng sv ss rd out = (Finished, ss', rd', out @ [wire (sv_secret sv) g])"
    by (subst serve_loop.simps) (simp add: apply_last_ok)
  with g m show ?thesis by blast
qed

lemma error_payload_decodes:
  assumes "encode_error c m = Inr p" "wire_text m" "0 < json_depth env"
  shows "decode_error env p = Inr (c, m)"
proof -
  have "list_all scalar m" using assms(2) by (auto simp: wire_text_def list_all_iff scalar_def)
  with assms show ?thesis
    using error_msg.dec_of_enc [where x = "(c, m)" and env = env and p = p] by simp
qed

text \<open>A session without an identity: the first frame either opens it or ends the connection.\<close>

lemma on_frame_client_id:
  "on_frame env rng f ss = (r, ss') \<Longrightarrow> ss_client_id ss' = None \<Longrightarrow> ss_client_id ss = None"
  by (auto simp: on_frame_def dispatch_def on_hello_def on_data_def ss_error_def ss_frame_eq Let_def
      split: if_split_asm sum.split_asm exn.split_asm msg_type.split_asm prod.split_asm)

lemma on_protocol_error_client_id:
  "on_protocol_error c m ss = (r, ss') \<Longrightarrow> ss_client_id ss' = ss_client_id ss"
  by (auto simp: on_protocol_error_def ss_error_def ss_frame_eq Let_def split: sum.split_asm)

lemma serve_loop_client_id:
  "serve_loop env rng sv ss rd out = (r, ss', rd', out') \<Longrightarrow> ss_client_id ss' = None \<Longrightarrow>
     ss_client_id ss = None"
proof (induction env rng sv ss rd out rule: serve_loop.induct)
  case (1 env rng sv ss rd out)
  have loop: "ss_client_id ss = None"
    if "\<not> (ss_state ss = CLOSING \<or> ss_state ss = CLOSED)"
      "wait_frame (sv_secret sv) (conn_timeout sv ss) rd = (Inr f, rd1)"
      "on_frame env rng f ss = (Inr ra, ss1)"
      "apply_frames (sv_secret sv) (ra_frames ra) out = (None, out1)" "\<not> ra_close ra"
      "serve_loop env rng sv ss1 rd1 out1 = (r, ss', rd', out')" for f rd1 ra ss1 out1
    by (rule on_frame_client_id [OF that(3)], rule "1.IH" [OF that(1) that(2) [symmetric] refl
        that(3) [symmetric] refl that(4) [symmetric] refl that(5,6) "1.prems"(2)])
  from "1.prems" show ?case
    by (subst (asm) serve_loop.simps)
      (auto simp: apply_last_def on_idle_timeout_def
        split: if_split_asm prod.split_asm sum.split_asm exn.split_asm option.split_asm
        dest: on_frame_client_id on_protocol_error_client_id intro: loop)
qed

text \<open>
  While a session is NEW, every step either gives it an identity or ends the connection within
  the handshake timeout.
\<close>

lemma serve_loop_anonymous:
  assumes "serve_loop env rng sv ss rd out = (r, ss', rd', out')" "ss_client_id ss' = None"
    "ss_state ss = NEW" "session_ok ss" "rng_ok rng" "0 \<le> sv_handshake_timeout sv"
  shows "rd_now rd' \<le> rd_now rd + sv_handshake_timeout sv"
proof -
  have timeout: "conn_timeout sv ss = sv_handshake_timeout sv" using assms(3) by (simp add: conn_timeout_def)
  obtain res rd1 where w: "wait_frame (sv_secret sv) (sv_handshake_timeout sv) rd = (res, rd1)"
    by (cases "wait_frame (sv_secret sv) (sv_handshake_timeout sv) rd")
  have now: "rd_now rd1 \<le> rd_now rd + sv_handshake_timeout sv"
    using wait_frame_now [OF w] assms(6) by simp
  have "rd' = rd1"
  proof (cases res)
    case (Inl e)
    with w assms(1,3) timeout show ?thesis
      by (subst (asm) serve_loop.simps)
        (auto simp: apply_last_def split: exn.split_asm sum.split_asm prod.split_asm option.split_asm)
  next
    case (Inr f)
    have f: "frame_ok f" using w Inr by (auto dest: wait_frame_Inr)
    obtain rr ss1 where on: "on_frame env rng f ss = (rr, ss1)" by (cases "on_frame env rng f ss")
    have "ss_client_id ss1 \<noteq> None \<or> (\<forall>ra. rr = Inr ra \<longrightarrow> ra_close ra)"
      using on_frame_step_ok [OF assms(4) f assms(5), of env] on assms(3)
      by (auto simp: step_ok_def spec_state_def spec_event_def elim!: spec_step_newE)
        (auto simp: session_ok_def elim!: phase_of.elims)
    then show ?thesis
      using w assms(1-3) timeout Inr on serve_loop_client_id [of env rng sv ss1 _ _ r ss' rd' out']
      by (subst (asm) serve_loop.simps)
        (auto split: sum.split_asm prod.split_asm option.split_asm if_split_asm)
  qed
  with now show ?thesis by simp
qed

section \<open>Properties\<close>

text \<open>A key, timeouts and a connection for the witnesses: both frames arrive in one chunk.\<close>

definition server0 :: server where
  "server0 = new_server [1]"

definition reader0 :: reader where
  "reader0 = new_reader 0 [(1, Chunk (wire [1] hello0 @ wire [1] (mk_frame DATA 1 [7] 0)))]"

lemma reader0: "in_time server0 reader0"
  "stream reader0 = concat (map (wire (sv_secret server0)) [hello0, mk_frame DATA 1 [7] 0])"
  by (simp_all add: in_time_def server0_def new_server_def reader0_def new_reader_def punctual_def
      stream_def DEFAULT_IDLE_TIMEOUT_def DEFAULT_HANDSHAKE_TIMEOUT_def)

text \<open>
  C12. Whatever arrives on a connection and whenever, the handler ends; it ends in its loop or in an
  except clause, and an error the loop did not foresee is a \<^verbatim>\<open>ValueError\<close> or \<^verbatim>\<open>RecursionError\<close> of the JSON
  scanner; every item it wrote decodes under the key; the session satisfies its invariant, and is
  closed if the loop finished. The listener only counts the connection.
\<close>

theorem any_connection_safe:
  assumes "handle env rng0 rng sv rd = ((r, ss', rd', out), sv')" "rng_ok rng"
  shows "r \<in> {Finished, Peer_closed, Connection_reset, Unhandled ValueError, Unhandled RecursionError}
    \<and> (\<forall>raw \<in> set out. \<exists>g. decode raw (Some (sv_secret sv)) = Inr g)
    \<and> session_ok ss' \<and> (r = Finished \<longrightarrow> ss_state ss' = CLOSED)
    \<and> sv' = sv\<lparr>sv_connections := sv_connections sv + 1\<rparr>"
proof -
  have "serve_loop env rng sv (new_session rng0) rd [] = (r, ss', rd', out)"
    and sv': "sv' = sv\<lparr>sv_connections := sv_connections sv + 1\<rparr>"
    using assms(1) by (simp_all add: handle_def)
  from serve_loop_safe [OF this(1) new_session_ok assms(2)]
  have "end_ok r" "session_ok ss'" "sent_frames (sv_secret sv) out" "r = Finished \<longrightarrow> ss_state ss' = CLOSED"
    by (auto simp: sent_frames_def)
  then show ?thesis
    using sv' by (auto simp: end_ok_def sent_frames_def list_all_iff decode_wire)
qed

theorem any_connection_safe_witness:
  "session_ok (fst (snd (fst (handle py_env0 (\<lambda>_. []) (\<lambda>n. replicate n 0) server0
      (new_reader 0 [(1, Chunk [1, 2, 3]), (2, Reset)])))))"
proof -
  obtain r ss rd out sv where h: "handle py_env0 (\<lambda>_. []) (\<lambda>n. replicate n 0) server0
      (new_reader 0 [(1, Chunk [1, 2, 3]), (2, Reset)]) = ((r, ss, rd, out), sv)"
    by (cases "handle py_env0 (\<lambda>_. []) (\<lambda>n. replicate n 0) server0
      (new_reader 0 [(1, Chunk [1, 2, 3]), (2, Reset)])") auto
  from any_connection_safe [OF h zeros_ok] show ?thesis by (simp add: h)
qed

lemma run_frames_replies_ok:
  "run_frames env rng fs ss = (gs, x, ss') \<Longrightarrow> session_ok ss \<Longrightarrow> list_all frame_ok fs \<Longrightarrow> rng_ok rng \<Longrightarrow>
     list_all frame_ok gs"
proof (induction fs arbitrary: ss gs)
  case (Cons f fs)
  obtain r t where on: "on_frame env rng f ss = (r, t)" by (cases "on_frame env rng f ss")
  with Cons on_frame_replies_ok [of ss f rng env r t] show ?case
    by (auto split: sum.split_asm if_split_asm prod.split_asm)
qed simp

lemma serve_conversation:
  assumes "conversation env fs" "list_all frame_ok fs" "rng_ok rng" "0 < json_depth env"
    "in_time sv rd" "stream rd = concat (map (wire (sv_secret sv)) fs)"
  shows "\<exists>g gs ss' rd'. fst (handle env rng0 rng sv rd) = (Finished, ss', rd', map (wire (sv_secret sv)) (g # gs))
    \<and> f_type g = HELLO_ACK
    \<and> decode_hello_ack env (f_payload g) = Inr (ss_id (new_session rng0), new_nonce rng)
    \<and> map (\<lambda>g. (f_type g, f_payload g)) gs = concat (map echo (tl fs))
    \<and> numbered 0 (g # gs) \<and> ss_state ss' = CLOSED \<and> list_all frame_ok (g # gs)"
proof -
  obtain g gs ss1 where r: "run_frames env rng fs (new_session rng0) = (g # gs, None, ss1)"
    and g: "f_type g = HELLO_ACK"
      "decode_hello_ack env (f_payload g) = Inr (ss_id (new_session rng0), new_nonce rng)"
      "map (\<lambda>g. (f_type g, f_payload g)) gs = concat (map echo (tl fs))" "numbered 0 (g # gs)"
    using conversation_replies_aux [OF assms(1-4)] by blast
  have ready: "ss_state ss1 = READY" using run_conversation [OF assms(1-3), of rng0] r by auto
  obtain rd1 where rd1: "in_time sv rd1" "stream rd1 = []"
    "serve_loop env rng sv (new_session rng0) rd [] =
     serve_loop env rng sv ss1 rd1 (map (wire (sv_secret sv)) (g # gs))"
    using serve_prefix [OF assms(5) _ assms(2) new_session_ok assms(3) r, of "[]" "[]"] assms(6) ready by auto
  have ok: "list_all frame_ok (g # gs)"
    by (rule run_frames_replies_ok [OF r new_session_ok assms(2,3)])
  have nc: "ss_state ss1 \<noteq> CLOSED" using ready by simp
  have "session_ok ss1" by (rule run_session_ok [OF r new_session_ok assms(2,3)])
  then obtain rd' where "serve_loop env rng sv ss1 rd1 (map (wire (sv_secret sv)) (g # gs)) =
      (Finished, ss1\<lparr>ss_state := CLOSED\<rparr>, rd', map (wire (sv_secret sv)) (g # gs))"
    using serve_silence [OF rd1(1,2) nc] by blast
  with g ok show ?thesis
    by (intro exI [of _ g] exI [of _ gs] exI [of _ "ss1\<lparr>ss_state := CLOSED\<rparr>"] exI [of _ rd'])
      (simp add: handle_def rd1(3) del: list.map)
qed

text \<open>
  C10. A conversation over TCP is served: if the encoded frames of a conversation arrive in time, in
  any chunks, and nothing after them, the server writes a HELLO_ACK with the session's id followed
  by the echoes in order, numbered without gaps, and nothing else; it then closes on the idle
  timeout, without an ERROR frame.
\<close>

theorem server_serves_conversation:
  assumes "conversation env fs" "list_all frame_ok fs" "rng_ok rng" "0 < json_depth env"
    "in_time sv rd" "stream rd = concat (map (wire (sv_secret sv)) fs)"
  shows "\<exists>g gs ss' rd'. fst (handle env rng0 rng sv rd) = (Finished, ss', rd', map (wire (sv_secret sv)) (g # gs))
    \<and> f_type g = HELLO_ACK
    \<and> decode_hello_ack env (f_payload g) = Inr (ss_id (new_session rng0), new_nonce rng)
    \<and> map (\<lambda>g. (f_type g, f_payload g)) gs = concat (map echo (tl fs))
    \<and> numbered 0 (g # gs) \<and> ss_state ss' = CLOSED"
  using serve_conversation [OF assms] by blast

theorem server_serves_conversation_witness:
  "\<exists>g h ss' rd'. fst (handle py_env0 (\<lambda>n. replicate n 0) (\<lambda>n. replicate n 0) server0 reader0) =
     (Finished, ss', rd', map (wire [1]) [g, h]) \<and> f_type g = HELLO_ACK \<and> f_payload h = [7]"
proof -
  have depth: "0 < json_depth py_env0" by (simp add: py_env0_def)
  have echoes: "concat (map echo (tl [hello0, mk_frame DATA 1 [7] 0])) = [(DATA, [7])]"
    by (simp add: echo_def)
  obtain g gs ss' rd' where r: "fst (handle py_env0 (\<lambda>n. replicate n 0) (\<lambda>n. replicate n 0) server0 reader0) =
     (Finished, ss', rd', map (wire (sv_secret server0)) (g # gs))" "f_type g = HELLO_ACK"
    "map (\<lambda>g. (f_type g, f_payload g)) gs = [(DATA, [7])]"
    using server_serves_conversation [OF conversation0 zeros_ok depth reader0, of "\<lambda>n. replicate n 0", unfolded echoes]
    by (elim exE conjE) (rule that)
  from r(3) obtain h where "gs = [h]" "f_payload h = [7]" by auto
  with r(1,2) show ?thesis by (auto simp: server0_def new_server_def)
qed

text \<open>
  C11. After a conversation, bytes that the codec rejects end the connection: the server answers with
  exactly one more frame, an ERROR whose payload decodes to the code and message of the rejection,
  and closes (rules 5 and 6 of the specification).
\<close>

theorem undecodable_bytes_reported:
  assumes "conversation env fs" "list_all frame_ok fs" "rng_ok rng" "0 < json_depth env"
    "in_time sv rd" "stream rd = concat (map (wire (sv_secret sv)) fs) @ b"
    "fst (pop \<lparr>fb_buf = b, fb_secret = Some (sv_secret sv)\<rparr>) = Inl (ProtocolError c m)"
  shows "\<exists>gs g ss' rd'. fst (handle env rng0 rng sv rd) = (Finished, ss', rd', map (wire (sv_secret sv)) (gs @ [g]))
    \<and> fst (run_frames env rng fs (new_session rng0)) = gs
    \<and> f_type g = ERROR \<and> decode_error env (f_payload g) = Inr (c, m) \<and> ss_state ss' = CLOSED"
proof -
  obtain gs ss1 where r: "run_frames env rng fs (new_session rng0) = (gs, None, ss1)" "ss_state ss1 = READY"
    using run_conversation [OF assms(1-3)] by blast
  obtain rd1 where rd1: "in_time sv rd1" "stream rd1 = b"
    "serve_loop env rng sv (new_session rng0) rd [] = serve_loop env rng sv ss1 rd1 (map (wire (sv_secret sv)) gs)"
    using serve_prefix [OF assms(5,6,2) new_session_ok assms(3) r(1), of "[]"] r(2) by auto
  have ok: "session_ok ss1" by (rule run_session_ok [OF r(1) new_session_ok assms(2,3)])
  have nc: "ss_state ss1 \<noteq> CLOSED" using r(2) by simp
  obtain fb' where p: "pop \<lparr>fb_buf = stream rd1, fb_secret = Some (sv_secret sv)\<rparr> = (Inl (ProtocolError c m), fb')"
    using assms(7) rd1(2) by (cases "pop \<lparr>fb_buf = b, fb_secret = Some (sv_secret sv)\<rparr>") auto
  obtain g ss' rd' where g: "serve_loop env rng sv ss1 rd1 (map (wire (sv_secret sv)) gs) =
      (Finished, ss', rd', map (wire (sv_secret sv)) gs @ [wire (sv_secret sv) g])"
    "f_type g = ERROR" "wire_text m" "encode_error c m = Inr (f_payload g)" "ss_state ss' = CLOSED"
    using serve_garbage [OF rd1(1) p nc ok] by blast
  then show ?thesis
    using rd1(3) r(1) error_payload_decodes [OF g(4,3) assms(4)] by (auto simp: handle_def)
qed

theorem undecodable_bytes_reported_witness:
  "\<exists>g out ss' rd'. fst (handle py_env0 (\<lambda>n. replicate n 0) (\<lambda>n. replicate n 0) server0
      (new_reader 0 [(1, Chunk (wire [1] hello0 @ wire [1] (mk_frame DATA 1 [7] 0))), (2, Chunk (replicate 19 0))]))
    = (Finished, ss', rd', out @ [wire [1] g]) \<and> f_type g = ERROR"
proof -
  let ?rd = "new_reader 0 [(1, Chunk (wire [1] hello0 @ wire [1] (mk_frame DATA 1 [7] 0))), (2, Chunk (replicate 19 0))]"
  have depth: "0 < json_depth py_env0" by (simp add: py_env0_def)
  have rd: "in_time server0 ?rd"
    "stream ?rd = concat (map (wire (sv_secret server0)) [hello0, mk_frame DATA 1 [7] 0]) @ replicate 19 0"
    by (simp_all add: in_time_def server0_def new_server_def new_reader_def punctual_def
        stream_def DEFAULT_IDLE_TIMEOUT_def DEFAULT_HANDSHAKE_TIMEOUT_def)
  have "hd (replicate 4 0) \<noteq> hd MAGIC" by (simp add: MAGIC_def ascii_bytes_def)
  then have ne: "replicate 4 0 \<noteq> MAGIC" by metis
  have "decode_header (replicate 19 0) = Inl (ProtocolError ERR_MAGIC (ascii ''bad magic '' @ repr_bytes (replicate 4 0)))"
    using ne by (simp add: decode_header_def header_unpack_def)
  then have "fst (pop \<lparr>fb_buf = replicate 19 0, fb_secret = Some (sv_secret server0)\<rparr>) =
      Inl (ProtocolError ERR_MAGIC (ascii ''bad magic '' @ repr_bytes (replicate 4 0)))"
    by (simp add: pop_def)
  from undecodable_bytes_reported [OF conversation0 zeros_ok depth rd this, of "\<lambda>n. replicate n 0"]
  show ?thesis by (auto simp: server0_def new_server_def)
qed

text \<open>
  C13. An unauthenticated connection holds the server for at most the handshake timeout: if the peer
  never identifies itself with a valid HELLO, the handler has ended by then, whatever was sent.
\<close>

theorem anonymous_connection_bounded:
  assumes "handle env rng0 rng sv rd = ((r, ss', rd', out), sv')" "ss_client_id ss' = None"
    "rng_ok rng" "0 \<le> sv_handshake_timeout sv"
  shows "rd_now rd' \<le> rd_now rd + sv_handshake_timeout sv"
  using serve_loop_anonymous [OF _ assms(2) session_id_new new_session_ok assms(3,4)] assms(1)
  by (auto simp: handle_def)

theorem anonymous_connection_bounded_witness:
  "rd_now (fst (snd (snd (fst (handle py_env0 (\<lambda>_. []) (\<lambda>n. replicate n 0) server0 (new_reader 0 [])))))) \<le> 5"
proof -
  have w: "wait_frame k t (new_reader 0 []) = (Inl TimeoutError, (new_reader 0 [])\<lparr>rd_now := t\<rparr>)" for k t
    by (simp add: wait_frame_def read_frame_def readexactly_def new_reader_def)
  have h: "handle py_env0 (\<lambda>_. []) (\<lambda>n. replicate n 0) server0 (new_reader 0 []) =
     ((Finished, (new_session (\<lambda>_. []))\<lparr>ss_state := CLOSED\<rparr>, (new_reader 0 [])\<lparr>rd_now := 5\<rparr>, []),
      server0\<lparr>sv_connections := sv_connections server0 + 1\<rparr>)"
    unfolding handle_def
    by (subst serve_loop.simps)
      (simp add: w on_idle_timeout_def apply_last_def conn_timeout_def server0_def new_server_def
        DEFAULT_HANDSHAKE_TIMEOUT_def)
  from anonymous_connection_bounded [OF h _ zeros_ok] show ?thesis
    unfolding h by (simp add: new_session_def server0_def new_server_def DEFAULT_HANDSHAKE_TIMEOUT_def new_reader_def)
qed

end
