(* ===== verification/Client.thy ===== *)
theory Client
  imports Server_Props
begin

text \<open>
  \<^verbatim>\<open>src/wireline/client.py\<close>: the TCP client. Its connection is the stream reader together with
  the frames it has handed to the transport, or none before \<^verbatim>\<open>connect\<close> and after \<^verbatim>\<open>close\<close>. What
  \<^verbatim>\<open>asyncio.open_connection\<close> yields (a reader, or the exception it raised) is an argument.
\<close>

section \<open>State and transport\<close>

record client =
  cl_secret :: bytes
  cl_client_id :: ustr
  cl_timeout :: rat
  cl_out_seq :: int
  cl_last_peer_seq :: int
  cl_state :: state
  cl_session_id :: "ustr option"
  cl_conn :: "(reader \<times> bytes list) option"

definition DEFAULT_TIMEOUT :: rat where "DEFAULT_TIMEOUT = 5"

definition new_client :: "bytes \<Rightarrow> ustr \<Rightarrow> rat \<Rightarrow> client" where
  "new_client secret client_id timeout =
     \<lparr>cl_secret = secret, cl_client_id = client_id, cl_timeout = timeout, cl_out_seq = 0,
      cl_last_peer_seq = -1, cl_state = NEW, cl_session_id = None, cl_conn = None\<rparr>"

definition cl_next_seq :: "client \<Rightarrow> int \<times> client" where
  "cl_next_seq cl = (cl_out_seq cl, cl\<lparr>cl_out_seq := (cl_out_seq cl + 1) AND MAX_SEQ\<rparr>)"

abbreviation (input) not_connected :: exn where
  "not_connected \<equiv> ProtocolError ERR_STATE (ascii ''client is not connected'')"

text \<open>The number is drawn before encoding, and stays drawn if encoding raises.\<close>

definition cl_send :: "msg_type \<Rightarrow> bytes \<Rightarrow> int \<Rightarrow> client \<Rightarrow> unit res \<times> client" where
  "cl_send t payload flags cl =
     (case cl_conn cl of
        None \<Rightarrow> (Inl not_connected, cl)
      | Some (rd, out) \<Rightarrow>
          (case cl_next_seq cl of (seq, cl1) \<Rightarrow>
             (case encode (mk_frame t seq payload flags) (cl_secret cl) of
                Inl e \<Rightarrow> (Inl e, cl1)
              | Inr raw \<Rightarrow> (Inr (), cl1\<lparr>cl_conn := Some (rd, out @ [raw])\<rparr>))))"

definition cl_recv :: "client \<Rightarrow> frame res \<times> client" where
  "cl_recv cl =
     (case cl_conn cl of
        None \<Rightarrow> (Inl not_connected, cl)
      | Some (rd, out) \<Rightarrow>
          (case wait_frame (cl_secret cl) (cl_timeout cl) rd of
             (Inl e, rd') \<Rightarrow> (Inl e, cl\<lparr>cl_conn := Some (rd', out)\<rparr>)
           | (Inr f, rd') \<Rightarrow>
               let cl1 = cl\<lparr>cl_conn := Some (rd', out)\<rparr>
               in if f_seq f \<le> cl_last_peer_seq cl then
                    (Inl (ProtocolError ERR_SEQ
                       (ascii ''replayed seq '' @ dec_int (f_seq f) @ ascii '' from server'')), cl1)
                  else (Inr f, cl1\<lparr>cl_last_peer_seq := f_seq f\<rparr>)))"

section \<open>Protocol\<close>

definition cl_handshake :: "py_env \<Rightarrow> (nat \<Rightarrow> bytes) \<Rightarrow> client \<Rightarrow> unit res \<times> client" where
  "cl_handshake env rng cl =
     (case encode_hello rng (cl_client_id cl) None of
        Inl e \<Rightarrow> (Inl e, cl)
      | Inr payload \<Rightarrow>
          (case cl_send HELLO payload 0 cl of
             (Inl e, cl1) \<Rightarrow> (Inl e, cl1)
           | (Inr _, cl1) \<Rightarrow>
               (case cl_recv (cl1\<lparr>cl_state := HANDSHAKE\<rparr>) of
                  (Inl e, cl2) \<Rightarrow> (Inl e, cl2)
                | (Inr f, cl2) \<Rightarrow>
                    if f_type f = ERROR then
                      (case decode_error env (f_payload f) of
                         Inl e \<Rightarrow> (Inl e, cl2)
                       | Inr (code, message) \<Rightarrow>
                           (Inl (ProtocolError code (ascii ''server rejected handshake: '' @ message)), cl2))
                    else if f_type f \<noteq> HELLO_ACK then
                      (Inl (ProtocolError ERR_STATE
                         (ascii ''expected HELLO_ACK, got '' @ msg_name (f_type f))), cl2)
                    else
                      (case decode_hello_ack env (f_payload f) of
                         Inl e \<Rightarrow> (Inl e, cl2)
                       | Inr (session_id, _) \<Rightarrow>
                           (Inr (), cl2\<lparr>cl_session_id := Some session_id, cl_state := READY\<rparr>)))))"

definition cl_connect :: "py_env \<Rightarrow> (nat \<Rightarrow> bytes) \<Rightarrow> reader res \<Rightarrow> client \<Rightarrow> unit res \<times> client" where
  "cl_connect env rng opened cl =
     (case opened of
        Inl e \<Rightarrow> (Inl e, cl)
      | Inr rd \<Rightarrow> cl_handshake env rng (cl\<lparr>cl_conn := Some (rd, [])\<rparr>))"

definition cl_request :: "msg_type \<Rightarrow> bytes \<Rightarrow> int \<Rightarrow> client \<Rightarrow> frame res \<times> client" where
  "cl_request t payload flags cl =
     (if cl_state cl \<noteq> READY then
        (Inl (ProtocolError ERR_STATE
           (ascii ''cannot send '' @ msg_name t @ ascii '' in state '' @ state_name (cl_state cl))), cl)
      else
        case cl_send t payload flags cl of
          (Inl e, cl1) \<Rightarrow> (Inl e, cl1)
        | (Inr _, cl1) \<Rightarrow> cl_recv cl1)"

definition cl_ping :: "bytes \<Rightarrow> client \<Rightarrow> frame res \<times> client" where
  "cl_ping payload cl = cl_request PING payload 0 cl"

definition cl_send_data :: "bytes \<Rightarrow> client \<Rightarrow> bytes res \<times> client" where
  "cl_send_data payload cl =
     (case cl_request DATA payload 0 cl of
        (Inl e, cl') \<Rightarrow> (Inl e, cl')
      | (Inr f, cl') \<Rightarrow> (Inr (f_payload f), cl'))"

text \<open>
  A reset or a broken pipe is suppressed; an exception of \<^verbatim>\<open>encode\<close> is not, and leaves the
  connection open. What was written stays visible as the second component.
\<close>

definition cl_close :: "client \<Rightarrow> unit res \<times> bytes list \<times> client" where
  "cl_close cl =
     (case cl_conn cl of
        None \<Rightarrow> (Inr (), [], cl)
      | Some (rd, out) \<Rightarrow>
          let (r, cl1) =
            (if cl_state cl = READY then
               (case cl_send BYE [] 0 cl of
                  (Inl e, cl1) \<Rightarrow> (Inl e, cl1)
                | (Inr _, cl1) \<Rightarrow> (Inr (), cl1\<lparr>cl_state := CLOSING\<rparr>))
             else (Inr (), cl))
          in case r of
               Inl e \<Rightarrow> (Inl e, out, cl1)
             | Inr _ \<Rightarrow>
                 (Inr (), (case cl_conn cl1 of Some (_, out') \<Rightarrow> out' | None \<Rightarrow> out),
                  cl1\<lparr>cl_conn := None, cl_state := CLOSED\<rparr>))"

text \<open>
  \<^verbatim>\<open>async with WirelineClient(...) as client\<close>: if connecting raises, the body and \<^verbatim>\<open>close\<close> do not
  run; an exception of the body propagates after \<^verbatim>\<open>close\<close>, unless that raises itself. The body
  yields a list of what it produced before it ended; the last component of the result is what was
  written to the connection.
\<close>

definition async_with ::
  "py_env \<Rightarrow> (nat \<Rightarrow> bytes) \<Rightarrow> reader res \<Rightarrow> client \<Rightarrow> (client \<Rightarrow> 'o list \<times> unit res \<times> client)
     \<Rightarrow> ('o list \<times> unit res) \<times> bytes list"
where
  "async_with env rng opened cl body =
     (case cl_connect env rng opened cl of
        (Inl e, cl1) \<Rightarrow> (([], Inl e), case cl_conn cl1 of None \<Rightarrow> [] | Some (_, w) \<Rightarrow> w)
      | (Inr _, cl1) \<Rightarrow>
          (case body cl1 of (out, r, cl2) \<Rightarrow>
             (case cl_close cl2 of
                (Inl e, w, cl3) \<Rightarrow> ((out, Inl e), w)
              | (Inr _, w, cl3) \<Rightarrow> ((out, r), w))))"

section \<open>Invariant\<close>

definition client_ok :: "client \<Rightarrow> bool" where
  "client_ok cl \<longleftrightarrow> 0 \<le> cl_out_seq cl \<and> cl_out_seq cl \<le> MAX_SEQ \<and> -1 \<le> cl_last_peer_seq cl
     \<and> (cl_state cl = READY \<longrightarrow> cl_session_id cl \<noteq> None \<and> cl_conn cl \<noteq> None)
     \<and> (case cl_conn cl of None \<Rightarrow> True | Some (_, out) \<Rightarrow> sent_frames (cl_secret cl) out)"

interpretation cl_seq: sequence cl_next_seq cl_out_seq
  by unfold_locales (simp_all add: cl_next_seq_def)

lemma new_client_ok: "client_ok (new_client k c t)"
  by (simp add: client_ok_def new_client_def MAX_SEQ_def)

lemma cl_send_ok: "client_ok cl \<Longrightarrow> cl_send t p fl cl = (r, cl') \<Longrightarrow>
    client_ok cl' \<and> cl_state cl' = cl_state cl \<and> (cl_conn cl' = None \<longleftrightarrow> cl_conn cl = None)
    \<and> cl_last_peer_seq cl' = cl_last_peer_seq cl \<and> cl_secret cl' = cl_secret cl \<and> cl_session_id cl' = cl_session_id cl"
  using sent_frames_append [of "cl_secret cl" _ "[mk_frame t (cl_out_seq cl) p fl]"]
  by (auto simp: cl_send_def cl_next_seq_def client_ok_def next_seq_bounds encode_eq_Inr_iff wire_def
      split: option.split_asm sum.split_asm)

lemma cl_recv_ok: "client_ok cl \<Longrightarrow> cl_recv cl = (r, cl') \<Longrightarrow>
    client_ok cl' \<and> cl_state cl' = cl_state cl \<and> (cl_conn cl' = None \<longleftrightarrow> cl_conn cl = None)
    \<and> cl_last_peer_seq cl \<le> cl_last_peer_seq cl' \<and> (\<forall>f. r = Inr f \<longrightarrow> cl_last_peer_seq cl < f_seq f \<and> frame_ok f)"
  by (auto simp: cl_recv_def client_ok_def Let_def dest: wait_frame_Inr
      split: option.split_asm sum.split_asm prod.split_asm if_split_asm)

lemma cl_request_ok:
  assumes "client_ok cl" "cl_request t p fl cl = (r, cl')"
  shows "client_ok cl' \<and> cl_state cl' = cl_state cl"
  using assms cl_send_ok [OF assms(1), of t p fl]
  by (auto simp: cl_request_def dest: cl_recv_ok split: if_split_asm prod.split_asm sum.split_asm)

lemma client_ok_state: "client_ok cl \<Longrightarrow> s \<noteq> READY \<Longrightarrow> client_ok (cl\<lparr>cl_state := s\<rparr>)"
  by (cases "cl_conn cl") (auto simp: client_ok_def)

lemma cl_handshake_ok:
  assumes "client_ok cl" "cl_handshake env rng cl = (r, cl')"
  shows "client_ok cl' \<and> (cl_state cl \<noteq> READY \<longrightarrow> (cl_state cl' = READY \<longleftrightarrow> r = Inr ()))"
proof (cases "encode_hello rng (cl_client_id cl) None")
  case (Inl e)
  with assms show ?thesis by (auto simp: cl_handshake_def)
next
  case (Inr p)
  obtain r1 cl1 where s: "cl_send HELLO p 0 cl = (r1, cl1)" by (cases "cl_send HELLO p 0 cl")
  note ok1 = cl_send_ok [OF assms(1) s]
  obtain r2 cl2 where v: "cl_recv (cl1\<lparr>cl_state := HANDSHAKE\<rparr>) = (r2, cl2)"
    by (cases "cl_recv (cl1\<lparr>cl_state := HANDSHAKE\<rparr>)")
  have ok2: "client_ok cl2 \<and> cl_state cl2 = HANDSHAKE \<and> (cl_conn cl2 = None \<longleftrightarrow> cl_conn cl1 = None)"
    using cl_recv_ok [OF _ v] ok1 client_ok_state by auto
  have conn: "cl_conn cl1 \<noteq> None" if "r1 = Inr ()"
    using s that by (auto simp: cl_send_def split: option.split_asm sum.split_asm prod.split_asm)
  show ?thesis
    using assms(2) Inr s v ok1 ok2 conn
    by (auto simp: cl_handshake_def client_ok_def split: sum.split_asm if_split_asm prod.split_asm)
qed

end
