(* ===== verification/Client_Props.thy ===== *)
theory Client_Props
  imports Client
begin

text \<open>
  The TCP client against the TCP server: the frames a client sends are a conversation, the
  server's answers are what the client expects, and every request gets its own echo.
\<close>

section \<open>The frames of a client\<close>

text \<open>A sequence of calls of \<^verbatim>\<open>request\<close>, with the results in order.\<close>

fun cl_requests :: "(msg_type \<times> bytes) list \<Rightarrow> client \<Rightarrow> frame res list \<times> client" where
  "cl_requests [] cl = ([], cl)"
| "cl_requests ((t, p) # reqs) cl =
     (case cl_request t p 0 cl of (r, cl1) \<Rightarrow>
        (case cl_requests reqs cl1 of (rs, cl2) \<Rightarrow> (r # rs, cl2)))"

fun number_from :: "int \<Rightarrow> (msg_type \<times> bytes) list \<Rightarrow> frame list" where
  "number_from n [] = []"
| "number_from n ((t, p) # reqs) = mk_frame t n p 0 # number_from (n + 1) reqs"

definition request_ok :: "msg_type \<times> bytes \<Rightarrow> bool" where
  "request_ok r \<longleftrightarrow> fst r \<in> {PING, DATA} \<and> length (snd r) \<le> MAX_PAYLOAD"

definition answer_of :: "msg_type \<times> bytes \<Rightarrow> msg_type \<times> bytes" where
  "answer_of r = ((if fst r = PING then PONG else DATA), snd r)"

lemma number_from_facts:
  assumes "list_all request_ok reqs" "0 \<le> n" "n + int (length reqs) \<le> 2 ^ 32"
  shows "list_all frame_ok (number_from n reqs)" "list_all echoed (number_from n reqs)"
    "m < n \<Longrightarrow> increasing_from m (number_from n reqs)"
    "concat (map echo (number_from n reqs)) = map answer_of reqs"
proof -
  have "list_all frame_ok (number_from n reqs) \<and> list_all echoed (number_from n reqs)
    \<and> (\<forall>m < n. increasing_from m (number_from n reqs))
    \<and> concat (map echo (number_from n reqs)) = map answer_of reqs"
    using assms
    by (induction n reqs rule: number_from.induct)
      (auto simp: request_ok_def frame_ok_def echoed_def echo_def answer_of_def MAX_SEQ_def)
  then show "list_all frame_ok (number_from n reqs)" "list_all echoed (number_from n reqs)"
    "m < n \<Longrightarrow> increasing_from m (number_from n reqs)"
    "concat (map echo (number_from n reqs)) = map answer_of reqs" by blast+
qed

section \<open>One request\<close>

definition prompt :: "client \<Rightarrow> reader \<Rightarrow> bool" where
  "prompt cl rd \<longleftrightarrow> 0 \<le> cl_timeout cl \<and> punctual (rd_now rd + cl_timeout cl) rd"

lemma cl_send_wire:
  assumes "cl_conn cl = Some (rd, out)" "frame_ok (mk_frame t (cl_out_seq cl) p 0)"
  shows "cl_send t p 0 cl = (Inr (), cl\<lparr>cl_out_seq := (cl_out_seq cl + 1) AND MAX_SEQ,
    cl_conn := Some (rd, out @ [wire (cl_secret cl) (mk_frame t (cl_out_seq cl) p 0)])\<rparr>)"
  using assms by (simp add: cl_send_def cl_next_seq_def encode_wire)

lemma cl_recv_wire:
  assumes "cl_conn cl = Some (rd, out)" "prompt cl rd" "stream rd = wire (cl_secret cl) g @ b"
    "frame_ok g" "cl_last_peer_seq cl < f_seq g"
  shows "\<exists>rd'. cl_recv cl = (Inr g, cl\<lparr>cl_conn := Some (rd', out), cl_last_peer_seq := f_seq g\<rparr>)
    \<and> prompt cl rd' \<and> stream rd' = b"
proof -
  from assms(2) have p: "punctual (rd_now rd + cl_timeout cl) rd" "0 \<le> cl_timeout cl"
    by (simp_all add: prompt_def)
  obtain rd' where "wait_frame (cl_secret cl) (cl_timeout cl) rd = (Inr g, rd')"
    "punctual (rd_now rd' + cl_timeout cl) rd'" "stream rd' = b"
    using wait_frame_prompt [OF p(1) order_refl p(2) assms(3,4)] by blast
  with assms(1,5) p(2) show ?thesis
    by (intro exI [of _ rd']) (simp add: cl_recv_def prompt_def Let_def)
qed

lemma cl_requests_run:
  assumes "cl_state cl = READY" "cl_conn cl = Some (rd, out)" "prompt cl rd"
    "list_all request_ok reqs" "0 \<le> cl_out_seq cl" "cl_out_seq cl + int (length reqs) \<le> 2 ^ 32"
    "stream rd = concat (map (wire (cl_secret cl)) gs)" "list_all frame_ok gs" "length gs = length reqs"
    "increasing_from (cl_last_peer_seq cl) gs"
  shows "\<exists>cl' rd'. cl_requests reqs cl = (map Inr gs, cl')
    \<and> cl_conn cl' = Some (rd', out @ map (wire (cl_secret cl)) (number_from (cl_out_seq cl) reqs))"
  using assms
proof (induction reqs arbitrary: cl rd out gs)
  case Nil
  then show ?case by simp
next
  case (Cons req reqs)
  obtain t p where req: "req = (t, p)" by (cases req)
  obtain g hs where gs: "gs = g # hs" using Cons.prems(9) by (cases gs) auto
  let ?f = "mk_frame t (cl_out_seq cl) p 0"
  let ?out = "out @ [wire (cl_secret cl) ?f]"
  let ?cl1 = "cl\<lparr>cl_out_seq := (cl_out_seq cl + 1) AND MAX_SEQ, cl_conn := Some (rd, ?out)\<rparr>"
  have f: "frame_ok ?f"
    using number_from_facts(1) [OF Cons.prems(4-6)] by (simp add: req)
  have send: "cl_send t p 0 cl = (Inr (), ?cl1)" by (rule cl_send_wire [OF Cons.prems(2) f])
  obtain rd' where recv: "cl_recv ?cl1 = (Inr g, ?cl1\<lparr>cl_conn := Some (rd', ?out), cl_last_peer_seq := f_seq g\<rparr>)"
    "prompt ?cl1 rd'" "stream rd' = concat (map (wire (cl_secret cl)) hs)"
    using cl_recv_wire [of ?cl1 rd ?out g "concat (map (wire (cl_secret cl)) hs)"] Cons.prems gs
    by (auto simp: prompt_def)
  let ?cl2 = "?cl1\<lparr>cl_conn := Some (rd', ?out), cl_last_peer_seq := f_seq g\<rparr>"
  have req_ok: "cl_request t p 0 cl = (Inr g, ?cl2)"
    using Cons.prems(1) send recv(1) by (simp add: cl_request_def)
  have out_seq: "reqs \<noteq> [] \<Longrightarrow> (cl_out_seq cl + 1) AND MAX_SEQ = cl_out_seq cl + 1"
    using Cons.prems(5,6) by (cases reqs) (simp_all add: and_MAX_SEQ)
  show ?case
  proof (cases "reqs = []")
    case True
    with req_ok gs Cons.prems(9) show ?thesis by (simp add: req)
  next
    case False
    from Cons.IH [of ?cl2 rd' ?out hs] Cons.prems gs recv(2,3) out_seq [OF False]
    obtain cl' rd'' where "cl_requests reqs ?cl2 = (map Inr hs, cl')"
      "cl_conn cl' = Some (rd'', ?out @ map (wire (cl_secret cl)) (number_from (cl_out_seq cl + 1) reqs))"
      by (auto simp: prompt_def)
    with req_ok gs show ?thesis by (simp add: req)
  qed
qed

lemma cl_connect_run:
  assumes "encode_hello rng cid None = Inr p" "frame_ok (mk_frame HELLO 0 p 0)"
    "prompt (new_client key cid timeout) rd" "stream rd = wire key g @ b" "frame_ok g"
    "f_type g = HELLO_ACK" "decode_hello_ack env (f_payload g) = Inr (sid, n)"
  shows "\<exists>cl rd'. cl_connect env rng (Inr rd) (new_client key cid timeout) = (Inr (), cl)
    \<and> cl_state cl = READY \<and> cl_session_id cl = Some sid \<and> cl_secret cl = key
    \<and> cl_conn cl = Some (rd', [wire key (mk_frame HELLO 0 p 0)]) \<and> prompt cl rd' \<and> stream rd' = b
    \<and> cl_out_seq cl = 1 \<and> cl_last_peer_seq cl = f_seq g"
proof -
  let ?f = "mk_frame HELLO 0 p 0"
  let ?cl0 = "(new_client key cid timeout)\<lparr>cl_conn := Some (rd, [])\<rparr>"
  let ?cl1 = "?cl0\<lparr>cl_out_seq := 1, cl_conn := Some (rd, [wire key ?f])\<rparr>"
  have send: "cl_send HELLO p 0 ?cl0 = (Inr (), ?cl1)"
    using cl_send_wire [of ?cl0 rd "[]" HELLO p] assms(2) by (simp add: new_client_def and_MAX_SEQ)
  have "-1 < f_seq g" using assms(5) by (simp add: frame_ok_def)
  then obtain rd' where recv: "cl_recv (?cl1\<lparr>cl_state := HANDSHAKE\<rparr>) =
      (Inr g, ?cl1\<lparr>cl_state := HANDSHAKE, cl_conn := Some (rd', [wire key ?f]), cl_last_peer_seq := f_seq g\<rparr>)"
    "prompt ?cl1 rd'" "stream rd' = b"
    using cl_recv_wire [of "?cl1\<lparr>cl_state := HANDSHAKE\<rparr>" rd "[wire key ?f]" g b] assms(3-5)
    by (auto simp: new_client_def prompt_def)
  have "cl_handshake env rng ?cl0 = (Inr (), ?cl1\<lparr>cl_state := READY, cl_conn := Some (rd', [wire key ?f]),
      cl_last_peer_seq := f_seq g, cl_session_id := Some sid\<rparr>)"
    using assms(1,6,7) send recv(1) by (simp add: cl_handshake_def new_client_def)
  with recv(2,3) show ?thesis
    by (simp add: cl_connect_def) (simp add: new_client_def prompt_def)
qed

section \<open>Properties\<close>

text \<open>What a client sends: its HELLO, then its requests, numbered from 0.\<close>

definition client_frames :: "bytes \<Rightarrow> (msg_type \<times> bytes) list \<Rightarrow> frame list" where
  "client_frames p reqs = mk_frame HELLO 0 p 0 # number_from 1 reqs"

lemma client_frames_conversation:
  assumes "decode_hello env p = Inr x" "length p \<le> MAX_PAYLOAD" "list_all request_ok reqs"
    "int (length reqs) < 2 ^ 32"
  shows "conversation env (client_frames p reqs)" "list_all frame_ok (client_frames p reqs)"
  using number_from_facts [OF assms(3), of 1] assms
  by (simp_all add: conversation_def client_frames_def frame_ok_def MAX_SEQ_def)

lemma numbered_increasing:
  assumes "numbered n gs" "0 \<le> n" "n + int (length gs) \<le> 2 ^ 32" "m < n"
  shows "increasing_from m gs"
  using assms
proof (induction gs arbitrary: n m)
  case (Cons g gs)
  have "f_seq g = n" "numbered ((n + 1) AND MAX_SEQ) gs"
    using Cons.prems numbered_Cons [of n g gs] by (simp_all add: MAX_SEQ_def)
  moreover have "(n + 1) AND MAX_SEQ = n + 1" if "gs \<noteq> []"
    using Cons.prems that by (cases gs) (simp_all add: and_MAX_SEQ)
  ultimately show ?case using Cons.IH [of "n + 1" n] Cons.prems by (cases "gs = []") simp_all
qed simp

lemma end_to_end:
  assumes k: "sv_secret sv = key" and depth: "0 < json_depth env" and rngs: "rng_ok rng"
    and hello: "encode_hello rngc cid None = Inr p" "length p \<le> MAX_PAYLOAD" "decode_hello env p = Inr x"
    and reqs: "list_all request_ok reqs" "int (length reqs) < 2 ^ 32 - 1"
    and server: "in_time sv rds" "stream rds = concat (map (wire key) (client_frames p reqs))"
      "handle env rng0 rng sv rds = ((e, ss, rds', outs), sv')"
    and client: "prompt (new_client key cid timeout) rdc" "stream rdc = concat outs"
  shows "\<exists>cl gs cl' rd'. cl_connect env rngc (Inr rdc) (new_client key cid timeout) = (Inr (), cl)
    \<and> cl_session_id cl = Some (ss_id (new_session rng0))
    \<and> cl_requests reqs cl = (map Inr gs, cl')
    \<and> map (\<lambda>g. (f_type g, f_payload g)) gs = map answer_of reqs
    \<and> cl_conn cl' = Some (rd', map (wire key) (client_frames p reqs))"
proof -
  have small: "int (length reqs) < 2 ^ 32" using reqs(2) by simp
  note conv = client_frames_conversation [OF hello(3,2) reqs(1) small]
  have tl: "tl (client_frames p reqs) = number_from 1 reqs" by (simp add: client_frames_def)
  have echoes: "concat (map echo (number_from 1 reqs)) = map answer_of reqs"
    using number_from_facts(4) [OF reqs(1), of 1] small by simp
  obtain g gs where g: "outs = map (wire key) (g # gs)" "f_type g = HELLO_ACK"
    "decode_hello_ack env (f_payload g) = Inr (ss_id (new_session rng0), new_nonce rng)"
    "map (\<lambda>g. (f_type g, f_payload g)) gs = map answer_of reqs" "numbered 0 (g # gs)"
    "list_all frame_ok (g # gs)"
    using serve_conversation [OF conv rngs depth server(1), of rng0] server(2,3)
    unfolding tl echoes k by auto
  have len: "length gs = length reqs" using g(4) by (metis length_map)
  have seq: "f_seq g = 0" "numbered 1 gs"
    using g(5) by (simp_all add: numbered_Cons and_MAX_SEQ MAX_SEQ_def)
  have f: "frame_ok (mk_frame HELLO 0 p 0)" using conv(2) by (simp add: client_frames_def)
  have str: "stream rdc = wire key g @ concat (map (wire key) gs)" using client(2) g(1) by simp
  obtain cl rd' where cl: "cl_connect env rngc (Inr rdc) (new_client key cid timeout) = (Inr (), cl)"
    "cl_state cl = READY" "cl_session_id cl = Some (ss_id (new_session rng0))" "cl_secret cl = key"
    "cl_conn cl = Some (rd', [wire key (mk_frame HELLO 0 p 0)])" "prompt cl rd'"
    "stream rd' = concat (map (wire key) gs)" "cl_out_seq cl = 1" "cl_last_peer_seq cl = f_seq g"
    using cl_connect_run [OF hello(1) f client(1) str _ g(2,3)] g(6) by auto
  have inc: "increasing_from (cl_last_peer_seq cl) gs"
    unfolding cl(9) seq(1) by (rule numbered_increasing [OF seq(2)]) (use len reqs(2) in simp_all)
  obtain cl' rd'' where "cl_requests reqs cl = (map Inr gs, cl')"
    "cl_conn cl' = Some (rd'', [wire key (mk_frame HELLO 0 p 0)] @ map (wire key) (number_from 1 reqs))"
    using cl_requests_run [OF cl(2,5,6) reqs(1) _ _ _ _ len inc] cl(4,7,8) g(6) reqs(2) by auto
  with cl(1,3) g(4) show ?thesis by (auto simp: client_frames_def)
qed

text \<open>
  C9. End to end over TCP: let the server receive, in time and in any chunks, what a client that
  connects and then makes a list of PING and DATA requests writes, and let the client receive
  what the server writes, in time and in any chunks. Then connecting succeeds and learns the
  server's session id, every request returns, in order, the echo of its own payload, and the
  bytes the client wrote are the ones assumed.
\<close>

theorem client_server_echo:
  assumes "sv_secret sv = key" "0 < json_depth env" "rng_ok rng"
    and "encode_hello rngc cid None = Inr p" "length p \<le> MAX_PAYLOAD" "decode_hello env p = Inr x"
    and "list_all request_ok reqs" "int (length reqs) < 2 ^ 32 - 1"
    and "in_time sv rds" "stream rds = concat (map (wire key) (client_frames p reqs))"
      "handle env rng0 rng sv rds = ((e, ss, rds', outs), sv')"
    and "prompt (new_client key cid timeout) rdc" "stream rdc = concat outs"
  shows "\<exists>cl gs cl' rd'. cl_connect env rngc (Inr rdc) (new_client key cid timeout) = (Inr (), cl)
    \<and> cl_session_id cl = Some (ss_id (new_session rng0))
    \<and> cl_requests reqs cl = (map Inr gs, cl')
    \<and> map (\<lambda>g. (f_type g, f_payload g)) gs = map answer_of reqs
    \<and> cl_conn cl' = Some (rd', map (wire key) (client_frames p reqs))"
  using assms by (rule end_to_end)

text \<open>The client's side of the connection \<open>reader0\<close>: what the server wrote, in one chunk.\<close>

definition replies0 :: reader where
  "replies0 = new_reader 0 [(2, Chunk (concat (snd (snd (snd (fst
     (handle py_env0 (\<lambda>n. replicate n 0) (\<lambda>n. replicate n 0) server0 reader0)))))))]"

theorem client_server_echo_witness:
  "\<exists>cl gs cl'. cl_connect py_env0 (\<lambda>n. replicate n 0) (Inr replies0) (new_client [1] [97] 5) = (Inr (), cl)
    \<and> cl_requests [(DATA, [7])] cl = (map Inr gs, cl')
    \<and> map (\<lambda>g. (f_type g, f_payload g)) gs = [(DATA, [7])]"
proof -
  obtain p where p: "encode_hello (\<lambda>n. replicate n 0) [97] None = Inr p" "length p \<le> 20000"
    using encode_hello_fits [of "[97]" "\<lambda>n. replicate n 0"] by auto
  have h0: "hello0 = mk_frame HELLO 0 p 0" using p(1) by (simp add: hello0_def)
  from hello0_ok obtain x where "decode_hello py_env0 (f_payload hello0) = Inr x" by blast
  then have x: "decode_hello py_env0 p = Inr x" unfolding h0 by simp
  obtain e ss rds' outs sv' where h: "handle py_env0 (\<lambda>n. replicate n 0) (\<lambda>n. replicate n 0) server0 reader0
      = ((e, ss, rds', outs), sv')"
    by (cases "handle py_env0 (\<lambda>n. replicate n 0) (\<lambda>n. replicate n 0) server0 reader0") auto
  have sec: "sv_secret server0 = [1]" by (simp add: server0_def new_server_def)
  have str: "stream reader0 = concat (map (wire [1]) (client_frames p [(DATA, [7])]))"
    using reader0(2) by (simp add: sec client_frames_def h0)
  have rdc: "prompt (new_client [1] [97] 5) replies0" "stream replies0 = concat outs"
    by (simp_all add: prompt_def new_client_def replies0_def new_reader_def punctual_def stream_def h)
  have pre: "0 < json_depth py_env0" "length p \<le> MAX_PAYLOAD" "list_all request_ok [(DATA, [7])]"
    "int (length [(DATA, [7 :: byte])]) < 2 ^ 32 - 1" and ans: "map answer_of [(DATA, [7])] = [(DATA, [7])]"
    using p(2) by (simp_all add: py_env0_def request_ok_def MAX_PAYLOAD_def answer_of_def)
  from client_server_echo [OF sec pre(1) zeros_ok p(1) pre(2) x pre(3,4) reader0(1) str h rdc, unfolded ans]
  show ?thesis by - (elim exE conjE, intro exI conjI, assumption+)
qed

lemma client_ok_closed: "client_ok cl \<Longrightarrow> client_ok (cl\<lparr>cl_conn := None, cl_state := CLOSED\<rparr>)"
  by (simp add: client_ok_def)

lemma cl_close_ok:
  assumes "client_ok cl"
  shows "client_ok (snd (snd (cl_close cl)))"
proof (cases "cl_conn cl")
  case None
  with assms show ?thesis by (simp add: cl_close_def)
next
  case (Some ro)
  obtain r cl1 where s: "cl_send BYE [] 0 cl = (r, cl1)" by (cases "cl_send BYE [] 0 cl")
  then have ok1: "client_ok cl1" using cl_send_ok [OF assms] by blast
  show ?thesis
    using Some s ok1 client_ok_closed [OF assms] client_ok_closed [OF ok1]
    by (cases ro; cases r) (simp_all add: cl_close_def)
qed

text \<open>
  C14. Every operation of the client keeps its invariant, also when it raises: the counters stay in
  range, what was written are encodings of well-formed frames, and a client is READY only with a
  session id and a connection. A handshake that raises does not make the client READY.
\<close>

theorem client_invariant:
  assumes "client_ok cl"
  shows "client_ok (snd (cl_connect env rng opened cl)) \<and> client_ok (snd (cl_request t p fl cl))
    \<and> client_ok (snd (cl_send_data b cl)) \<and> client_ok (snd (cl_ping b cl)) \<and> client_ok (snd (snd (cl_close cl)))
    \<and> (cl_state cl \<noteq> READY \<longrightarrow>
        (cl_state (snd (cl_connect env rng opened cl)) = READY \<longleftrightarrow> fst (cl_connect env rng opened cl) = Inr ()))"
proof -
  have req: "client_ok (snd (cl_request t p fl cl))" for t p fl
    using cl_request_ok [OF assms] by (cases "cl_request t p fl cl") auto
  have conn: "client_ok (cl\<lparr>cl_conn := Some (rd, [])\<rparr>)" for rd
    using assms by (auto simp: client_ok_def sent_frames_def)
  have "client_ok (snd (cl_connect env rng opened cl)) \<and> (cl_state cl \<noteq> READY \<longrightarrow>
        (cl_state (snd (cl_connect env rng opened cl)) = READY \<longleftrightarrow> fst (cl_connect env rng opened cl) = Inr ()))"
    using assms cl_handshake_ok [OF conn]
    by (cases opened; cases "cl_connect env rng opened cl") (fastforce simp: cl_connect_def)+
  moreover have "client_ok (snd (snd (cl_close cl)))" by (rule cl_close_ok [OF assms])
  moreover have "client_ok (snd (cl_send_data b cl))"
    using req [of DATA b 0] by (auto simp: cl_send_data_def split: prod.splits sum.splits)
  ultimately show ?thesis using req by (simp add: cl_ping_def)
qed

theorem client_invariant_witness:
  "client_ok (snd (cl_request PING [] 0 (new_client [1] [97] 5)))"
  using client_invariant [OF new_client_ok] by blast

text \<open>
  C15. A reply that misses its deadline is not lost but misattributed: the request raises
  \<^verbatim>\<open>TimeoutError\<close>, the client stays READY, and the next request, whatever its payload, returns the
  late reply of the first.
\<close>

theorem late_reply_misattributed:
  assumes "cl_state cl = READY" "cl_conn cl = Some (new_reader 0 [(t, Chunk (wire (cl_secret cl) g))], out)"
    "0 \<le> cl_timeout cl" "cl_timeout cl < t" "t \<le> 2 * cl_timeout cl"
    "frame_ok g" "cl_last_peer_seq cl < f_seq g" "0 \<le> cl_out_seq cl" "cl_out_seq cl < MAX_SEQ"
    "length a \<le> MAX_PAYLOAD" "length b \<le> MAX_PAYLOAD"
  shows "\<exists>cl1 cl2. cl_request DATA a 0 cl = (Inl TimeoutError, cl1) \<and> cl_request DATA b 0 cl1 = (Inr g, cl2)"
proof -
  let ?evs = "[(t, Chunk (wire (cl_secret cl) g))]"
  let ?f = "mk_frame DATA (cl_out_seq cl) a 0"
  have f: "frame_ok ?f" using assms(8-10) by (simp add: frame_ok_def)
  let ?cl1 = "cl\<lparr>cl_out_seq := cl_out_seq cl + 1,
    cl_conn := Some (new_reader (cl_timeout cl) ?evs, out @ [wire (cl_secret cl) ?f])\<rparr>"
  have next': "(cl_out_seq cl + 1) AND MAX_SEQ = cl_out_seq cl + 1"
    unfolding and_MAX_SEQ using assms(8,9) by (simp add: MAX_SEQ_def)
  have "wait_frame (cl_secret cl) (cl_timeout cl) (new_reader 0 ?evs) =
      (Inl TimeoutError, new_reader (cl_timeout cl) ?evs)"
    using assms(4) by (simp add: wait_frame_def read_frame_def readexactly_def new_reader_def)
  then have req1: "cl_request DATA a 0 cl = (Inl TimeoutError, ?cl1)"
    using assms(1) cl_send_wire [OF assms(2) f] by (simp add: cl_request_def cl_recv_def next')
  have f2: "frame_ok (mk_frame DATA (cl_out_seq cl + 1) b 0)" using assms(8,9,11) by (simp add: frame_ok_def)
  let ?cl2 = "?cl1\<lparr>cl_out_seq := (cl_out_seq cl + 1 + 1) AND MAX_SEQ, cl_conn := Some (new_reader (cl_timeout cl) ?evs,
     out @ [wire (cl_secret cl) ?f] @ [wire (cl_secret cl) (mk_frame DATA (cl_out_seq cl + 1) b 0)])\<rparr>"
  have send2: "cl_send DATA b 0 ?cl1 = (Inr (), ?cl2)"
    using cl_send_wire [of ?cl1 "new_reader (cl_timeout cl) ?evs" _ DATA b] f2 by simp
  have "\<exists>rd'. cl_recv ?cl2 = (Inr g, ?cl2\<lparr>cl_conn := Some (rd', out @ [wire (cl_secret cl) ?f] @
      [wire (cl_secret cl) (mk_frame DATA (cl_out_seq cl + 1) b 0)]), cl_last_peer_seq := f_seq g\<rparr>)"
    using cl_recv_wire [of ?cl2 "new_reader (cl_timeout cl) ?evs" _ g "[]"] assms(3,5-7)
    by (simp add: prompt_def new_reader_def punctual_def stream_def) blast
  then show ?thesis
    using req1 send2 assms(1) by (auto simp: cl_request_def [of DATA b])
qed

theorem late_reply_misattributed_witness:
  "\<exists>cl cl1 cl2 g. f_payload g = [1] \<and> cl_request DATA [1] 0 cl = (Inl TimeoutError, cl1)
    \<and> cl_request DATA [2] 0 cl1 = (Inr g, cl2)"
proof -
  let ?g = "mk_frame DATA 1 [1] 0"
  let ?cl = "(new_client [1] [97] 5)\<lparr>cl_state := READY, cl_out_seq := 1, cl_last_peer_seq := 0,
    cl_conn := Some (new_reader 0 [(6, Chunk (wire [1] ?g))], [])\<rparr>"
  have "\<exists>cl1 cl2. cl_request DATA [1] 0 ?cl = (Inl TimeoutError, cl1) \<and> cl_request DATA [2] 0 cl1 = (Inr ?g, cl2)"
    by (rule late_reply_misattributed [where t = 6])
      (simp_all add: new_client_def frame_ok_def MAX_SEQ_def MAX_PAYLOAD_def)
  then obtain cl1 cl2 where r: "cl_request DATA [1] 0 ?cl = (Inl TimeoutError, cl1)"
    "cl_request DATA [2] 0 cl1 = (Inr ?g, cl2)" by blast
  show ?thesis
    by (rule exI [of _ ?cl], rule exI [of _ cl1], rule exI [of _ cl2], rule exI [of _ ?g]) (simp add: r)
qed

end
