(* ===== verification/Udp_Exchange.thy ===== *)
theory Udp_Exchange
  imports Udp_Client Client_Props
begin

text \<open>
  A UDP client and the UDP server with a lossy link in each direction. The server answers a
  datagram at once; what is lost is decided by the links' random numbers. The properties: a
  request that returns was executed exactly once, whatever was lost.
\<close>

section \<open>The network\<close>

record 'a udp_world =
  uw_server :: "'a udp_server"
  uw_addr :: 'a
  uw_up :: lossy_link
  uw_down :: lossy_link

definition uw_net :: "py_env \<Rightarrow> (nat \<Rightarrow> bytes) \<Rightarrow> (nat \<Rightarrow> bytes) \<Rightarrow> 'a udp_world net" where
  "uw_net env rng0 rng raw w =
     (case ll_sendto raw (uw_addr w) (uw_up w) of (sent, up) \<Rightarrow>
        (case us_run env rng0 rng sent (uw_server w) of (outs, us) \<Rightarrow>
           (case ll_send_all (concat outs) (uw_down w) of (received, down) \<Rightarrow>
              (map fst received, w\<lparr>uw_server := us, uw_up := up, uw_down := down\<rparr>))))"

definition lost :: "lossy_link \<Rightarrow> bool" where
  "lost ll \<longleftrightarrow> ll_random ll (ll_calls ll) < ll_loss_rate ll"

definition tick :: "lossy_link \<Rightarrow> lossy_link" where
  "tick ll = ll\<lparr>ll_calls := ll_calls ll + 1, ll_dropped := ll_dropped ll + (if lost ll then 1 else 0)\<rparr>"

lemma ll_sendto_eq: "ll_sendto d a ll = (if lost ll then [] else [(d, a)], tick ll)"
  by (simp add: ll_sendto_def lost_def tick_def Let_def)

lemma uw_net_step:
  assumes "us_on_datagram env rng0 rng raw (uw_addr w) (uw_server w) = (r, [(d, uw_addr w)], us)"
  shows "uw_net env rng0 rng raw w =
    (if lost (uw_up w) then ([], w\<lparr>uw_up := tick (uw_up w)\<rparr>)
     else (if lost (uw_down w) then [] else [d],
       w\<lparr>uw_server := us, uw_up := tick (uw_up w), uw_down := tick (uw_down w)\<rparr>))"
  using assms by (simp add: uw_net_def ll_sendto_eq)

text \<open>
  Within \<open>n\<close> attempts: whether some request reaches the server, and whether some answer comes
  back. An answer can only be lost for a request that was not.
\<close>

fun reaches :: "nat \<Rightarrow> lossy_link \<Rightarrow> bool" where
  "reaches 0 up = False"
| "reaches (Suc n) up = (\<not> lost up \<or> reaches n (tick up))"

fun comes_back :: "nat \<Rightarrow> lossy_link \<Rightarrow> lossy_link \<Rightarrow> bool" where
  "comes_back 0 up down = False"
| "comes_back (Suc n) up down =
     (if lost up then comes_back n (tick up) down
      else \<not> lost down \<or> comes_back n (tick up) (tick down))"

lemma comes_back_reaches: "comes_back n up down \<Longrightarrow> reaches n up"
  by (induction n up down rule: comes_back.induct) (auto split: if_split_asm)

section \<open>One request, abstractly\<close>

lemma queue_empty:
  "uc_queue uc = [] \<Longrightarrow> uc\<lparr>uc_queue := []\<rparr> = uc"
  "uc_queue uc = [] \<Longrightarrow> uc\<lparr>uc_retransmits := x, uc_queue := []\<rparr> = uc\<lparr>uc_retransmits := x\<rparr>"
  by (cases uc; simp)+

lemma attempt_lost:
  assumes "encode (attempt_frame t seq p k) (uc_secret uc) = Inr raw" "uc_queue uc = []" "net raw w = ([], w')"
  shows "uc_attempts env net t seq p k (Suc n) uc w = uc_attempts env net t seq p (k + 1) n
    (uc\<lparr>uc_retransmits := uc_retransmits uc + (if k \<noteq> 0 then 1 else 0)\<rparr>) w'"
  using assms by (simp add: Let_def queue_empty)

lemma attempt_answered:
  assumes "encode (attempt_frame t seq p k) (uc_secret uc) = Inr raw" "uc_queue uc = []" "net raw w = ([d], w')"
    "uc_await env (uc_secret uc) seq [d] = (Some r, [])"
  shows "uc_attempts env net t seq p k (Suc n) uc w =
    (r, uc\<lparr>uc_retransmits := uc_retransmits uc + (if k \<noteq> 0 then 1 else 0)\<rparr>, w')"
  using assms by (simp add: Let_def queue_empty del: uc_await.simps)

text \<open>The message of the timeout.\<close>

definition no_reply :: "int \<Rightarrow> int \<Rightarrow> exn" where
  "no_reply seq retries = ProtocolError ERR_TIMEOUT (ascii ''no reply for seq '' @ dec_int seq @ ascii '' after ''
     @ dec_int retries @ ascii '' retries'')"

text \<open>
  The server is in \<open>s0\<close> before the request reaches it and in \<open>s1\<close>, up to the number of
  duplicates, afterwards; either way the answer is the datagram \<open>d\<close>.
\<close>

definition one_answer ::
  "py_env \<Rightarrow> (nat \<Rightarrow> bytes) \<Rightarrow> (nat \<Rightarrow> bytes) \<Rightarrow> bytes \<Rightarrow> msg_type \<Rightarrow> int \<Rightarrow> bytes \<Rightarrow> 'a
     \<Rightarrow> 'a udp_server \<Rightarrow> bytes \<Rightarrow> 'a udp_server \<Rightarrow> bool"
where
  "one_answer env rng0 rng key t seq p addr s0 d s1 \<longleftrightarrow>
     (\<forall>k. us_on_datagram env rng0 rng (wire key (attempt_frame t seq p k)) addr s0 = (Inr (), [(d, addr)], s1))
   \<and> (\<forall>k m. us_on_datagram env rng0 rng (wire key (attempt_frame t seq p k)) addr (s1\<lparr>us_duplicates := m\<rparr>)
        = (Inr (), [(d, addr)], s1\<lparr>us_duplicates := m + 1\<rparr>))"

lemma attempts_after:
  assumes once: "one_answer env rng0 rng key t seq p addr s0 d s1"
    and answer: "uc_await env key seq [d] = (Some r, [])"
    and ok: "length p \<le> MAX_PAYLOAD" "0 \<le> seq" "seq \<le> MAX_SEQ"
  shows "uc_secret uc = key \<Longrightarrow> uc_queue uc = [] \<Longrightarrow> uw_addr w = addr \<Longrightarrow> uw_server w = s1\<lparr>us_duplicates := m\<rparr> \<Longrightarrow>
    \<exists>n' m' up down. uc_attempts env (uw_net env rng0 rng) t seq p k n uc w =
      (if comes_back n (uw_up w) (uw_down w) then r else Inl (no_reply seq (uc_max_retries uc)),
       uc\<lparr>uc_retransmits := n'\<rparr>, w\<lparr>uw_server := s1\<lparr>us_duplicates := m'\<rparr>, uw_up := up, uw_down := down\<rparr>)"
proof (induction n arbitrary: k uc w m)
  case 0
  then show ?case
    by (intro exI [of _ "uc_retransmits uc"] exI [of _ m] exI [of _ "uw_up w"] exI [of _ "uw_down w"])
      (simp add: no_reply_def)
next
  case (Suc n)
  let ?f = "attempt_frame t seq p k"
  let ?uc = "uc\<lparr>uc_retransmits := uc_retransmits uc + (if k \<noteq> 0 then 1 else 0)\<rparr>"
  let ?w1 = "w\<lparr>uw_up := tick (uw_up w)\<rparr>"
  let ?w2 = "w\<lparr>uw_server := s1\<lparr>us_duplicates := m + 1\<rparr>, uw_up := tick (uw_up w), uw_down := tick (uw_down w)\<rparr>"
  have raw: "encode ?f (uc_secret uc) = Inr (wire key ?f)"
    using attempt_frame_ok [OF ok] encode_wire Suc.prems(1) by simp
  have step: "uw_net env rng0 rng (wire key ?f) w =
    (if lost (uw_up w) then ([], ?w1) else (if lost (uw_down w) then [] else [d], ?w2))"
    using once Suc.prems(3,4) by (intro uw_net_step [where r = "Inr ()"]) (simp add: one_answer_def)
  note lost = attempt_lost [OF raw Suc.prems(2), of "uw_net env rng0 rng" w _ env n]
  consider "lost (uw_up w)" | "\<not> lost (uw_up w)" "lost (uw_down w)" | "\<not> lost (uw_up w)" "\<not> lost (uw_down w)"
    by blast
  then show ?case
  proof cases
    case 1
    from Suc.IH [of ?uc ?w1 m "k + 1"] Suc.prems obtain n' m' up down where
      "uc_attempts env (uw_net env rng0 rng) t seq p (k + 1) n ?uc ?w1 =
        (if comes_back n (uw_up ?w1) (uw_down ?w1) then r else Inl (no_reply seq (uc_max_retries ?uc)),
         ?uc\<lparr>uc_retransmits := n'\<rparr>, ?w1\<lparr>uw_server := s1\<lparr>us_duplicates := m'\<rparr>,
           uw_up := up, uw_down := down\<rparr>)" by auto
    with 1 step lost [of ?w1] show ?thesis
      by (intro exI [of _ n'] exI [of _ m'] exI [of _ up] exI [of _ down]) (simp del: uc_attempts.simps)
  next
    case 2
    from Suc.IH [of ?uc ?w2 "m + 1" "k + 1"] Suc.prems obtain n' m' up down where
      "uc_attempts env (uw_net env rng0 rng) t seq p (k + 1) n ?uc ?w2 =
        (if comes_back n (uw_up ?w2) (uw_down ?w2) then r else Inl (no_reply seq (uc_max_retries ?uc)),
         ?uc\<lparr>uc_retransmits := n'\<rparr>, ?w2\<lparr>uw_server := s1\<lparr>us_duplicates := m'\<rparr>,
           uw_up := up, uw_down := down\<rparr>)" by auto
    with 2 step lost [of ?w2] show ?thesis
      by (intro exI [of _ n'] exI [of _ m'] exI [of _ up] exI [of _ down]) (simp del: uc_attempts.simps)
  next
    case 3
    with step have "uw_net env rng0 rng (wire key ?f) w = ([d], ?w2)" by simp
    from attempt_answered [where net = "uw_net env rng0 rng" and env = env and w = w, OF raw Suc.prems(2) this] answer Suc.prems(1) 3
    show ?thesis
      by (intro exI [of _ "uc_retransmits ?uc"] exI [of _ "m + 1"] exI [of _ "tick (uw_up w)"]
          exI [of _ "tick (uw_down w)"]) (simp del: uc_attempts.simps uc_await.simps)
  qed
qed

lemma attempts_before:
  assumes once: "one_answer env rng0 rng key t seq p addr s0 d s1"
    and answer: "uc_await env key seq [d] = (Some r, [])"
    and ok: "length p \<le> MAX_PAYLOAD" "0 \<le> seq" "seq \<le> MAX_SEQ"
  shows "uc_secret uc = key \<Longrightarrow> uc_queue uc = [] \<Longrightarrow> uw_addr w = addr \<Longrightarrow> uw_server w = s0 \<Longrightarrow>
    \<exists>n' m' up down. uc_attempts env (uw_net env rng0 rng) t seq p k n uc w =
      (if comes_back n (uw_up w) (uw_down w) then r else Inl (no_reply seq (uc_max_retries uc)),
       uc\<lparr>uc_retransmits := n'\<rparr>,
       w\<lparr>uw_server := (if reaches n (uw_up w) then s1\<lparr>us_duplicates := m'\<rparr> else s0), uw_up := up, uw_down := down\<rparr>)"
proof (induction n arbitrary: k uc w)
  case 0
  then show ?case
    by (intro exI [of _ "uc_retransmits uc"] exI [of _ 0] exI [of _ "uw_up w"] exI [of _ "uw_down w"])
      (simp add: no_reply_def)
next
  case (Suc n)
  let ?f = "attempt_frame t seq p k"
  let ?uc = "uc\<lparr>uc_retransmits := uc_retransmits uc + (if k \<noteq> 0 then 1 else 0)\<rparr>"
  let ?w1 = "w\<lparr>uw_up := tick (uw_up w)\<rparr>"
  let ?w2 = "w\<lparr>uw_server := s1, uw_up := tick (uw_up w), uw_down := tick (uw_down w)\<rparr>"
  have raw: "encode ?f (uc_secret uc) = Inr (wire key ?f)"
    using attempt_frame_ok [OF ok] encode_wire Suc.prems(1) by simp
  have step: "uw_net env rng0 rng (wire key ?f) w =
    (if lost (uw_up w) then ([], ?w1) else (if lost (uw_down w) then [] else [d], ?w2))"
    using once Suc.prems(3,4) by (intro uw_net_step [where r = "Inr ()"]) (simp add: one_answer_def)
  have s1: "s1\<lparr>us_duplicates := us_duplicates s1\<rparr> = s1" by (cases s1) simp
  note lost = attempt_lost [OF raw Suc.prems(2), of "uw_net env rng0 rng" w _ env n]
  consider "lost (uw_up w)" | "\<not> lost (uw_up w)" "lost (uw_down w)" | "\<not> lost (uw_up w)" "\<not> lost (uw_down w)"
    by blast
  then show ?case
  proof cases
    case 1
    from Suc.IH [of ?uc ?w1 "k + 1"] Suc.prems obtain n' m' up down where
      "uc_attempts env (uw_net env rng0 rng) t seq p (k + 1) n ?uc ?w1 =
        (if comes_back n (uw_up ?w1) (uw_down ?w1) then r else Inl (no_reply seq (uc_max_retries ?uc)),
         ?uc\<lparr>uc_retransmits := n'\<rparr>, ?w1\<lparr>uw_server := (if reaches n (uw_up ?w1) then s1\<lparr>us_duplicates := m'\<rparr> else s0),
           uw_up := up, uw_down := down\<rparr>)" by auto
    with 1 step lost [of ?w1] show ?thesis
      by (intro exI [of _ n'] exI [of _ m'] exI [of _ up] exI [of _ down]) (simp del: uc_attempts.simps)
  next
    case 2
    from attempts_after [OF once answer ok, of ?uc ?w2 "us_duplicates s1" "k + 1" n] Suc.prems s1 obtain n' m' up down where
      "uc_attempts env (uw_net env rng0 rng) t seq p (k + 1) n ?uc ?w2 =
        (if comes_back n (uw_up ?w2) (uw_down ?w2) then r else Inl (no_reply seq (uc_max_retries ?uc)),
         ?uc\<lparr>uc_retransmits := n'\<rparr>, ?w2\<lparr>uw_server := s1\<lparr>us_duplicates := m'\<rparr>,
           uw_up := up, uw_down := down\<rparr>)" by auto
    with 2 step lost [of ?w2] show ?thesis
      by (intro exI [of _ n'] exI [of _ m'] exI [of _ up] exI [of _ down]) (simp del: uc_attempts.simps)
  next
    case 3
    with step have "uw_net env rng0 rng (wire key ?f) w = ([d], ?w2)" by simp
    from attempt_answered [where net = "uw_net env rng0 rng" and env = env and w = w, OF raw Suc.prems(2) this] answer Suc.prems(1) 3 s1
    show ?thesis
      by (intro exI [of _ "uc_retransmits ?uc"] exI [of _ "us_duplicates s1"] exI [of _ "tick (uw_up w)"]
          exI [of _ "tick (uw_down w)"]) (simp del: uc_attempts.simps uc_await.simps)
  qed
qed

section \<open>One request, concretely\<close>

lemma encode_ack_small:
  assumes "0 \<le> seq" "seq \<le> MAX_SEQ" "0 < json_depth env"
  obtains ack where "encode_ack seq = Inr ack" "decode_ack env ack = Inr seq" "length ack \<le> MAX_PAYLOAD"
proof -
  have small: "\<bar>seq\<bar> < 10 ^ 20" using assms(1,2) by (simp add: MAX_SEQ_def)
  from encode_ack_fits [OF this] obtain ack where ack: "encode_ack seq = Inr ack" "length ack \<le> 20000" by blast
  with ack_msg.dec_of_enc [of env seq ack] assms(3) field_ok_small [OF small] have "decode_ack env ack = Inr seq"
    by simp
  with ack that show thesis by (simp add: MAX_PAYLOAD_def)
qed

lemma uc_await_one:
  assumes "d = concat (map (wire key) (a # gs))" "list_all frame_ok (a # gs)" "f_type a = ACK"
    "decode_ack env (f_payload a) = Inr seq" "g = last (a # gs)" "f_type g \<noteq> ERROR"
  shows "uc_await env key seq [d] = (Some (Inr g), [])"
proof -
  have "split_datagram d key = Inr (a # gs)" using assms(1,2) unfolding split_datagram_iff by blast
  moreover have "answers_seq env seq (a # gs) = Inr True" using assms(3,4) by (simp add: answers_seq_def)
  moreover have "reply_result env (last (a # gs)) = Inr g" using assms(5,6) by (simp add: reply_result_def)
  ultimately show ?thesis by simp
qed

lemma one_answerI:
  assumes "us_attached s1" "us_peers s1 addr = Some (ss, dw)" "dw_get seq dw = Some d" "d \<noteq> []"
    "us_secret s1 = key" "length p \<le> MAX_PAYLOAD" "0 \<le> seq" "seq \<le> MAX_SEQ"
    "\<And>k. us_on_datagram env rng0 rng (wire key (attempt_frame t seq p k)) addr s0 = (Inr (), [(d, addr)], s1)"
  shows "one_answer env rng0 rng key t seq p addr s0 d s1"
proof -
  have "us_on_datagram env rng0 rng (wire key (attempt_frame t seq p k)) addr (s1\<lparr>us_duplicates := m\<rparr>)
      = (Inr (), [(d, addr)], s1\<lparr>us_duplicates := m + 1\<rparr>)" for k m
    using us_duplicate [of "s1\<lparr>us_duplicates := m\<rparr>" addr ss dw "attempt_frame t seq p k" d env rng0 rng]
      assms(1-8) attempt_frame_ok [OF assms(6-8)] by simp
  with assms(9) show ?thesis by (simp add: one_answer_def)
qed

text \<open>
  The client is connected, nothing is under way, the server has an open session for its address,
  and the client's next number is above all it has used.
\<close>

definition linked :: "'a udp_world \<Rightarrow> udp_client \<Rightarrow> bool" where
  "linked w uc \<longleftrightarrow> us_ok (uw_server w) \<and> us_attached (uw_server w) \<and> us_secret (uw_server w) = uc_secret uc
     \<and> uc_attached uc \<and> uc_queue uc = [] \<and> 0 \<le> uc_out_seq uc
     \<and> (\<exists>ss dw. us_peers (uw_server w) (uw_addr w) = Some (ss, dw) \<and> ss_state ss = READY
          \<and> ss_last_peer_seq ss < uc_out_seq uc)"

lemma us_ok_duplicates: "us_ok (us\<lparr>us_duplicates := m\<rparr>) = us_ok us"
  by (simp add: us_ok_def)

lemma request_exchange:
  assumes linked: "linked w uc" and rng: "rng_ok rng" and depth: "0 < json_depth env"
    and req: "request_ok (t, p)" and wrap: "uc_out_seq uc < MAX_SEQ"
    and n: "n = nat (uc_max_retries uc + 1)"
  obtains r uc' w' where "uc_request env (uw_net env rng0 rng) t p uc w = (r, uc', w')"
    "if comes_back n (uw_up w) (uw_down w) then \<exists>g. r = Inr g \<and> (f_type g, f_payload g) = answer_of (t, p)
     else r = Inl (no_reply (uc_out_seq uc) (uc_max_retries uc))"
    "us_handled (uw_server w') = us_handled (uw_server w) + (if reaches n (uw_up w) then 1 else 0)"
    "linked w' uc'" "uc_out_seq uc' = uc_out_seq uc + 1" "uc_max_retries uc' = uc_max_retries uc"
proof -
  let ?us = "uw_server w" and ?addr = "uw_addr w" and ?seq = "uc_out_seq uc" and ?key = "uc_secret uc"
  from linked obtain ss dw where l: "us_ok ?us" "us_attached ?us" "us_secret ?us = ?key" "uc_attached uc"
    "uc_queue uc = []" "0 \<le> ?seq" "us_peers ?us ?addr = Some (ss, dw)" "ss_state ss = READY"
    "ss_last_peer_seq ss < ?seq" by (auto simp: linked_def)
  have t: "t = PING \<or> t = DATA" "length p \<le> MAX_PAYLOAD" using req by (auto simp: request_ok_def)
  have seq: "?seq \<le> MAX_SEQ" using wrap by simp
  obtain ack where ack: "encode_ack ?seq = Inr ack" "decode_ack env ack = Inr ?seq"
    by (rule encode_ack_small [OF l(6) seq depth])
  let ?gs = "echo_answer ?key ss ack t p"
  let ?d = "concat (map (wire ?key) ?gs)"
  let ?g = "mk_frame (if t = PING then PONG else DATA) ((ss_out_seq ss + 1) AND MAX_SEQ) p 0"
  let ?ss = "ss\<lparr>ss_last_peer_seq := ?seq, ss_out_seq := (((ss_out_seq ss + 1) AND MAX_SEQ) + 1) AND MAX_SEQ\<rparr>"
  let ?dw = "snd (dw_put ?seq ?d dw)"
  let ?s1 = "?us\<lparr>us_handled := us_handled ?us + 1, us_peers := (us_peers ?us)(?addr \<mapsto> (?ss, ?dw))\<rparr>"
  note e = us_echo [OF l(1,2,7,8), where f = "attempt_frame t ?seq p k" for k,
      unfolded attempt_frame_sel l(3), OF l(9) t(1) attempt_frame_ok [OF t(2) l(6) seq] attempt_frame_flags(1)
        ack(1) refl refl]
  have step: "us_on_datagram env rng0 rng (wire ?key (attempt_frame t ?seq p k)) ?addr ?us = (Inr (), [(?d, ?addr)], ?s1)" for k
    by (rule e(1))
  have ok1: "us_ok ?s1 \<and> us_attached ?s1 \<and> us_secret ?s1 = ?key"
    using us_step_ok [OF l(1,2) rng step] l(3) by simp
  have ne: "?d \<noteq> []" unfolding concat_wire_Nil by (simp add: echo_answer_def)
  have once: "one_answer env rng0 rng ?key t ?seq p ?addr ?us ?d ?s1"
    by (rule one_answerI [OF _ _ e(3) ne _ t(2) l(6) seq step]) (use ok1 in simp_all)
  have answer: "uc_await env ?key ?seq [?d] = (Some (Inr ?g), [])"
    by (rule uc_await_one [OF _ _ _ _ _ _, of _ _ "mk_frame ACK (ss_out_seq ss) ack 0" "[?g]"])
      (use e(2) ack(2) in \<open>simp_all add: echo_answer_def\<close>)
  let ?uc = "uc\<lparr>uc_out_seq := (?seq + 1) AND MAX_SEQ\<rparr>"
  have next': "(?seq + 1) AND MAX_SEQ = ?seq + 1"
    using l(6) wrap by (simp add: and_MAX_SEQ) (simp add: MAX_SEQ_def)
  obtain n' m' up down where run: "uc_attempts env (uw_net env rng0 rng) t ?seq p 0 n ?uc w =
      (if comes_back n (uw_up w) (uw_down w) then Inr ?g else Inl (no_reply ?seq (uc_max_retries ?uc)),
       ?uc\<lparr>uc_retransmits := n'\<rparr>,
       w\<lparr>uw_server := (if reaches n (uw_up w) then ?s1\<lparr>us_duplicates := m'\<rparr> else ?us), uw_up := up, uw_down := down\<rparr>)"
    using attempts_before [OF once answer t(2) l(6) seq, of ?uc w 0 n] l(5) by auto
  let ?w = "w\<lparr>uw_server := (if reaches n (uw_up w) then ?s1\<lparr>us_duplicates := m'\<rparr> else ?us), uw_up := up, uw_down := down\<rparr>"
  have "uc_request env (uw_net env rng0 rng) t p uc w =
      (if comes_back n (uw_up w) (uw_down w) then Inr ?g else Inl (no_reply ?seq (uc_max_retries uc)),
       ?uc\<lparr>uc_retransmits := n'\<rparr>, ?w)"
    using run l(4) n by (simp add: uc_request_def uc_next_seq_def)
  moreover have linked': "linked ?w (?uc\<lparr>uc_retransmits := n'\<rparr>)"
    using l ok1 by (auto simp: linked_def next' us_ok_duplicates)
  moreover have "us_handled (uw_server ?w) = us_handled ?us + (if reaches n (uw_up w) then 1 else 0)" by simp
  ultimately show thesis
    using next' that [of _ "?uc\<lparr>uc_retransmits := n'\<rparr>" ?w]
    by (cases "comes_back n (uw_up w) (uw_down w)") (simp_all add: answer_of_def)
qed

section \<open>Connecting\<close>

lemma hello_once:
  assumes "us_ok us" "us_attached us" "rng_ok rng" "us_peers us addr = None" "us_secret us = key"
    "decode_hello env p = Inr x" "length p \<le> MAX_PAYLOAD" "0 < json_depth env"
  obtains d s1 g where "one_answer env rng0 rng key HELLO 0 p addr us d s1"
    "uc_await env key 0 [d] = (Some (Inr g), [])" "f_type g = HELLO_ACK"
    "decode_hello_ack env (f_payload g) = Inr (ss_id (new_session rng0), new_nonce rng)"
    "us_handled s1 = us_handled us + 1" "us_ok s1" "us_attached s1" "us_secret s1 = key"
    "\<exists>ss dw. us_peers s1 addr = Some (ss, dw) \<and> ss_state ss = READY \<and> ss_last_peer_seq ss = 0"
proof -
  obtain cid nonce where x: "decode_hello env p = Inr (cid, nonce)" using assms(6) by (cases x) simp
  have seq: "0 \<le> (0 :: int)" "(0 :: int) \<le> MAX_SEQ" by (simp_all add: MAX_SEQ_def)
  obtain ack where ack: "encode_ack 0 = Inr ack" "decode_ack env ack = Inr 0"
    by (rule encode_ack_small [OF seq assms(8)])
  let ?f = "attempt_frame HELLO 0 p"
  have f: "frame_ok (?f k)" "decode_hello env (f_payload (?f k)) = Inr (cid, nonce)" for k
    using attempt_frame_ok [OF assms(7) seq] x by simp_all
  obtain q where q: "encode_hello_ack rng (ss_id (new_session rng0)) None = Inr q"
    by (rule us_hello [OF assms(1-4) attempt_frame_sel(1) f(2,1) attempt_frame_flags(1)])
  let ?a = "mk_frame ACK 0 ack 0" and ?g = "mk_frame HELLO_ACK 1 q 0"
  let ?d = "wire key ?a @ wire key ?g"
  let ?ss = "(new_session rng0)\<lparr>ss_out_seq := 2, ss_last_peer_seq := 0,
      ss_client_id := Some cid, ss_peer_nonce := Some nonce, ss_state := READY\<rparr>"
  let ?dw = "snd (dw_put 0 ?d (new_window (us_dedup_size us)))"
  let ?s1 = "us\<lparr>us_handled := us_handled us + 1, us_peers := (us_peers us)(addr \<mapsto> (?ss, ?dw))\<rparr>"
  have step: "us_on_datagram env rng0 rng (wire key (?f k)) addr us = (Inr (), [(?d, addr)], ?s1)"
    and ok: "list_all frame_ok [?a, ?g]" for k
    by (rule us_hello [OF assms(1-4) attempt_frame_sel(1) f(2,1) [of k] attempt_frame_flags(1), of rng0],
        use ack(1) q assms(5) in simp)+
  have s1: "us_ok ?s1" "us_attached ?s1" "us_secret ?s1 = key"
    using us_step_ok [OF assms(1-3) step] assms(5) by simp_all
  have w: "window_ok (new_window (us_dedup_size us))"
    using assms(1) by (simp add: us_ok_def new_window_def window_ok_def)
  have get: "dw_get 0 ?dw = Some ?d" by (rule window.lookup_store [OF w])
  have ne: "?d \<noteq> []" using concat_wire_Nil [of key "[?a, ?g]"] by simp
  have peer: "us_peers ?s1 addr = Some (?ss, ?dw)" by simp
  have once: "one_answer env rng0 rng key HELLO 0 p addr us ?d ?s1"
    by (rule one_answerI [OF s1(2) peer get ne s1(3) assms(7) seq step])
  have answer: "uc_await env key 0 [?d] = (Some (Inr ?g), [])"
    by (rule uc_await_one [of _ _ ?a "[?g]"]) (use ok ack(2) in simp_all)
  have "decode_hello_ack env q = Inr (ss_id (new_session rng0), new_nonce rng)"
    by (rule hello_ack_decodes [OF q assms(8)])
  with once answer s1 show thesis by (intro that [of ?d ?s1 ?g]) simp_all
qed

lemma connect_exchange:
  assumes "us_ok (uw_server w)" "us_attached (uw_server w)" "rng_ok rng" "0 < json_depth env"
    "us_peers (uw_server w) (uw_addr w) = None" "us_secret (uw_server w) = key"
    "encode_hello rngc cid None = Inr p" "decode_hello env p = Inr x" "length p \<le> MAX_PAYLOAD"
    "n = nat (retries + 1)"
  obtains r uc w' where
    "uc_connect env rngc (Inr ()) (uw_net env rng0 rng) (new_udp_client key cid retries) w = (r, uc, w')"
    "if comes_back n (uw_up w) (uw_down w)
     then r = Inr () \<and> uc_session_id uc = Some (ss_id (new_session rng0)) \<and> linked w' uc \<and> uc_out_seq uc = 1
     else r = Inl (no_reply 0 retries)"
    "us_handled (uw_server w') = us_handled (uw_server w) + (if reaches n (uw_up w) then 1 else 0)"
proof -
  let ?us = "uw_server w" and ?addr = "uw_addr w"
  obtain d s1 g where h: "one_answer env rng0 rng key HELLO 0 p ?addr ?us d s1"
    "uc_await env key 0 [d] = (Some (Inr g), [])" "f_type g = HELLO_ACK"
    "decode_hello_ack env (f_payload g) = Inr (ss_id (new_session rng0), new_nonce rng)"
    "us_handled s1 = us_handled ?us + 1" "us_ok s1" "us_attached s1" "us_secret s1 = key"
    "\<exists>ss dw. us_peers s1 ?addr = Some (ss, dw) \<and> ss_state ss = READY \<and> ss_last_peer_seq ss = 0"
    by (rule hello_once [OF assms(1-3,5,6,8,9,4)])
  have seq: "0 \<le> (0 :: int)" "(0 :: int) \<le> MAX_SEQ" by (simp_all add: MAX_SEQ_def)
  let ?uc = "(new_udp_client key cid retries)\<lparr>uc_attached := True, uc_state := HANDSHAKE, uc_out_seq := 1\<rparr>"
  have uc: "uc_secret ?uc = key" "uc_queue ?uc = []" "uc_max_retries ?uc = retries"
    by (simp_all add: new_udp_client_def)
  obtain n' m' up down where run: "uc_attempts env (uw_net env rng0 rng) HELLO 0 p 0 n ?uc w =
      (if comes_back n (uw_up w) (uw_down w) then Inr g else Inl (no_reply 0 (uc_max_retries ?uc)),
       ?uc\<lparr>uc_retransmits := n'\<rparr>,
       w\<lparr>uw_server := (if reaches n (uw_up w) then s1\<lparr>us_duplicates := m'\<rparr> else ?us), uw_up := up, uw_down := down\<rparr>)"
    using attempts_before [OF h(1,2) assms(9) seq uc(1,2) refl refl, of 0 n] by blast
  let ?w = "w\<lparr>uw_server := (if reaches n (uw_up w) then s1\<lparr>us_duplicates := m'\<rparr> else ?us), uw_up := up, uw_down := down\<rparr>"
  have req: "uc_request env (uw_net env rng0 rng) HELLO p
      ((new_udp_client key cid retries)\<lparr>uc_attached := True, uc_state := HANDSHAKE\<rparr>) w =
    (if comes_back n (uw_up w) (uw_down w) then Inr g else Inl (no_reply 0 retries), ?uc\<lparr>uc_retransmits := n'\<rparr>, ?w)"
    using run assms(10) uc(3) by (simp add: uc_request_def uc_next_seq_def new_udp_client_def and_MAX_SEQ)
  have handled: "us_handled (uw_server ?w) = us_handled ?us + (if reaches n (uw_up w) then 1 else 0)"
    using h(5) by simp
  show thesis
  proof (cases "comes_back n (uw_up w) (uw_down w)")
    case True
    let ?uc' = "?uc\<lparr>uc_retransmits := n', uc_session_id := Some (ss_id (new_session rng0)), uc_state := READY\<rparr>"
    have con: "uc_connect env rngc (Inr ()) (uw_net env rng0 rng) (new_udp_client key cid retries) w = (Inr (), ?uc', ?w)"
      using req True h(3,4) assms(7) by (simp add: uc_connect_def new_udp_client_def)
    have "linked ?w ?uc'"
      using h(6-9) comes_back_reaches [OF True]
      by (auto simp: linked_def us_ok_duplicates new_udp_client_def)
    with True con handled show thesis by (intro that [OF con]) (simp_all del: sum.simps)
  next
    case False
    have "uc_connect env rngc (Inr ()) (uw_net env rng0 rng) (new_udp_client key cid retries) w =
      (Inl (no_reply 0 retries), ?uc\<lparr>uc_retransmits := n'\<rparr>, ?w)"
      using req False assms(7) by (simp add: uc_connect_def new_udp_client_def)
    from that [OF this] False handled show thesis by simp
  qed
qed

end
