(* ===== verification/Udp_Props.thy ===== *)
theory Udp_Props
  imports Udp_Exchange
begin

text \<open>
  Properties of the UDP client: alone, against a network that may do anything with the datagrams,
  and together with the UDP server over a link that loses datagrams in both directions.
\<close>

section \<open>Several requests\<close>

fun uc_requests ::
  "py_env \<Rightarrow> 'w net \<Rightarrow> (msg_type \<times> bytes) list \<Rightarrow> udp_client \<Rightarrow> 'w \<Rightarrow> frame res list \<times> udp_client \<times> 'w"
where
  "uc_requests env net [] uc w = ([], uc, w)"
| "uc_requests env net ((t, p) # reqs) uc w =
     (case uc_request env net t p uc w of (r, uc1, w1) \<Rightarrow>
        (case uc_requests env net reqs uc1 w1 of (rs, uc2, w2) \<Rightarrow> (r # rs, uc2, w2)))"

text \<open>A request's result is its own echo or a timeout.\<close>

definition echo_or_timeout :: "msg_type \<times> bytes \<Rightarrow> frame res \<Rightarrow> bool" where
  "echo_or_timeout req r \<longleftrightarrow>
     (case r of Inr g \<Rightarrow> (f_type g, f_payload g) = answer_of req | Inl e \<Rightarrow> (\<exists>s n. e = no_reply s n))"

definition answered :: "frame res list \<Rightarrow> nat" where
  "answered rs = length (filter (\<lambda>r. case r of Inr _ \<Rightarrow> True | Inl _ \<Rightarrow> False) rs)"

lemma requests_exchange:
  assumes "linked w uc" "rng_ok rng" "0 < json_depth env" "list_all request_ok reqs"
    "uc_out_seq uc + int (length reqs) \<le> MAX_SEQ"
  shows "\<exists>rs uc' w'. uc_requests env (uw_net env rng0 rng) reqs uc w = (rs, uc', w') \<and> linked w' uc'
    \<and> list_all2 echo_or_timeout reqs rs
    \<and> us_handled (uw_server w) + answered rs \<le> us_handled (uw_server w')
    \<and> us_handled (uw_server w') \<le> us_handled (uw_server w) + length reqs"
  using assms(1,4,5)
proof (induction reqs arbitrary: uc w)
  case Nil
  then show ?case by (simp add: answered_def)
next
  case (Cons req reqs)
  obtain t p where req: "req = (t, p)" by (cases req)
  let ?n = "nat (uc_max_retries uc + 1)"
  have ok: "request_ok (t, p)" "uc_out_seq uc < MAX_SEQ" using Cons.prems(2,3) by (simp_all add: req)
  obtain r uc1 w1 where one: "uc_request env (uw_net env rng0 rng) t p uc w = (r, uc1, w1)"
    "if comes_back ?n (uw_up w) (uw_down w) then \<exists>g. r = Inr g \<and> (f_type g, f_payload g) = answer_of (t, p)
     else r = Inl (no_reply (uc_out_seq uc) (uc_max_retries uc))"
    "us_handled (uw_server w1) = us_handled (uw_server w) + (if reaches ?n (uw_up w) then 1 else 0)"
    "linked w1 uc1" "uc_out_seq uc1 = uc_out_seq uc + 1"
    by (rule request_exchange [OF Cons.prems(1) assms(2,3) ok refl]) blast
  have r: "echo_or_timeout (t, p) r" using one(2) by (auto simp: echo_or_timeout_def split: if_split_asm)
  have count: "us_handled (uw_server w) + (case r of Inr _ \<Rightarrow> 1 | Inl _ \<Rightarrow> 0) \<le> us_handled (uw_server w1)"
    using one(2,3) comes_back_reaches [of ?n "uw_up w" "uw_down w"] by (auto split: if_split_asm)
  have upper: "us_handled (uw_server w1) \<le> us_handled (uw_server w) + 1" using one(3) by simp
  obtain rs uc2 w2 where "uc_requests env (uw_net env rng0 rng) reqs uc1 w1 = (rs, uc2, w2)" "linked w2 uc2"
    "list_all2 echo_or_timeout reqs rs" "us_handled (uw_server w1) + answered rs \<le> us_handled (uw_server w2)"
    "us_handled (uw_server w2) \<le> us_handled (uw_server w1) + length reqs"
    using Cons.IH [OF one(4)] Cons.prems(2,3) one(5) by auto
  with one(1) r count upper show ?case
    by (auto simp: req answered_def split: sum.split sum.split_asm)
qed

section \<open>A lossless world for the witnesses\<close>

definition sure_link :: lossy_link where
  "sure_link = \<lparr>ll_loss_rate = 0, ll_random = (\<lambda>_. 1), ll_calls = 0, ll_dropped = 0\<rparr>"

definition world0 :: "nat udp_world" where
  "world0 = \<lparr>uw_server = us0, uw_addr = 7, uw_up = sure_link, uw_down = sure_link\<rparr>"

lemma world0: "us_ok (uw_server world0)" "us_attached (uw_server world0)"
  "us_peers (uw_server world0) (uw_addr world0) = None" "us_secret (uw_server world0) = [1]"
  "\<not> lost (uw_up world0)" "\<not> lost (uw_down world0)"
  using us0 by (simp_all add: world0_def lost_def sure_link_def)

abbreviation (input) rand0 :: "nat \<Rightarrow> bytes" where "rand0 \<equiv> \<lambda>n. replicate n 0"

lemma hello_payload0:
  obtains p where "encode_hello rand0 [97] None = Inr p" "length p \<le> MAX_PAYLOAD"
    "\<exists>x. decode_hello py_env0 p = Inr x"
proof -
  obtain p where p: "encode_hello rand0 [97] None = Inr p" "length p \<le> 20000"
    using encode_hello_fits [of "[97]" rand0] by auto
  have h0: "hello0 = mk_frame HELLO 0 p 0" using p(1) by (simp add: hello0_def)
  have "\<exists>x. decode_hello py_env0 (f_payload hello0) = Inr x" using hello0_ok by blast
  then have "\<exists>x. decode_hello py_env0 p = Inr x" unfolding h0 by simp
  with p show thesis by (intro that) (simp_all add: MAX_PAYLOAD_def)
qed

lemma connected0:
  obtains uc w where
    "uc_connect py_env0 rand0 (Inr ()) (uw_net py_env0 rand0 rand0) (new_udp_client [1] [97] 2) world0 = (Inr (), uc, w)"
    "linked w uc" "uc_out_seq uc = 1"
proof -
  obtain p where p: "encode_hello rand0 [97] None = Inr p" and len: "length p \<le> MAX_PAYLOAD"
    and "\<exists>x. decode_hello py_env0 p = Inr x" by (rule hello_payload0)
  then obtain x where x: "decode_hello py_env0 p = Inr x" by blast
  have depth: "0 < json_depth py_env0" by (simp add: py_env0_def)
  have cb: "comes_back 3 (uw_up world0) (uw_down world0)"
    using world0(5,6) by (simp add: numeral_3_eq_3)
  show thesis
    by (rule connect_exchange [OF world0(1,2) zeros_ok depth world0(3,4) p x len, where n = 3 and retries = 2 and ?rng0.0 = rand0])
      (use cb that in auto)
qed

section \<open>Properties\<close>





text \<open>
  C18. Whatever the network delivers, also late copies, reordered or foreign datagrams, a reply
  that a request returns comes from a datagram that was delivered, whose frames carry valid MACs
  under the key and whose first frame is an ACK naming this very request.
\<close>

theorem reply_belongs_to_request:
  assumes "uc_request env net t p uc w = (Inr g, uc', w')" "yields P net" "list_all P (uc_queue uc)"
  shows "\<exists>d. P d \<and> answer_to env (uc_secret uc) (uc_out_seq uc) d g"
  using uc_attempts_answer [of env net t "uc_out_seq uc" p 0 "nat (uc_max_retries uc + 1)" "snd (uc_next_seq uc)" w g uc' w' P]
    assms by (auto simp: uc_request_def uc_next_seq_def split: if_split_asm)

theorem reply_belongs_to_request_witness:
  "\<exists>d g. answer_to py_env0 [1] 0 d g \<and> f_type g = HELLO_ACK"
proof -
  obtain p where p: "encode_hello rand0 [97] None = Inr p" "length p \<le> MAX_PAYLOAD"
    "\<exists>x. decode_hello py_env0 p = Inr x" by (rule hello_payload0)
  then obtain x where x: "decode_hello py_env0 p = Inr x" by blast
  obtain d s1 g where h: "uc_await py_env0 [1] 0 [d] = (Some (Inr g), [])" "f_type g = HELLO_ACK"
    by (rule hello_once [OF us0(1,2) zeros_ok us0(3,4) x p(2), where addr = 7]) (simp add: py_env0_def)
  let ?uc = "(new_udp_client [1] [97] 2)\<lparr>uc_attached := True, uc_queue := [d]\<rparr>"
  have f: "frame_ok (attempt_frame HELLO 0 p 0)"
    by (rule attempt_frame_ok [OF p(2)]) (simp_all add: MAX_SEQ_def)
  have "\<exists>uc'. uc_request py_env0 (\<lambda>raw w. ([], w)) HELLO p ?uc () = (Inr g, uc', ())"
    using h(1) encode_wire [OF f, of "[1]"]
    by (simp add: uc_request_def uc_next_seq_def new_udp_client_def numeral_3_eq_3 Let_def del: uc_await.simps)
  then obtain uc' where "uc_request py_env0 (\<lambda>raw w. ([], w)) HELLO p ?uc () = (Inr g, uc', ())" by blast
  from reply_belongs_to_request [OF this, of "\<lambda>_. True"] h(2) show ?thesis
    by (auto simp: yields_def list_all_iff new_udp_client_def)
qed

lemma attempt_frame_record:
  "\<lparr>f_type = t, f_seq = seq, f_payload = p, f_flags = (if i = 0 then 1 else 3)\<rparr> = attempt_frame t seq p i"
  by (simp add: attempt_frame_def mk_frame_def FLAG_REQUIRE_ACK_def FLAG_RETRANSMIT_def)

text \<open>
  C19. A request ends after at most \<^verbatim>\<open>max_retries + 1\<close> datagrams, for any network. Each is the encoding of
  a frame with the request's type and payload and the one number drawn for it; the first asks for
  an acknowledgement (flags 1), all others are also marked as retransmissions (flags 3). The
  retransmission counter counts them, and the number is never used again before the counter wraps.
\<close>

theorem request_sends_bounded:
  assumes "uc_attached uc" "length p \<le> MAX_PAYLOAD" "0 \<le> uc_out_seq uc" "uc_out_seq uc \<le> MAX_SEQ"
    and "uc_request env (logged net) t p uc (w, []) = (r, uc', (w', sent))"
  shows "\<exists>m \<le> nat (uc_max_retries uc + 1).
      list_all2 (\<lambda>i raw. encode \<lparr>f_type = t, f_seq = uc_out_seq uc, f_payload = p,
          f_flags = (if i = 0 then 1 else 3)\<rparr> (uc_secret uc) = Inr raw) [0..<m] sent
    \<and> uc_retransmits uc' = uc_retransmits uc + (m - 1) \<and> uc_out_seq uc' = (uc_out_seq uc + 1) mod 2 ^ 32"
proof -
  have "uc_attempts env (logged net) t (uc_out_seq uc) p 0 (nat (uc_max_retries uc + 1)) (snd (uc_next_seq uc)) (w, [])
      = (r, uc', (w', sent))"
    using assms(1,5) by (simp add: uc_request_def uc_next_seq_def)
  from uc_attempts_sends [OF assms(2-4) this] obtain m where m: "m \<le> nat (uc_max_retries uc + 1)"
    "sent = map (\<lambda>i. wire (uc_secret uc) (attempt_frame t (uc_out_seq uc) p i)) [0..<m]"
    "uc_out_seq uc' = (uc_out_seq uc + 1) mod 2 ^ 32"
    "uc_retransmits uc' + (if 0 < m then 1 else 0) = uc_retransmits uc + m"
    by (auto simp: uc_next_seq_def and_MAX_SEQ)
  from m(4) have "uc_retransmits uc' = uc_retransmits uc + (m - 1)" by (cases m) simp_all
  moreover have "encode \<lparr>f_type = t, f_seq = uc_out_seq uc, f_payload = p, f_flags = (if i = 0 then 1 else 3)\<rparr>
      (uc_secret uc) = Inr (wire (uc_secret uc) (attempt_frame t (uc_out_seq uc) p i))" for i
    using encode_wire [OF attempt_frame_ok [OF assms(2-4)]]
    by (simp add: attempt_frame_record)
  ultimately show ?thesis using m(1-3) by (auto simp: list_all2_conv_all_nth)
qed

theorem request_sends_bounded_witness:
  "\<exists>r uc' sent. uc_request py_env0 (logged (\<lambda>raw w. ([], w))) PING [] ((new_udp_client [1] [] 2)\<lparr>uc_attached := True\<rparr>) ((), [])
      = (r, uc', ((), sent)) \<and> length sent \<le> 3"
proof -
  let ?uc = "(new_udp_client [1] [] 2)\<lparr>uc_attached := True\<rparr>"
  obtain r uc' sent where r: "uc_request py_env0 (logged (\<lambda>raw w. ([], w))) PING [] ?uc ((), []) = (r, uc', ((), sent))"
    by (cases "uc_request py_env0 (logged (\<lambda>raw w. ([], w))) PING [] ?uc ((), [])") auto
  have "length sent \<le> 3"
    using request_sends_bounded [OF _ _ _ _ r]
    by (auto simp: new_udp_client_def MAX_SEQ_def dest!: list_all2_lengthD)
  with r show ?thesis by blast
qed

text \<open>
  C20. A datagram of length zero, which UDP allows and which needs no key, makes the request that
  reads it raise IndexError: splitting it yields no frame, the first frame is looked at
  unconditionally, and only ProtocolError is caught.
\<close>

theorem empty_datagram_escapes:
  assumes "uc_attached uc" "0 \<le> uc_max_retries uc" "frame_ok (attempt_frame t (uc_out_seq uc) p 0)"
    and "uc_queue uc @ fst (net (wire (uc_secret uc) (attempt_frame t (uc_out_seq uc) p 0)) w) = [] # ds"
  shows "fst (uc_request env net t p uc w) = Inl IndexError"
proof -
  let ?f = "attempt_frame t (uc_out_seq uc) p 0"
  obtain arr w' where net: "net (wire (uc_secret uc) ?f) w = (arr, w')" by (cases "net (wire (uc_secret uc) ?f) w")
  have "split_datagram [] (uc_secret uc) = Inr []" by (simp add: split_datagram_iff)
  then have aw: "uc_await env (uc_secret uc) (uc_out_seq uc) ([] # ds) = (Some (Inl IndexError), ds)"
    by (simp add: answers_seq_def)
  obtain n where "nat (uc_max_retries uc + 1) = Suc n" using assms(2) by (cases "nat (uc_max_retries uc + 1)") auto
  with assms(1,4) net aw encode_wire [OF assms(3), of "uc_secret uc"] show ?thesis
    by (simp add: uc_request_def uc_next_seq_def Let_def del: uc_await.simps)
qed

theorem empty_datagram_escapes_witness:
  "fst (uc_request py_env0 (\<lambda>raw w. ([[]], w)) PING [] ((new_udp_client [1] [] 2)\<lparr>uc_attached := True\<rparr>) ()) = Inl IndexError"
  by (rule empty_datagram_escapes [where ds = "[]"])
    (simp_all add: new_udp_client_def attempt_frame_ok MAX_SEQ_def)

end
