(* ===== verification/Pcap.thy ===== *)
theory Pcap
  imports Complex_Main "HOL-Library.Sublist" Pytext
begin

text \<open>
  \<^verbatim>\<open>src/wireline/sniff/pcap.py\<close>: reading and writing capture files. A file is its bytes. A
  timestamp is an exact rational; Python's float differs from it by less than half a microsecond.
  The reader is a generator: its model is the packets yielded and the exception that ended it.
\<close>

section \<open>Constants and packets\<close>

definition MAGIC_LE :: nat where "MAGIC_LE = 0xA1B2C3D4"
definition MAGIC_BE :: nat where "MAGIC_BE = 0xD4C3B2A1"
definition FILE_HEADER_SIZE :: nat where "FILE_HEADER_SIZE = 24"
definition RECORD_HEADER_SIZE :: nat where "RECORD_HEADER_SIZE = 16"
definition LINKTYPE_ETHERNET :: nat where "LINKTYPE_ETHERNET = 1"
definition LINKTYPE_RAW_IP :: nat where "LINKTYPE_RAW_IP = 101"
definition LINKTYPE_LOOPBACK :: nat where "LINKTYPE_LOOPBACK = 0"

record packet =
  pk_timestamp :: rat
  pk_data :: bytes
  pk_original_length :: nat

section \<open>Reading\<close>

text \<open>The loop over the records; \<open>get\<close> reads an integer in the byte order of the file.\<close>

function read_records :: "(bytes \<Rightarrow> nat) \<Rightarrow> nat \<Rightarrow> bytes \<Rightarrow> nat \<Rightarrow> (nat \<times> packet) list \<times> exn option" where
  "read_records get linktype raw offset =
     (if \<not> offset < length raw then ([], None)
      else if offset + RECORD_HEADER_SIZE > length raw then
        ([], Some (PcapError (ascii ''truncated record header at offset '' @ dec_nat offset)))
      else
        let hdr = pyslice offset (offset + RECORD_HEADER_SIZE) raw;
            ts_sec = get (pyslice 0 4 hdr); ts_usec = get (pyslice 4 8 hdr);
            incl_len = get (pyslice 8 12 hdr); orig_len = get (pyslice 12 16 hdr);
            start = offset + RECORD_HEADER_SIZE
        in if start + incl_len > length raw then
             ([], Some (PcapError (ascii ''truncated packet data at offset '' @ dec_nat start)))
           else
             (case read_records get linktype raw (start + incl_len) of (ps, x) \<Rightarrow>
                ((linktype, \<lparr>pk_timestamp = of_nat ts_sec + of_nat ts_usec / 1000000,
                    pk_data = pyslice start (start + incl_len) raw, pk_original_length = orig_len\<rparr>) # ps, x)))"
  by pat_completeness auto
termination
  by (relation "measure (\<lambda>(get, linktype, raw, offset). length raw - offset)")
    (auto simp: RECORD_HEADER_SIZE_def)

declare read_records.simps [simp del]

definition read_packets :: "bytes \<Rightarrow> (nat \<times> packet) list \<times> exn option" where
  "read_packets raw =
     (if length raw < FILE_HEADER_SIZE then
        ([], Some (PcapError (ascii ''file is '' @ dec_nat (length raw)
           @ ascii '' bytes, shorter than a pcap header'')))
      else
        let magic = le_nat (take 4 raw)
        in if magic = MAGIC_LE then read_records le_nat (le_nat (pyslice 20 24 raw)) raw FILE_HEADER_SIZE
           else if magic = MAGIC_BE then read_records be_nat (be_nat (pyslice 20 24 raw)) raw FILE_HEADER_SIZE
           else ([], Some (PcapError (ascii ''unknown pcap magic '' @ hex_crc (int magic)))))"

section \<open>Writing\<close>

text \<open>\<^verbatim>\<open>int\<close> of a float truncates, \<^verbatim>\<open>round\<close> rounds half to even.\<close>

definition py_trunc :: "rat \<Rightarrow> int" where
  "py_trunc x = (if x < 0 then \<lceil>x\<rceil> else \<lfloor>x\<rfloor>)"

definition py_round :: "rat \<Rightarrow> int" where
  "py_round x =
     (let f = \<lfloor>x\<rfloor>; d = x - of_int f
      in if d < 1 / 2 \<or> d = 1 / 2 \<and> even f then f else f + 1)"

definition pack_le32s :: "int list \<Rightarrow> bytes res" where
  "pack_le32s vs = foldr (\<lambda>v r. rbind (pack_uint le_bytes 4 v) (\<lambda>b. rbind r (\<lambda>bs. Inr (b @ bs)))) vs (Inr [])"

fun write_records :: "(rat \<times> bytes) list \<Rightarrow> bytes res" where
  "write_records [] = Inr []"
| "write_records ((timestamp, data) # ps) =
     (let sec = py_trunc timestamp;
          usec = py_round ((timestamp - of_int sec) * 1000000)
      in rbind (pack_le32s [sec, usec, int (length data), int (length data)]) (\<lambda>hdr.
         rbind (write_records ps) (\<lambda>rest. Inr (hdr @ data @ rest))))"

definition write_packets :: "(rat \<times> bytes) list \<Rightarrow> int \<Rightarrow> int \<Rightarrow> bytes res" where
  "write_packets packets linktype snaplen =
     rbind (pack_le32s [0, 0, snaplen, linktype]) (\<lambda>hdr.
       rbind (write_records packets) (\<lambda>rest.
         Inr (le_bytes 4 MAGIC_LE @ le_bytes 2 2 @ le_bytes 2 4 @ hdr @ rest)))"

section \<open>Captures as images of records\<close>

text \<open>A record: seconds, microseconds, original length and the captured bytes.\<close>

type_synonym pcap_record = "nat \<times> nat \<times> nat \<times> bytes"

definition record_bytes :: "(nat \<Rightarrow> nat \<Rightarrow> bytes) \<Rightarrow> pcap_record \<Rightarrow> bytes" where
  "record_bytes put r = (case r of (sec, usec, orig, data) \<Rightarrow>
     put 4 sec @ put 4 usec @ put 4 (length data) @ put 4 orig @ data)"

definition record_ok :: "pcap_record \<Rightarrow> bool" where
  "record_ok r = (case r of (sec, usec, orig, data) \<Rightarrow>
     sec < 256 ^ 4 \<and> usec < 256 ^ 4 \<and> orig < 256 ^ 4 \<and> length data < 256 ^ 4)"

definition packet_of :: "nat \<Rightarrow> pcap_record \<Rightarrow> nat \<times> packet" where
  "packet_of linktype r = (case r of (sec, usec, orig, data) \<Rightarrow>
     (linktype, \<lparr>pk_timestamp = of_nat sec + of_nat usec / 1000000, pk_data = data, pk_original_length = orig\<rparr>))"

definition capture :: "(nat \<Rightarrow> nat \<Rightarrow> bytes) \<Rightarrow> bytes \<Rightarrow> nat \<Rightarrow> pcap_record list \<Rightarrow> bytes" where
  "capture put middle linktype rs =
     put 4 MAGIC_LE @ middle @ put 4 linktype @ concat (map (record_bytes put) rs)"

context int_layout
begin

lemma read_records_Nil: "read_records get lt pre (length pre) = ([], None)"
  by (subst read_records.simps) simp

lemma read_records_step:
  assumes "record_ok r"
  shows "read_records get lt (pre @ record_bytes put r @ rest) (length pre) =
    (case read_records get lt (pre @ record_bytes put r @ rest) (length pre + length (record_bytes put r)) of
       (ps, x) \<Rightarrow> (packet_of lt r # ps, x))"
proof -
  obtain sec usec orig data where r: "r = (sec, usec, orig, data)" by (cases r)
  have ok: "sec < 256 ^ 4" "usec < 256 ^ 4" "orig < 256 ^ 4" "length data < 256 ^ 4"
    using assms by (simp_all add: record_ok_def r)
  let ?raw = "pre @ record_bytes put r @ rest"
  have hdr: "pyslice (length pre) (length pre + 16) ?raw = put 4 sec @ put 4 usec @ put 4 (length data) @ put 4 orig"
    by (simp add: pyslice_append_skip record_bytes_def r pyslice_def length_put)
  have data: "pyslice (length pre + 16) (length pre + 16 + length data) ?raw = data"
    by (simp add: pyslice_append_skip record_bytes_def r pyslice_def length_put)
  have len: "length (record_bytes put r) = 16 + length data" by (simp add: record_bytes_def r length_put)
  have fields: "get (pyslice 0 4 (put 4 sec @ put 4 usec @ put 4 (length data) @ put 4 orig)) = sec"
    "get (pyslice 4 8 (put 4 sec @ put 4 usec @ put 4 (length data) @ put 4 orig)) = usec"
    "get (pyslice 8 12 (put 4 sec @ put 4 usec @ put 4 (length data) @ put 4 orig)) = length data"
    "get (pyslice 12 16 (put 4 sec @ put 4 usec @ put 4 (length data) @ put 4 orig)) = orig"
    using ok by (simp_all add: pyslice_def length_put get_put)
  have pk: "packet_of lt r = (lt, \<lparr>pk_timestamp = of_nat sec + of_nat usec / 1000000, pk_data = data,
      pk_original_length = orig\<rparr>)" by (simp add: packet_of_def r)
  show ?thesis
    by (subst read_records.simps)
      (simp add: RECORD_HEADER_SIZE_def hdr fields data len pk Let_def add.assoc [symmetric])
qed

lemma read_records_image:
  "list_all record_ok rs \<Longrightarrow>
     read_records get lt (pre @ concat (map (record_bytes put) rs)) (length pre) = (map (packet_of lt) rs, None)"
proof (induction rs arbitrary: pre)
  case Nil
  then show ?case by (simp add: read_records_Nil)
next
  case (Cons r rs)
  with Cons.IH [of "pre @ record_bytes put r"] show ?case
    by (simp add: read_records_step)
qed

lemma put_get_slice: "i + 4 \<le> length bs \<Longrightarrow> put 4 (get (pyslice i (i + 4) bs)) = pyslice i (i + 4) bs"
  using put_get [of "pyslice i (i + 4) bs"] by (simp add: length_pyslice)

lemma get_slice_bound: "i + 4 \<le> length bs \<Longrightarrow> get (pyslice i (i + 4) bs) < 256 ^ 4"
  using get_bound [of "pyslice i (i + 4) bs"] by (simp add: length_pyslice)

text \<open>A complete record at an offset is the image of what is read from it.\<close>

lemma record_at:
  assumes "hdr = pyslice offset (offset + 16) raw" "n = get (pyslice 8 12 hdr)" "offset + 16 + n \<le> length raw"
    "r = (get (pyslice 0 4 hdr), get (pyslice 4 8 hdr), get (pyslice 12 16 hdr), pyslice (offset + 16) (offset + 16 + n) raw)"
  shows "record_ok r" "drop offset raw = record_bytes put r @ drop (offset + 16 + n) raw"
proof -
  have len: "length hdr = 16" using assms(1,3) by (simp add: length_pyslice)
  note put = put_get_slice [of 0 hdr] put_get_slice [of 4 hdr] put_get_slice [of 8 hdr] put_get_slice [of 12 hdr]
  note bound = get_slice_bound [of 0 hdr] get_slice_bound [of 4 hdr] get_slice_bound [of 8 hdr] get_slice_bound [of 12 hdr]
  have data: "length (pyslice (offset + 16) (offset + 16 + n) raw) = n" using assms(3) by (simp add: length_pyslice)
  show "record_ok r" using bound len data assms(2) by (simp add: record_ok_def assms(4))
  have "hdr = pyslice 0 4 hdr @ pyslice 4 8 hdr @ pyslice 8 12 hdr @ pyslice 12 16 hdr"
    using len by (simp add: pyslice_join pyslice_all)
  then have "record_bytes put r = hdr @ pyslice (offset + 16) (offset + 16 + n) raw"
    using put len data assms(2) by (simp add: record_bytes_def assms(4))
  then show "drop offset raw = record_bytes put r @ drop (offset + 16 + n) raw"
    using assms(1,3) take_pyslice_drop [of "offset + 16" "offset + 16 + n" raw] take_pyslice [of offset "offset + 16" raw]
      append_take_drop_id [of offset raw]
    by (metis append_assoc le_add1 same_append_eq)
qed

lemma read_records_sound:
  "read_records get lt raw offset = (ps, None) \<Longrightarrow> offset \<le> length raw \<Longrightarrow>
     \<exists>rs. list_all record_ok rs \<and> drop offset raw = concat (map (record_bytes put) rs) \<and> ps = map (packet_of lt) rs"
proof (induction "length raw - offset" arbitrary: offset ps rule: less_induct)
  case less
  show ?case
  proof (cases "offset < length raw")
    case False
    with less.prems show ?thesis
      by (intro exI [of _ "[]"]) (simp add: read_records.simps [of get lt raw offset])
  next
    case True
    define hdr n where "hdr = pyslice offset (offset + 16) raw" and "n = get (pyslice 8 12 hdr)"
    define r where "r = (get (pyslice 0 4 hdr), get (pyslice 4 8 hdr), get (pyslice 12 16 hdr),
      pyslice (offset + 16) (offset + 16 + n) raw)"
    obtain qs x where rest: "read_records get lt raw (offset + 16 + n) = (qs, x)"
      by (cases "read_records get lt raw (offset + 16 + n)")
    have fits: "offset + 16 + n \<le> length raw" and ps: "x = None" "ps = packet_of lt r # qs"
      using less.prems(1) True rest
      by (auto simp: read_records.simps [of get lt raw offset] RECORD_HEADER_SIZE_def Let_def
          hdr_def [symmetric] n_def [symmetric] packet_of_def r_def split: if_split_asm)
    note at = record_at [OF hdr_def n_def fits r_def]
    have dec: "length raw - (offset + 16 + n) < length raw - offset" using fits by linarith
    obtain rs where "list_all record_ok rs" "drop (offset + 16 + n) raw = concat (map (record_bytes put) rs)"
      "qs = map (packet_of lt) rs"
      using less.hyps [OF dec] rest ps(1) fits by auto
    with at ps(2) show ?thesis by (intro exI [of _ "r # rs"]) simp
  qed
qed

end

lemma read_records_error: "read_records get lt raw offset = (ps, Some e) \<Longrightarrow> \<exists>t. e = PcapError t"
proof (induction get lt raw offset arbitrary: ps rule: read_records.induct)
  case (1 get lt raw offset)
  show ?case
    using "1.prems" by (subst (asm) read_records.simps) (auto simp: Let_def dest: "1.IH" [rotated -1] split: if_split_asm prod.split_asm)
qed

text \<open>On a prefix of a file that reads without an error, a prefix of its packets is read.\<close>

lemma read_records_prefix:
  "read_records get lt (raw @ rest) offset = (ps, None) \<Longrightarrow> read_records get lt raw offset = (qs, x) \<Longrightarrow> prefix qs ps"
proof (induction "length raw - offset" arbitrary: offset ps qs x rule: less_induct)
  case less
  show ?case
  proof (cases "offset + 16 \<le> length raw")
    case False
    then have "qs = []"
      using less.prems(2) by (subst (asm) read_records.simps) (auto simp: RECORD_HEADER_SIZE_def split: if_split_asm)
    then show ?thesis by simp
  next
    case True
    define hdr n where "hdr = pyslice offset (offset + 16) raw" and "n = get (pyslice 8 12 hdr)"
    have hdr: "pyslice offset (offset + 16) (raw @ rest) = hdr" using True by (simp add: hdr_def pyslice_append)
    show ?thesis
    proof (cases "offset + 16 + n \<le> length raw")
      case False
      then have "qs = []"
        using less.prems(2) by (subst (asm) read_records.simps)
          (auto simp: RECORD_HEADER_SIZE_def Let_def hdr_def [symmetric] n_def [symmetric] split: if_split_asm)
      then show ?thesis by simp
    next
      case fits: True
      have data: "pyslice (offset + 16) (offset + 16 + n) (raw @ rest) = pyslice (offset + 16) (offset + 16 + n) raw"
        using fits by (simp add: pyslice_append)
      obtain ps' y qs' z where r: "read_records get lt (raw @ rest) (offset + 16 + n) = (ps', y)"
        "read_records get lt raw (offset + 16 + n) = (qs', z)" by (metis prod.exhaust)
      let ?p = "(lt, \<lparr>pk_timestamp = of_nat (get (pyslice 0 4 hdr)) + of_nat (get (pyslice 4 8 hdr)) / 1000000,
        pk_data = pyslice (offset + 16) (offset + 16 + n) raw, pk_original_length = get (pyslice 12 16 hdr)\<rparr>)"
      have "ps = ?p # ps'" "y = None" "qs = ?p # qs'"
        using less.prems True fits r
        by (simp_all add: read_records.simps [of get lt _ offset] RECORD_HEADER_SIZE_def Let_def hdr data
            hdr_def [symmetric] n_def [symmetric])
      moreover have "length raw - (offset + 16 + n) < length raw - offset" using True by linarith
      ultimately show ?thesis using less.hyps [of "offset + 16 + n" ps' qs'] r by simp
    qed
  qed
qed

section \<open>The file header\<close>

lemma magic_bytes: "le_bytes 4 MAGIC_BE = be_bytes 4 MAGIC_LE"
proof -
  have four: "(4 :: nat) = Suc (Suc (Suc (Suc 0)))" by simp
  show ?thesis unfolding four be_bytes_def by (simp add: MAGIC_BE_def MAGIC_LE_def)
qed

lemma magic_small: "MAGIC_LE < 256 ^ 4" "MAGIC_BE < 256 ^ 4" "MAGIC_LE \<noteq> MAGIC_BE"
  by (simp_all add: MAGIC_BE_def MAGIC_LE_def)

lemma length_capture: "length (capture put middle lt rs) \<ge> 4 + length middle + 4" if "\<And>n. length (put 4 n) = 4"
  by (simp add: capture_def that)

lemma capture_slices:
  assumes "length middle = 16" "\<And>n. length (put 4 n) = (4 :: nat)"
  shows "take 4 (capture put middle lt rs) = put 4 MAGIC_LE" "pyslice 20 24 (capture put middle lt rs) = put 4 lt"
    "capture put middle lt rs = (put 4 MAGIC_LE @ middle @ put 4 lt) @ concat (map (record_bytes put) rs)"
    "length (put 4 MAGIC_LE @ middle @ put 4 lt) = 24"
  using assms by (simp_all add: capture_def pyslice_def)

lemma read_capture:
  assumes "length middle = 16" "lt < 256 ^ 4" "list_all record_ok rs"
  shows "read_packets (capture le_bytes middle lt rs) = (map (packet_of lt) rs, None)"
    "read_packets (capture be_bytes middle lt rs) = (map (packet_of lt) rs, None)"
proof -
  note l = capture_slices [where put = le_bytes, OF assms(1) le.length_put]
  note b = capture_slices [where put = be_bytes, OF assms(1) be.length_put]
  have "le_nat (le_bytes 4 MAGIC_LE) = MAGIC_LE" by (rule le.get_put [OF magic_small(1)])
  then show "read_packets (capture le_bytes middle lt rs) = (map (packet_of lt) rs, None)"
    using le.read_records_image [OF assms(3), of lt "le_bytes 4 MAGIC_LE @ middle @ le_bytes 4 lt"]
      le.get_put [OF assms(2)] length_capture [of le_bytes middle lt rs, OF le.length_put] assms(1)
    unfolding l(4) l(3) [symmetric]
    by (simp add: read_packets_def l(1,2) FILE_HEADER_SIZE_def Let_def)
  have "le_nat (be_bytes 4 MAGIC_LE) = MAGIC_BE"
    unfolding magic_bytes [symmetric] by (rule le.get_put [OF magic_small(2)])
  then show "read_packets (capture be_bytes middle lt rs) = (map (packet_of lt) rs, None)"
    using be.read_records_image [OF assms(3), of lt "be_bytes 4 MAGIC_LE @ middle @ be_bytes 4 lt"]
      be.get_put [OF assms(2)] length_capture [of be_bytes middle lt rs, OF be.length_put] assms(1) magic_small(3)
    unfolding b(4) b(3) [symmetric]
    by (simp add: read_packets_def b(1,2) FILE_HEADER_SIZE_def Let_def)
qed

lemma capture_of_read:
  assumes "take 4 raw = put 4 MAGIC_LE" "put 4 lt = pyslice 20 24 raw" "drop 24 raw = concat (map (record_bytes put) rs)"
  shows "raw = capture put (pyslice 4 20 raw) lt rs"
proof -
  have "take 4 raw @ pyslice 4 24 raw @ drop 24 raw = raw" by (rule take_pyslice_drop) simp
  moreover have "pyslice 4 24 raw = pyslice 4 20 raw @ pyslice 20 24 raw" by (rule pyslice_join [symmetric]) simp_all
  ultimately show ?thesis unfolding capture_def assms(1) [symmetric] assms(2,3) [symmetric]
    by (simp add: assms(2))
qed

lemma read_packets_iff:
  "read_packets raw = (ps, None) \<longleftrightarrow>
     (\<exists>middle lt rs. (raw = capture le_bytes middle lt rs \<or> raw = capture be_bytes middle lt rs)
        \<and> length middle = 16 \<and> lt < 256 ^ 4 \<and> list_all record_ok rs \<and> ps = map (packet_of lt) rs)"
proof
  assume r: "read_packets raw = (ps, None)"
  then have len: "24 \<le> length raw" by (auto simp: read_packets_def FILE_HEADER_SIZE_def split: if_split_asm)
  have t4: "length (take 4 raw) = 4" "length (pyslice 20 24 raw) = 4" using len by (simp_all add: length_pyslice)
  have mid: "length (pyslice 4 20 raw) = 16" using len by (simp add: length_pyslice)
  consider "le_nat (take 4 raw) = MAGIC_LE"
      "read_records le_nat (le_nat (pyslice 20 24 raw)) raw 24 = (ps, None)"
    | "le_nat (take 4 raw) = MAGIC_BE"
      "read_records be_nat (be_nat (pyslice 20 24 raw)) raw 24 = (ps, None)"
    using r len by (auto simp: read_packets_def FILE_HEADER_SIZE_def Let_def split: if_split_asm)
  then show "\<exists>middle lt rs. (raw = capture le_bytes middle lt rs \<or> raw = capture be_bytes middle lt rs)
        \<and> length middle = 16 \<and> lt < 256 ^ 4 \<and> list_all record_ok rs \<and> ps = map (packet_of lt) rs"
  proof cases
    case 1
    from le.read_records_sound [OF 1(2) len] obtain rs where rs: "list_all record_ok rs"
      "drop 24 raw = concat (map (record_bytes le_bytes) rs)" "ps = map (packet_of (le_nat (pyslice 20 24 raw))) rs"
      by blast
    have "take 4 raw = le_bytes 4 MAGIC_LE" using le.get_eq_iff [OF t4(1), of MAGIC_LE] 1(1) by blast
    from capture_of_read [OF this _ rs(2)] rs(1,3) mid le.put_get [of "pyslice 20 24 raw"]
      le.get_bound [of "pyslice 20 24 raw"] t4(2) show ?thesis by fastforce
  next
    case 2
    from be.read_records_sound [OF 2(2) len] obtain rs where rs: "list_all record_ok rs"
      "drop 24 raw = concat (map (record_bytes be_bytes) rs)" "ps = map (packet_of (be_nat (pyslice 20 24 raw))) rs"
      by blast
    have "take 4 raw = be_bytes 4 MAGIC_LE"
      using le.get_eq_iff [OF t4(1), of MAGIC_BE] 2(1) unfolding magic_bytes [symmetric] by blast
    from capture_of_read [OF this _ rs(2)] rs(1,3) mid be.put_get [of "pyslice 20 24 raw"]
      be.get_bound [of "pyslice 20 24 raw"] t4(2) show ?thesis by fastforce
  qed
next
  assume "\<exists>middle lt rs. (raw = capture le_bytes middle lt rs \<or> raw = capture be_bytes middle lt rs)
        \<and> length middle = 16 \<and> lt < 256 ^ 4 \<and> list_all record_ok rs \<and> ps = map (packet_of lt) rs"
  then show "read_packets raw = (ps, None)" using read_capture by blast
qed

section \<open>What is written\<close>

lemma pack_le32s_simps:
  "pack_le32s [] = Inr []"
  "pack_le32s (v # vs) = rbind (pack_uint le_bytes 4 v) (\<lambda>b. rbind (pack_le32s vs) (\<lambda>bs. Inr (b @ bs)))"
  by (simp_all add: pack_le32s_def)

lemma pack_uint_Inr: "pack_uint put w v = Inr b \<longleftrightarrow> 0 \<le> v \<and> nat v < 256 ^ w \<and> b = put w (nat v)"
  by (auto simp: pack_uint_def nat_less_iff)

text \<open>The time written for a timestamp, and the record.\<close>

definition stamp_usec :: "rat \<Rightarrow> int" where
  "stamp_usec ts = py_round ((ts - of_int (py_trunc ts)) * 1000000)"

definition record_of :: "rat \<times> bytes \<Rightarrow> pcap_record" where
  "record_of p = (nat (py_trunc (fst p)), nat (stamp_usec (fst p)), length (snd p), snd p)"

definition stamp :: "rat \<Rightarrow> rat" where
  "stamp ts = of_int (py_trunc ts) + of_int (stamp_usec ts) / 1000000"

lemma write_records_ok:
  "write_records ps = Inr b \<Longrightarrow> list_all record_ok (map record_of ps)
     \<and> b = concat (map (record_bytes le_bytes) (map record_of ps))
     \<and> map (packet_of lt) (map record_of ps) =
       map (\<lambda>(ts, d). (lt, \<lparr>pk_timestamp = stamp ts, pk_data = d, pk_original_length = length d\<rparr>)) ps"
proof (induction ps arbitrary: b)
  case (Cons p ps)
  obtain ts d where p: "p = (ts, d)" by (cases p)
  from Cons.prems obtain b' where b': "write_records ps = Inr b'"
    and f: "0 \<le> py_trunc ts" "nat (py_trunc ts) < 256 ^ 4" "0 \<le> stamp_usec ts" "nat (stamp_usec ts) < 256 ^ 4"
      "length d < 256 ^ 4"
    and b: "b = record_bytes le_bytes (record_of p) @ b'"
    by (auto simp: p Let_def rbind_eq_Inr_iff pack_le32s_simps pack_uint_Inr stamp_usec_def record_of_def record_bytes_def)
  have "packet_of lt (record_of p) = (lt, \<lparr>pk_timestamp = stamp ts, pk_data = d, pk_original_length = length d\<rparr>)"
    using f by (simp add: packet_of_def record_of_def p stamp_def)
  with Cons.IH [OF b'] f b show ?case by (simp add: p record_ok_def record_of_def)
qed simp

lemma py_round_near: "\<bar>of_int (py_round x) - x\<bar> \<le> 1 / 2"
proof -
  have "of_int \<lfloor>x\<rfloor> \<le> x" "x < of_int \<lfloor>x\<rfloor> + 1" by linarith+
  then show ?thesis by (auto simp: py_round_def Let_def abs_le_iff)
qed

lemma stamp_near: "\<bar>stamp ts - ts\<bar> \<le> 1 / 2000000"
  using py_round_near [of "(ts - of_int (py_trunc ts)) * 1000000"]
  by (simp add: stamp_def stamp_usec_def abs_le_iff field_simps)

section \<open>Parts of a file\<close>

lemma read_packets_error: "read_packets raw = (ps, Some e) \<Longrightarrow> \<exists>t. e = PcapError t"
  by (auto simp: read_packets_def Let_def dest: read_records_error split: if_split_asm)

text \<open>The length of a file that reads without an error.\<close>

lemma read_packets_length:
  assumes "read_packets raw = (ps, None)"
  shows "length raw = 24 + sum_list (map (\<lambda>(_, p). 16 + length (pk_data p)) ps)"
proof -
  from assms [unfolded read_packets_iff] obtain middle lt rs where
    c: "raw = capture le_bytes middle lt rs \<or> raw = capture be_bytes middle lt rs" "length middle = 16"
      "ps = map (packet_of lt) rs" by blast
  have "length (concat (map (record_bytes put) rs)) = sum_list (map (\<lambda>(_, p). 16 + length (pk_data p)) ps)"
    if "\<And>n. length (put 4 n) = (4 :: nat)" for put
    unfolding c(3) by (induction rs) (auto simp: record_bytes_def packet_of_def that split: prod.split)
  from this [of le_bytes] this [of be_bytes] c(1,2) show ?thesis
    by (auto simp: capture_def)
qed

lemma read_packets_prefix:
  assumes "read_packets (raw @ rest) = (ps, None)" "read_packets raw = (qs, x)"
  shows "prefix qs ps"
proof (cases "24 \<le> length raw")
  case False
  with assms(2) show ?thesis by (auto simp: read_packets_def FILE_HEADER_SIZE_def)
next
  case True
  then have "take 4 (raw @ rest) = take 4 raw" "pyslice 20 24 (raw @ rest) = pyslice 20 24 raw"
    by (simp_all add: pyslice_append)
  with assms True show ?thesis
    by (auto simp: read_packets_def FILE_HEADER_SIZE_def Let_def split: if_split_asm
        intro: read_records_prefix [where x = x and qs = qs and ps = ps])
qed

lemma write_read:
  assumes "write_packets packets linktype snaplen = Inr raw"
  shows "read_packets raw = (map (\<lambda>(ts, d). (nat linktype,
      \<lparr>pk_timestamp = stamp ts, pk_data = d, pk_original_length = length d\<rparr>)) packets, None)"
proof -
  from assms obtain b where b: "write_records packets = Inr b"
    "0 \<le> snaplen" "nat snaplen < 256 ^ 4" "0 \<le> linktype" "nat linktype < 256 ^ 4"
    "raw = le_bytes 4 MAGIC_LE @ le_bytes 2 2 @ le_bytes 2 4 @ le_bytes 4 0 @ le_bytes 4 0
       @ le_bytes 4 (nat snaplen) @ le_bytes 4 (nat linktype) @ b"
    by (auto simp: write_packets_def rbind_eq_Inr_iff pack_le32s_simps pack_uint_Inr)
  note w = write_records_ok [OF b(1), of "nat linktype"]
  have "raw = capture le_bytes (le_bytes 2 2 @ le_bytes 2 4 @ le_bytes 4 0 @ le_bytes 4 0 @ le_bytes 4 (nat snaplen))
      (nat linktype) (map record_of packets)"
    using w by (simp add: capture_def b(6))
  with read_capture(1) [of _ "nat linktype" "map record_of packets"] w b(5)
  show ?thesis by simp
qed

section \<open>Properties\<close>

text \<open>
  C33. A capture that was written reads back: the same packets in the same order with the same
  bytes, the given link type, and every timestamp within half a microsecond of the one given.
\<close>

theorem capture_roundtrip:
  assumes "write_packets packets linktype snaplen = Inr raw"
  shows "\<exists>times. read_packets raw = (map2 (\<lambda>t (_, d). (nat linktype,
        \<lparr>pk_timestamp = t, pk_data = d, pk_original_length = length d\<rparr>)) times packets, None)
    \<and> list_all2 (\<lambda>t (ts, _). \<bar>t - ts\<bar> \<le> 1 / 2000000) times packets"
proof -
  note read = write_read [OF assms]
  have same: "map (\<lambda>(ts, d). (nat linktype, \<lparr>pk_timestamp = stamp ts, pk_data = d, pk_original_length = length d\<rparr>)) packets
      = map2 (\<lambda>t (_, d). (nat linktype, \<lparr>pk_timestamp = t, pk_data = d, pk_original_length = length d\<rparr>))
          (map (stamp \<circ> fst) packets) packets"
    by (induction packets) auto
  have "list_all2 (\<lambda>t (ts, _). \<bar>t - ts\<bar> \<le> 1 / 2000000) (map (stamp \<circ> fst) packets) packets"
    unfolding list_all2_map1 by (rule list.rel_refl) (simp only: stamp_near split_beta comp_def)
  with read show ?thesis unfolding same by (intro exI [of _ "map (stamp \<circ> fst) packets"] conjI)
qed

theorem capture_roundtrip_witness:
  "\<exists>raw ps. write_packets [(1, [1, 2]), (2, [])] 1 65535 = Inr raw \<and> read_packets raw = (ps, None) \<and> length ps = 2"
proof -
  have "\<exists>raw. write_packets [(1, [1, 2]), (2, [])] 1 65535 = Inr raw"
    by (simp add: write_packets_def pack_le32s_simps pack_uint_def py_trunc_def py_round_def Let_def)
  then obtain raw where w: "write_packets [(1, [1, 2]), (2, [])] 1 65535 = Inr raw" by blast
  from capture_roundtrip [OF w] obtain times where
    "read_packets raw = (map2 (\<lambda>t (_, d). (nat 1, \<lparr>pk_timestamp = t, pk_data = d, pk_original_length = length d\<rparr>))
        times [(1 :: rat, [1, 2]), (2, [])], None)"
    "list_all2 (\<lambda>t (ts, _). \<bar>t - ts\<bar> \<le> 1 / 2000000) times [(1, [1, 2]), (2, [] :: bytes)]" by blast
  with w show ?thesis by (auto dest: list_all2_lengthD)
qed

text \<open>
  C32. The files that read without an error are exactly the well-formed captures of either byte
  order: the magic number and sixteen bytes the reader does not look at, the link type, and
  complete records; what is yielded are those records.
\<close>

theorem reads_exactly_captures:
  "read_packets raw = (ps, None) \<longleftrightarrow>
     (\<exists>middle lt rs. (raw = capture le_bytes middle lt rs \<or> raw = capture be_bytes middle lt rs)
        \<and> length middle = 16 \<and> lt < 256 ^ 4 \<and> list_all record_ok rs \<and> ps = map (packet_of lt) rs)"
  by (rule read_packets_iff)

text \<open>
  A capture that ends early, anywhere: the reader yields a prefix of the packets of the whole
  file and then raises PcapError, or it ends without an error, which after a real cut means that
  packets are missing. PcapError is the only exception it ever raises.
\<close>

theorem truncated_capture:
  assumes "read_packets (raw @ rest) = (ps, None)" "rest \<noteq> []"
  shows "\<exists>qs x. read_packets raw = (qs, x) \<and> prefix qs ps
    \<and> ((\<exists>t. x = Some (PcapError t)) \<or> x = None \<and> length qs < length ps)"
proof -
  obtain qs x where r: "read_packets raw = (qs, x)" by (cases "read_packets raw")
  note pre = read_packets_prefix [OF assms(1) r]
  show ?thesis
  proof (cases x)
    case None
    with read_packets_length [of raw qs] read_packets_length [OF assms(1)] r assms(2)
    have "qs \<noteq> ps" by auto
    with pre have "length qs < length ps" by (intro prefix_length_less) (simp add: strict_prefix_def)
    with r pre None show ?thesis by blast
  next
    case (Some e)
    with r read_packets_error [of raw qs e] obtain t where "x = Some (PcapError t)" by auto
    with r pre show ?thesis by (intro exI [of _ qs] exI [of _ x]) auto
  qed
qed

theorem truncated_capture_witness:
  "\<exists>qs x. read_packets [0xD4, 0xC3, 0xB2, 0xA1] = (qs, x) \<and> qs = []"
proof -
  have "read_packets (capture le_bytes (replicate 16 0) 1 []) = ([], None)"
    using read_capture(1) [of "replicate 16 0" 1 "[]"] by simp
  moreover have "take 4 (capture le_bytes (replicate 16 0) 1 []) = [0xD4, 0xC3, 0xB2, 0xA1]"
  proof -
    have four: "(4 :: nat) = Suc (Suc (Suc (Suc 0)))" by simp
    show ?thesis unfolding capture_def four by (simp add: MAGIC_LE_def)
  qed
  moreover have "drop 4 (capture le_bytes (replicate 16 0) 1 []) \<noteq> []" by (simp add: capture_def)
  ultimately have "read_packets ([0xD4, 0xC3, 0xB2, 0xA1] @ drop 4 (capture le_bytes (replicate 16 0) 1 [])) = ([], None)"
    by (metis append_take_drop_id)
  from truncated_capture [OF this] \<open>drop 4 _ \<noteq> []\<close> show ?thesis by auto
qed

end
