(* ===== verification/Dissect.thy ===== *)
theory Dissect
  imports Framing Pcap
begin

text \<open>
  \<^verbatim>\<open>src/wireline/sniff/dissect.py\<close>: decomposing the packets of a capture layer by layer, finding
  Wireline frames in single packets and reassembling them per direction. The dictionaries whose
  order is visible (frames per flow, counts) are association lists in insertion order.
\<close>

section \<open>Constants and rows\<close>

definition ETH_HEADER_SIZE :: nat where "ETH_HEADER_SIZE = 14"
definition ETHERTYPE_IPV4 :: nat where "ETHERTYPE_IPV4 = 0x0800"
definition PROTO_TCP :: nat where "PROTO_TCP = 6"
definition PROTO_UDP :: nat where "PROTO_UDP = 17"

definition TCP_FLAG_NAMES :: "(nat \<times> ustr) list" where
  "TCP_FLAG_NAMES = [(0x01, ascii ''FIN''), (0x02, ascii ''SYN''), (0x04, ascii ''RST''),
     (0x08, ascii ''PSH''), (0x10, ascii ''ACK''), (0x20, ascii ''URG'')]"

record wireline_info =
  wi_msg_type :: ustr
  wi_seq :: int
  wi_length :: nat
  wi_flags :: int

record row =
  rw_ts :: rat
  rw_l2_src :: ustr
  rw_l2_dst :: ustr
  rw_l3_src :: ustr
  rw_l3_dst :: ustr
  rw_l4_proto :: ustr
  rw_l4_sport :: nat
  rw_l4_dport :: nat
  rw_l4_flags :: ustr
  rw_payload_len :: nat
  rw_payload :: bytes
  rw_l7 :: "wireline_info list"
  rw_note :: ustr

definition new_row :: "rat \<Rightarrow> row" where
  "new_row ts = \<lparr>rw_ts = ts, rw_l2_src = [], rw_l2_dst = [], rw_l3_src = [], rw_l3_dst = [],
     rw_l4_proto = [], rw_l4_sport = 0, rw_l4_dport = 0, rw_l4_flags = [], rw_payload_len = 0,
     rw_payload = [], rw_l7 = [], rw_note = []\<rparr>"

definition mac_str :: "bytes \<Rightarrow> ustr" where
  "mac_str raw = joined (ascii '':'') (map (\<lambda>b. hex_fixed 2 (unat b)) raw)"

text \<open>\<^verbatim>\<open>socket.inet_ntoa\<close> takes exactly four bytes.\<close>

definition ip_str :: "bytes \<Rightarrow> ustr res" where
  "ip_str raw =
     (if length raw = 4 then Inr (joined (ascii ''.'') (map (\<lambda>b. dec_nat (unat b)) raw)) else Inl OSError)"

definition tcp_flags :: "nat \<Rightarrow> ustr" where
  "tcp_flags flags =
     (let t = joined (ascii ''|'') (map snd (filter (\<lambda>(bit, name). flags AND bit \<noteq> 0) TCP_FLAG_NAMES))
      in if t \<noteq> [] then t else ascii ''-'')"

section \<open>Scanning one payload\<close>

definition info_of :: "header \<Rightarrow> wireline_info" where
  "info_of h = \<lparr>wi_msg_type = msg_name (h_type h), wi_seq = h_seq h, wi_length = h_length h, wi_flags = h_flags h\<rparr>"

function parse_from :: "bytes \<Rightarrow> nat \<Rightarrow> wireline_info list res" where
  "parse_from data offset =
     (if offset + HEADER_SIZE \<le> length data then
        (case decode_header (pyslice offset (offset + HEADER_SIZE) data) of
           Inl (ProtocolError _ _) \<Rightarrow> Inr []
         | Inl e \<Rightarrow> Inl e
         | Inr h \<Rightarrow>
             let stop = offset + HEADER_SIZE + h_length h + MAC_SIZE
             in if stop > length data then Inr []
                else rbind (parse_from data stop) (\<lambda>found. Inr (info_of h # found)))
      else Inr [])"
  by pat_completeness auto
termination
  by (relation "measure (\<lambda>(data, offset). length data - offset)") (auto simp: HEADER_SIZE_def)

declare parse_from.simps [simp del]

definition try_parse_wireline :: "bytes \<Rightarrow> wireline_info list res" where
  "try_parse_wireline data = parse_from data 0"

section \<open>One packet\<close>

text \<open>Layer 7: what is left after the transport header.\<close>

definition dissect_l7 :: "bytes \<Rightarrow> row \<Rightarrow> row option res" where
  "dissect_l7 data row =
     rbind (try_parse_wireline data) (\<lambda>infos.
       Inr (Some (row\<lparr>rw_payload_len := length data, rw_payload := data, rw_l7 := infos\<rparr>)))"

definition dissect_l4 :: "nat \<Rightarrow> bytes \<Rightarrow> row \<Rightarrow> row option res" where
  "dissect_l4 proto data row =
     (if proto = PROTO_TCP then
        (if length data < 20 then Inr (Some row)
         else
           let data_offset = drop_bit 4 (unat (data ! 12)) * 4
           in dissect_l7 (drop data_offset data)
                (row\<lparr>rw_l4_proto := ascii ''TCP'', rw_l4_sport := be_nat (pyslice 0 2 data),
                     rw_l4_dport := be_nat (pyslice 2 4 data), rw_l4_flags := tcp_flags (unat (data ! 13))\<rparr>))
      else if proto = PROTO_UDP then
        (if length data < 8 then Inr (Some row)
         else
           let udp_len = be_nat (pyslice 4 6 data)
           in dissect_l7 (if udp_len \<ge> 8 then pyslice 8 udp_len data else drop 8 data)
                (row\<lparr>rw_l4_proto := ascii ''UDP'', rw_l4_sport := be_nat (pyslice 0 2 data),
                     rw_l4_dport := be_nat (pyslice 2 4 data)\<rparr>))
      else Inr (Some (row\<lparr>rw_note := ascii ''ip protocol '' @ dec_nat proto\<rparr>)))"

definition dissect_l3 :: "bytes \<Rightarrow> row \<Rightarrow> row option res" where
  "dissect_l3 data row =
     (if length data < 20 \<or> drop_bit 4 (unat (data ! 0)) \<noteq> 4 then
        Inr (Some (row\<lparr>rw_note := ascii ''not an ipv4 packet''\<rparr>))
      else
        let ihl = (unat (data ! 0) AND 0x0F) * 4;
            total_length = be_nat (pyslice 2 4 data);
            proto = unat (data ! 9)
        in rbind (ip_str (pyslice 12 16 data)) (\<lambda>src.
           rbind (ip_str (pyslice 16 20 data)) (\<lambda>dst.
             dissect_l4 proto (if total_length \<noteq> 0 then pyslice ihl total_length data else drop ihl data)
               (row\<lparr>rw_l3_src := src, rw_l3_dst := dst\<rparr>))))"

definition dissect_packet :: "nat \<Rightarrow> packet \<Rightarrow> row option res" where
  "dissect_packet linktype packet =
     (let row = new_row (pk_timestamp packet); data = pk_data packet
      in if linktype = LINKTYPE_ETHERNET then
           (if length data < ETH_HEADER_SIZE then Inr None
            else
              let row = row\<lparr>rw_l2_dst := mac_str (pyslice 0 6 data), rw_l2_src := mac_str (pyslice 6 12 data)\<rparr>;
                  ethertype = be_nat (pyslice 12 14 data)
              in if ethertype \<noteq> ETHERTYPE_IPV4 then
                   Inr (Some (row\<lparr>rw_note := ascii ''non-ipv4 ethertype 0x'' @ hex_fixed 4 ethertype\<rparr>))
                 else dissect_l3 (drop ETH_HEADER_SIZE data) row)
         else if linktype = LINKTYPE_LOOPBACK then dissect_l3 (drop 4 data) row
         else if linktype \<noteq> LINKTYPE_RAW_IP then
           Inr (Some (row\<lparr>rw_note := ascii ''unsupported linktype '' @ dec_nat linktype\<rparr>))
         else dissect_l3 data row)"

section \<open>A whole capture\<close>

fun dissect_packets :: "(nat \<times> packet) list \<Rightarrow> row list res" where
  "dissect_packets [] = Inr []"
| "dissect_packets ((linktype, packet) # ps) =
     rbind (dissect_packet linktype packet) (\<lambda>r.
       rbind (dissect_packets ps) (\<lambda>rows. Inr (case r of None \<Rightarrow> rows | Some row \<Rightarrow> row # rows)))"

text \<open>The rows are lost when the reader raises.\<close>

definition dissect :: "bytes \<Rightarrow> row list res" where
  "dissect raw =
     (case read_packets raw of (ps, x) \<Rightarrow>
        rbind (dissect_packets ps) (\<lambda>rows. case x of None \<Rightarrow> Inr rows | Some e \<Rightarrow> Inl e))"

section \<open>Flows\<close>

definition flow_key :: "row \<Rightarrow> ustr" where
  "flow_key row = rw_l3_src row @ ascii '':'' @ dec_nat (rw_l4_sport row) @ ascii '' -> ''
     @ rw_l3_dst row @ ascii '':'' @ dec_nat (rw_l4_dport row)"

text \<open>
  One row. \<^verbatim>\<open>extend\<close> keeps the frames the generator yielded before it raised; the buffer of a
  direction that raised a ProtocolError starts afresh.
\<close>

definition reassemble_row ::
  "row \<Rightarrow> (ustr \<Rightarrow> frame_buffer option) \<times> (ustr \<times> frame list) list
     \<Rightarrow> ((ustr \<Rightarrow> frame_buffer option) \<times> (ustr \<times> frame list) list) res"
where
  "reassemble_row row st =
     (case st of (buffers, frames) \<Rightarrow>
        if rw_payload row = [] \<or> rw_l4_proto row = [] then Inr (buffers, frames)
        else
          let key = flow_key row;
              buffer = (case buffers key of None \<Rightarrow> new_buffer None | Some fb \<Rightarrow> fb);
              old = (case map_of frames key of None \<Rightarrow> [] | Some fs \<Rightarrow> fs)
          in (case drain (feed (rw_payload row) buffer) of
                (fs, None, fb) \<Rightarrow> Inr (buffers(key \<mapsto> fb), AList.update key (old @ fs) frames)
              | (fs, Some (ProtocolError _ _), fb) \<Rightarrow>
                  Inr (buffers(key \<mapsto> new_buffer None), AList.update key (old @ fs) frames)
              | (fs, Some e, fb) \<Rightarrow> Inl e))"

fun reassemble_rows ::
  "row list \<Rightarrow> (ustr \<Rightarrow> frame_buffer option) \<times> (ustr \<times> frame list) list
     \<Rightarrow> ((ustr \<Rightarrow> frame_buffer option) \<times> (ustr \<times> frame list) list) res"
where
  "reassemble_rows [] st = Inr st"
| "reassemble_rows (row # rows) st = rbind (reassemble_row row st) (reassemble_rows rows)"

definition reassemble_flows :: "row list \<Rightarrow> (ustr \<times> frame list) list res" where
  "reassemble_flows rows = rbind (reassemble_rows rows (Map.empty, [])) (\<lambda>st. Inr (snd st))"

section \<open>Summaries and lines\<close>

definition count_info :: "wireline_info \<Rightarrow> (ustr \<times> nat) list \<Rightarrow> (ustr \<times> nat) list" where
  "count_info i counts =
     AList.update (wi_msg_type i) ((case map_of counts (wi_msg_type i) of None \<Rightarrow> 0 | Some n \<Rightarrow> n) + 1) counts"

definition summarise :: "row list \<Rightarrow> (ustr \<times> nat) list" where
  "summarise rows = fold (\<lambda>row. fold count_info (rw_l7 row)) rows []"

text \<open>\<^verbatim>\<open>{x:.6f}\<close> of a non-negative number.\<close>

fun dec_fixed :: "nat \<Rightarrow> nat \<Rightarrow> ustr" where
  "dec_fixed 0 n = []"
| "dec_fixed (Suc w) n = dec_fixed w (n div 10) @ [48 + n mod 10]"

definition fixed6 :: "rat \<Rightarrow> ustr" where
  "fixed6 x = (let n = nat (py_round (x * 1000000)) in dec_nat (n div 1000000) @ ascii ''.'' @ dec_fixed 6 n)"

definition format_row :: "row \<Rightarrow> ustr" where
  "format_row row =
     joined (ascii ''  '')
       ([fixed6 (rw_ts row)]
        @ (if rw_l2_src row \<noteq> [] then [ascii ''L2 '' @ rw_l2_src row @ ascii '' -> '' @ rw_l2_dst row] else [])
        @ (if rw_l3_src row \<noteq> [] then [ascii ''L3 '' @ rw_l3_src row @ ascii '' -> '' @ rw_l3_dst row] else [])
        @ (if rw_l4_proto row \<noteq> [] then
             [ascii ''L4 '' @ rw_l4_proto row @ ascii '' '' @ dec_nat (rw_l4_sport row) @ ascii '' -> ''
                @ dec_nat (rw_l4_dport row)
                @ (if rw_l4_flags row \<noteq> [] then ascii '' ['' @ rw_l4_flags row @ ascii '']'' else [])]
           else [])
        @ (if rw_payload_len row \<noteq> 0 then [ascii ''len '' @ dec_nat (rw_payload_len row)] else [])
        @ (if rw_l7 row \<noteq> [] then
             [ascii ''L7 '' @ joined (ascii '', '')
                (map (\<lambda>i. wi_msg_type i @ ascii '' seq='' @ dec_int (wi_seq i) @ ascii '' len='' @ dec_nat (wi_length i))
                   (rw_l7 row))]
           else [])
        @ (if rw_note row \<noteq> [] then [ascii ''('' @ rw_note row @ ascii '')''] else []))"

definition format_rows :: "row list \<Rightarrow> ustr list" where
  "format_rows rows = map format_row rows"

end
