(* ===== verification/Dissect_Facts.thy ===== *)
theory Dissect_Facts
  imports Dissect Server_Facts
begin

text \<open>
  Lemmas on the analyser: it never raises on a packet, its scan of one payload finds exactly the
  leading complete frames, and reassembly of a direction is the draining of its joined payloads.
\<close>

section \<open>Scanning a payload\<close>

lemma parse_from_frames:
  assumes "list_all frame_ok fs" "list_all (\<lambda>f. mac_ok f None (mac f)) fs"
  shows "parse_from (pre @ concat (map (\<lambda>f. frame_bytes f (mac f)) fs) @ rest) (length pre) =
    rbind (parse_from (pre @ concat (map (\<lambda>f. frame_bytes f (mac f)) fs) @ rest)
        (length pre + length (concat (map (\<lambda>f. frame_bytes f (mac f)) fs))))
      (\<lambda>found. Inr (map (info_of \<circ> header_of) fs @ found))"
  using assms
proof (induction fs arbitrary: pre)
  case Nil
  then show ?case by (cases "parse_from (pre @ rest) (length pre)") simp_all
next
  case (Cons f fs)
  let ?tail = "concat (map (\<lambda>f. frame_bytes f (mac f)) fs) @ rest"
  let ?raw = "pre @ frame_bytes f (mac f) @ ?tail"
  have f: "frame_ok f" "length (mac f) = 32" using Cons.prems by (simp_all add: mac_ok_def)
  have len: "length (frame_bytes f (mac f)) = 51 + length (f_payload f)"
    using f(2) by (simp add: frame_bytes_def)
  have hdr: "pyslice (length pre) (length pre + 19) ?raw = header_bytes (header_of f)"
    by (simp add: pyslice_append_skip pyslice_def frame_bytes_def)
  have hlen: "h_length (header_of f) = length (f_payload f)" by (simp add: header_of_def)
  have dec: "decode_header (header_bytes (header_of f)) = Inr (header_of f)"
    using f(1) by (simp add: decode_header_bytes header_of_ok)
  have step: "parse_from ?raw (length pre) =
    rbind (parse_from ?raw (length pre + length (frame_bytes f (mac f)))) (\<lambda>found. Inr (info_of (header_of f) # found))"
    using hlen by (subst parse_from.simps) (simp add: hdr dec len f(2) HEADER_SIZE_def MAC_SIZE_def Let_def add.assoc)
  show ?case
    using step Cons.IH [of "pre @ frame_bytes f (mac f)"] Cons.prems
    by (cases "parse_from ?raw (length pre + length (frame_bytes f (mac f))
        + length (concat (map (\<lambda>f. frame_bytes f (mac f)) fs)))") (simp_all add: add.assoc)
qed

lemma parse_from_total: "\<exists>found. parse_from data offset = Inr found"
proof (induction data offset rule: parse_from.induct)
  case (1 data offset)
  show ?case
  proof (cases "offset + 19 \<le> length data")
    case False
    then show ?thesis by (subst parse_from.simps) simp
  next
    case True
    then have len: "length (pyslice offset (offset + 19) data) = 19" by (simp add: length_pyslice)
    show ?thesis
    proof (cases "decode_header (pyslice offset (offset + 19) data)")
      case (Inl e)
      have "is_protocol_error e" using decode_header_Inl Inl len by auto
      then obtain c m where "e = ProtocolError c m" by (rule is_protocol_errorE)
      with Inl True show ?thesis by (subst parse_from.simps) simp
    next
      case (Inr h)
      with "1.IH" [of h] True show ?thesis by (subst parse_from.simps) (auto simp: Let_def)
    qed
  qed
qed

text \<open>
  A complete frame, as an observer without the key sees it: a header that decodes, with as many bytes
  as it declares and a MAC behind it.
\<close>

definition complete_frame :: "header \<Rightarrow> bytes \<Rightarrow> bool" where
  "complete_frame h seg \<longleftrightarrow>
     decode_header (take HEADER_SIZE seg) = Inr h \<and> length seg = HEADER_SIZE + h_length h + MAC_SIZE"

definition starts_frame :: "bytes \<Rightarrow> bool" where
  "starts_frame data \<longleftrightarrow> (\<exists>h seg rest. complete_frame h seg \<and> data = seg @ rest)"

lemma starts_frame_iff:
  "starts_frame data \<longleftrightarrow>
     (\<exists>h. decode_header (take 19 data) = Inr h \<and> 51 + h_length h \<le> length data)"
proof
  assume "starts_frame data"
  then show "\<exists>h. decode_header (take 19 data) = Inr h \<and> 51 + h_length h \<le> length data"
    by (auto simp: starts_frame_def complete_frame_def)
next
  assume "\<exists>h. decode_header (take 19 data) = Inr h \<and> 51 + h_length h \<le> length data"
  then obtain h where "decode_header (take 19 data) = Inr h" "51 + h_length h \<le> length data" by blast
  then have "complete_frame h (take (51 + h_length h) data)" by (simp add: complete_frame_def min_def)
  then show "starts_frame data" unfolding starts_frame_def by (metis append_take_drop_id)
qed

lemma parse_from_leading:
  "offset \<le> length data \<Longrightarrow>
     \<exists>hs segs rest. drop offset data = concat segs @ rest \<and> list_all2 complete_frame hs segs
       \<and> \<not> starts_frame rest \<and> parse_from data offset = Inr (map info_of hs)"
proof (induction data offset rule: parse_from.induct)
  case (1 data offset)
  let ?d = "drop offset data"
  have slice: "pyslice offset (offset + 19) data = take 19 ?d" by (simp add: pyslice_def take_drop add.commute)
  consider (go) h where "offset + 19 \<le> length data" "decode_header (take 19 ?d) = Inr h" "51 + h_length h \<le> length ?d"
    | (halt) "\<not> starts_frame ?d"
    using 1(2) by (fastforce simp: starts_frame_iff)
  then show ?case
  proof cases
    case halt
    have "parse_from data offset = Inr []"
    proof -
      obtain found where f: "parse_from data offset = Inr found" using parse_from_total by blast
      from halt have "found = []" if "decode_header (take 19 ?d) = Inr h" "\<not> offset + 51 + h_length h > length data" for h
        using that by (auto simp: starts_frame_iff)
      with f 1(2) show ?thesis
        by (subst (asm) parse_from.simps, subst parse_from.simps)
          (auto simp: slice Let_def algebra_simps split: if_split_asm sum.split_asm exn.split_asm)
    qed
    with halt show ?thesis by (intro exI [of _ "[]"] exI [of _ ?d]) simp
  next
    case go
    let ?stop = "offset + 19 + h_length h + 32" and ?seg = "take (51 + h_length h) ?d"
    have le: "?stop \<le> length data" using go(1,3) by simp
    have seg: "complete_frame h ?seg" using go(2,3) by (simp add: complete_frame_def min_def)
    obtain hs segs rest where ih: "drop ?stop data = concat segs @ rest" "list_all2 complete_frame hs segs"
      "\<not> starts_frame rest" "parse_from data ?stop = Inr (map info_of hs)"
      using "1.IH" [of h ?stop] go(1,2) le by (auto simp: slice)
    have "parse_from data offset = Inr (map info_of (h # hs))"
      using go(1,2) le ih(4) by (subst parse_from.simps) (simp add: slice Let_def)
    moreover have "?d = concat (?seg # segs) @ rest"
      using ih(1) append_take_drop_id [of "51 + h_length h" ?d] by (simp add: algebra_simps)
    ultimately show ?thesis
      using seg ih(2,3) by (intro exI [of _ "h # hs"] exI [of _ "?seg # segs"] exI [of _ rest]) simp
  qed
qed

section \<open>One packet never raises\<close>

lemma dissect_l7_total: "\<exists>r. dissect_l7 data row = Inr (Some r)"
  using parse_from_total [of data 0] by (auto simp: dissect_l7_def try_parse_wireline_def)

lemma dissect_l4_total: "\<exists>r. dissect_l4 proto data row = Inr (Some r)"
  by (simp add: dissect_l4_def Let_def dissect_l7_total)

lemma dissect_l3_total: "\<exists>r. dissect_l3 data row = Inr (Some r)"
  by (auto simp: dissect_l3_def Let_def ip_str_def length_pyslice dissect_l4_total)

lemma dissect_packet_total: "\<exists>r. dissect_packet linktype packet = Inr r"
  using dissect_l3_total by (auto simp: dissect_packet_def Let_def)

lemma dissect_packets_total: "\<exists>rows. dissect_packets ps = Inr rows"
proof (induction ps)
  case (Cons p ps)
  obtain lt pk where p: "p = (lt, pk)" by (cases p)
  from Cons dissect_packet_total [of lt pk] show ?case by (auto simp: p)
qed simp

section \<open>Reassembly\<close>

definition relevant :: "row \<Rightarrow> bool" where
  "relevant row \<longleftrightarrow> rw_payload row \<noteq> [] \<and> rw_l4_proto row \<noteq> []"

text \<open>The payloads of one direction, in order.\<close>

definition payloads :: "ustr \<Rightarrow> row list \<Rightarrow> bytes list" where
  "payloads key rows = map rw_payload (filter (\<lambda>r. relevant r \<and> flow_key r = key) rows)"

definition buffer_of :: "(ustr \<Rightarrow> frame_buffer option) \<times> (ustr \<times> frame list) list \<Rightarrow> ustr \<Rightarrow> frame_buffer" where
  "buffer_of st key = (case fst st key of None \<Rightarrow> new_buffer None | Some fb \<Rightarrow> fb)"

definition frames_of :: "(ustr \<Rightarrow> frame_buffer option) \<times> (ustr \<times> frame list) list \<Rightarrow> ustr \<Rightarrow> frame list" where
  "frames_of st key = (case map_of (snd st) key of None \<Rightarrow> [] | Some fs \<Rightarrow> fs)"

lemma reassemble_row_other:
  assumes "reassemble_row row st = Inr st'" "\<not> (relevant row \<and> flow_key row = key)"
  shows "buffer_of st' key = buffer_of st key \<and> map_of (snd st') key = map_of (snd st) key"
  using assms
  by (auto simp: reassemble_row_def relevant_def buffer_of_def Let_def AList.update_conv'
      split: prod.split_asm if_split_asm option.split_asm exn.split_asm)

lemma reassemble_row_total: "\<exists>st'. reassemble_row row st = Inr st'"
proof -
  obtain fs x fb where d: "drain (feed (rw_payload row) (buffer_of st (flow_key row))) = (fs, x, fb)"
    by (cases "drain (feed (rw_payload row) (buffer_of st (flow_key row)))") auto
  show ?thesis
  proof (cases x)
    case None
    with d show ?thesis by (cases st) (simp add: reassemble_row_def buffer_of_def Let_def)
  next
    case (Some e)
    with d have "is_protocol_error e" by (auto dest: drain_error)
    then obtain c m where "e = ProtocolError c m" by (rule is_protocol_errorE)
    with Some d show ?thesis by (cases st) (simp add: reassemble_row_def buffer_of_def Let_def)
  qed
qed

lemma reassemble_row_this:
  assumes "reassemble_row row st = Inr st'" "relevant row" "flow_key row = key"
    "drain (feed (rw_payload row) (buffer_of st key)) = (fs, None, fb)"
  shows "buffer_of st' key = fb \<and> map_of (snd st') key = Some (frames_of st key @ fs)"
  using assms
  by (cases st) (auto simp: reassemble_row_def relevant_def buffer_of_def frames_of_def Let_def AList.update_conv')

lemma reassemble_rows_run:
  assumes "reassemble_rows rows st = Inr st'" "feed_chunks (payloads key rows) (buffer_of st key) = (fs, None, fb)"
  shows "buffer_of st' key = fb \<and> frames_of st' key = frames_of st key @ fs
    \<and> (payloads key rows \<noteq> [] \<longrightarrow> map_of (snd st') key \<noteq> None)
    \<and> (map_of (snd st) key \<noteq> None \<longrightarrow> map_of (snd st') key \<noteq> None)"
  using assms
proof (induction rows arbitrary: st fs)
  case Nil
  then show ?case by (simp add: payloads_def)
next
  case (Cons row rows)
  from Cons.prems(1) obtain st1 where st1: "reassemble_row row st = Inr st1" "reassemble_rows rows st1 = Inr st'"
    by (auto simp: rbind_eq_Inr_iff)
  show ?case
  proof (cases "relevant row \<and> flow_key row = key")
    case False
    then have "payloads key (row # rows) = payloads key rows" by (auto simp: payloads_def)
    with reassemble_row_other [OF st1(1) False] Cons.IH [OF st1(2)] Cons.prems(2) show ?thesis
      by (simp add: frames_of_def)
  next
    case True
    then have p: "payloads key (row # rows) = rw_payload row # payloads key rows" by (simp add: payloads_def)
    with Cons.prems(2) obtain gs fb1 hs where d: "drain (feed (rw_payload row) (buffer_of st key)) = (gs, None, fb1)"
      "feed_chunks (payloads key rows) fb1 = (hs, None, fb)" "fs = gs @ hs"
      by (auto split: prod.split_asm option.split_asm)
    with reassemble_row_this [OF st1(1) _ _ d(1)] True
    have "buffer_of st1 key = fb1" "map_of (snd st1) key = Some (frames_of st key @ gs)" by auto
    with Cons.IH [OF st1(2)] d(2,3) show ?thesis by (simp add: frames_of_def)
  qed
qed

lemma reassemble_rows_total: "\<exists>st'. reassemble_rows rows st = Inr st'"
proof (induction rows arbitrary: st)
  case (Cons row rows)
  obtain st1 where "reassemble_row row st = Inr st1" using reassemble_row_total by blast
  with Cons.IH [of st1] show ?case by simp
qed simp

lemma reassemble_flows_drain:
  assumes "drain (feed (concat (payloads key rows)) (new_buffer None)) = (fs, None, fb)" "payloads key rows \<noteq> []"
  shows "\<exists>flows. reassemble_flows rows = Inr flows \<and> map_of flows key = Some fs"
proof -
  obtain st where st: "reassemble_rows rows (Map.empty, []) = Inr st" using reassemble_rows_total by blast
  from feed_chunks_run [OF drain_new assms(1)]
  have "feed_chunks (payloads key rows) (buffer_of (Map.empty, []) key) = (fs, None, fb)"
    by (auto simp: buffer_of_def)
  from reassemble_rows_run [OF st this] assms(2) st show ?thesis
    by (auto simp: reassemble_flows_def frames_of_def)
qed

lemma drain_observer:
  "list_all frame_ok fs \<Longrightarrow> drain (feed (concat (map (wire s) fs)) (new_buffer None)) = (fs, None, new_buffer None)"
  by (induction fs) (simp_all add: wire_def drain_frame_bytes mac_ok_def frame_mac_def)

lemma scan_cut:
  assumes "list_all frame_ok fs" "frame_ok g" "n < length (wire secret g)"
  shows "try_parse_wireline (concat (map (wire secret) fs) @ take n (wire secret g)) = Inr (map (info_of \<circ> header_of) fs)"
proof -
  let ?pre = "concat (map (wire secret) fs)" and ?cut = "take n (wire secret g)"
  have macs: "list_all (\<lambda>f. mac_ok f None (frame_mac f secret)) fs"
    by (simp add: mac_ok_def frame_mac_def list_all_iff)
  have "parse_from (?pre @ ?cut) (length ?pre) = Inr []"
  proof (cases "n < 19")
    case True
    then show ?thesis by (subst parse_from.simps) (simp add: HEADER_SIZE_def)
  next
    case False
    then have "pyslice (length ?pre) (length ?pre + 19) (?pre @ ?cut) = header_bytes (header_of g)"
      by (simp add: pyslice_append_skip pyslice_def wire_def frame_bytes_def)
    moreover have "decode_header (header_bytes (header_of g)) = Inr (header_of g)"
      using assms(2) by (simp add: decode_header_bytes header_of_ok)
    moreover have "length ?cut < 51 + h_length (header_of g)" "19 \<le> length ?cut"
      using assms(3) False by (simp_all add: wire_def frame_bytes_def frame_mac_def header_of_def)
    ultimately show ?thesis
      by (subst parse_from.simps) (simp add: HEADER_SIZE_def MAC_SIZE_def Let_def)
  qed
  then show ?thesis
    using parse_from_frames [OF assms(1) macs, of "[]" ?cut] by (simp add: try_parse_wireline_def wire_def [abs_def])
qed

lemma scan_whole:
  assumes "list_all frame_ok fs"
  shows "try_parse_wireline (concat (map (wire secret) fs)) = Inr (map (info_of \<circ> header_of) fs)"
  using scan_cut [OF assms, of "mk_frame PING 0 [] 0" 0 secret]
  by (simp add: frame_ok_def MAX_SEQ_def MAX_PAYLOAD_def wire_def frame_bytes_def frame_mac_def)

section \<open>Properties\<close>

text \<open>
  C30. Reassembly recovers, without the key, the frames of each direction of each connection: if
  the payloads of a direction, joined in order, are the bytes of frames under any secret, then
  however they were cut into packets, and whatever the other directions carry, the direction is
  listed with exactly those frames.
\<close>

theorem reassembly_recovers_frames:
  assumes "concat (payloads key rows) = concat (map (wire secret) fs)" "list_all frame_ok fs" "payloads key rows \<noteq> []"
  shows "\<exists>flows. reassemble_flows rows = Inr flows \<and> map_of flows key = Some fs"
  using reassemble_flows_drain [OF _ assms(3), of fs "new_buffer None"] drain_observer [OF assms(2), of secret]
  by (simp add: assms(1))

definition row0 :: "bytes \<Rightarrow> row" where
  "row0 data = (new_row 0)\<lparr>rw_l4_proto := ascii ''TCP'', rw_payload := data\<rparr>"

theorem reassembly_recovers_frames_witness:
  "\<exists>flows. reassemble_flows [row0 (take 30 (wire [1] (mk_frame PING 0 [] 0))), row0 (drop 30 (wire [1] (mk_frame PING 0 [] 0)))]
      = Inr flows \<and> map_of flows (flow_key (row0 [])) = Some [mk_frame PING 0 [] 0]"
proof -
  let ?w = "wire [1] (mk_frame PING 0 [] 0)"
  have len: "length ?w = 51" by (simp add: wire_def frame_bytes_def frame_mac_def)
  have ne: "ascii ''TCP'' \<noteq> []" by (simp add: ascii_def)
  have key: "flow_key (row0 d) = flow_key (row0 [])" for d by (simp add: flow_key_def row0_def)
  have "payloads (flow_key (row0 [])) [row0 (take 30 ?w), row0 (drop 30 ?w)] = [take 30 ?w, drop 30 ?w]"
    using len key ne by (auto simp: payloads_def relevant_def) (simp_all add: row0_def)
  then show ?thesis
    by (intro reassembly_recovers_frames [where secret = "[1]"])
      (simp_all add: frame_ok_def MAX_SEQ_def MAX_PAYLOAD_def)
qed

text \<open>
  C31. The scan of a single payload, whatever its bytes: it never raises, and reports, in order and with
  the fields of their headers, exactly the complete frames that follow each other from the first
  byte of the payload. It stops where no complete frame starts: at the end, at a frame that
  continues in the next packet, or at bytes that are no header. So a payload that starts with the
  tail of a frame, or with foreign bytes, is scanned as empty even if complete frames follow.
\<close>

theorem scan_reports_complete_frames:
  "\<exists>hs segs rest. data = concat segs @ rest \<and> list_all2 complete_frame hs segs \<and> \<not> starts_frame rest
    \<and> try_parse_wireline data = Inr (map (\<lambda>h. \<lparr>wi_msg_type = msg_name (h_type h), wi_seq = h_seq h,
         wi_length = h_length h, wi_flags = h_flags h\<rparr>) hs)"
  using parse_from_leading [of 0 data] by (simp add: try_parse_wireline_def info_of_def [abs_def])

text \<open>Thirty bytes that are no header hide the whole frame behind them.\<close>

theorem scan_reports_complete_frames_witness:
  "try_parse_wireline (replicate 30 0 @ wire [1] (mk_frame PING 0 [] 0)) = Inr []"
proof -
  let ?data = "replicate 30 0 @ wire [1] (mk_frame PING 0 [] 0)"
  obtain hs segs rest where s: "?data = concat segs @ rest" "list_all2 complete_frame hs segs"
    "try_parse_wireline ?data = Inr (map (\<lambda>h. \<lparr>wi_msg_type = msg_name (h_type h), wi_seq = h_seq h,
         wi_length = h_length h, wi_flags = h_flags h\<rparr>) hs)"
    using scan_reports_complete_frames by blast
  have "take 4 (take 19 ?data) ! 0 \<noteq> MAGIC ! 0" by (simp add: MAGIC_def ascii_bytes_def)
  then have "take 4 (take 19 ?data) \<noteq> MAGIC" by metis
  then have none: "\<not> starts_frame ?data"
    using decode_header_bad_magic [of "take 19 ?data"] by (auto simp: starts_frame_iff)
  have "hs = []"
  proof (cases hs)
    case (Cons h hs')
    with s(2) obtain z zs where "segs = z # zs" "complete_frame h z" by (auto simp: list_all2_Cons1)
    with s(1) have "starts_frame ?data" unfolding starts_frame_def by auto
    with none show ?thesis by simp
  qed simp
  with s(3) show ?thesis by simp
qed

text \<open>
  The analyser raises on no packet, however malformed: dissecting a file raises PcapError if
  the file is not a complete capture and otherwise returns its rows.
\<close>

theorem dissect_raises_only_pcap_errors:
  "(\<exists>rows. dissect raw = Inr rows \<and> length rows \<le> length (fst (read_packets raw)))
    \<or> (\<exists>t. dissect raw = Inl (PcapError t) \<and> snd (read_packets raw) = Some (PcapError t))"
proof -
  obtain ps x where r: "read_packets raw = (ps, x)" by (cases "read_packets raw")
  obtain rows where rows: "dissect_packets ps = Inr rows" using dissect_packets_total by blast
  have len: "dissect_packets ps = Inr rows \<Longrightarrow> length rows \<le> length ps" for ps rows
    by (induction ps arbitrary: rows) (auto simp: rbind_eq_Inr_iff le_SucI split: option.split)
  show ?thesis
  proof (cases x)
    case None
    with r rows len [OF rows] show ?thesis by (simp add: dissect_def)
  next
    case (Some e)
    with r read_packets_error [of raw ps e] rows show ?thesis by (auto simp: dissect_def)
  qed
qed

end
