(* ===== verification/Fixture.thy ===== *)
theory Fixture
  imports Dissect_Facts Messages_Facts
begin

text \<open>
  \<^verbatim>\<open>src/tools/make_pcap_fixture.py\<close>: Ethernet, IPv4, TCP and UDP headers assembled by hand, and
  the two recorded sessions. Timestamps are exact rationals; the random bytes of the nonces are
  arguments.
\<close>

section \<open>Addresses and checksums\<close>

definition SECRET :: bytes where "SECRET = ascii_bytes ''fixture-secret''"
definition CLIENT_MAC :: bytes where "CLIENT_MAC = [2, 0, 0, 0, 0, 1]"
definition SERVER_MAC :: bytes where "SERVER_MAC = [2, 0, 0, 0, 0, 2]"
definition CLIENT_IP :: ustr where "CLIENT_IP = ascii ''10.0.0.10''"
definition SERVER_IP :: ustr where "SERVER_IP = ascii ''10.0.0.20''"
definition CLIENT_PORT :: int where "CLIENT_PORT = 51234"
definition SERVER_PORT :: int where "SERVER_PORT = 9000"

fun split_on :: "nat \<Rightarrow> ustr \<Rightarrow> ustr list" where
  "split_on c [] = [[]]"
| "split_on c (x # xs) =
     (if x = c then [] # split_on c xs
      else case split_on c xs of [] \<Rightarrow> [[x]] | t # ts \<Rightarrow> (x # t) # ts)"

text \<open>\<^verbatim>\<open>int\<close> of digits; its other spellings (signs, spaces, underscores) do not occur.\<close>

definition ip_part :: "ustr \<Rightarrow> byte res" where
  "ip_part t =
     (if t \<noteq> [] \<and> list_all is_digit t \<and> digits_nat t < 256 then Inr (word_of_nat (digits_nat t)) else Inl ValueError)"

definition ip_bytes :: "ustr \<Rightarrow> bytes res" where
  "ip_bytes addr = foldr (\<lambda>t r. rbind (ip_part t) (\<lambda>b. rbind r (\<lambda>bs. Inr (b # bs)))) (split_on 46 addr) (Inr [])"

text \<open>The sum of the 16-bit words; an odd last byte is padded with zero.\<close>

fun sum_words :: "bytes \<Rightarrow> nat" where
  "sum_words [] = 0"
| "sum_words [a] = push_bit 8 (unat a)"
| "sum_words (a # b # bs) = push_bit 8 (unat a) + unat b + sum_words bs"

lemma and_ffff: "(n :: nat) AND 0xFFFF = n mod 65536"
proof -
  have "(0xFFFF :: nat) = mask 16" by (simp add: mask_eq_exp_minus_1)
  then have "n AND 0xFFFF = take_bit 16 n" by (simp only: take_bit_eq_mask)
  then show ?thesis by (simp add: take_bit_eq_mod)
qed

lemma carry_less: "drop_bit 16 (n :: nat) \<noteq> 0 \<Longrightarrow> (n AND 0xFFFF) + drop_bit 16 n < n"
proof -
  assume "drop_bit 16 n \<noteq> 0"
  then have "0 < n div 65536" by (simp add: drop_bit_eq_div)
  moreover have "n = 65536 * (n div 65536) + n mod 65536" by simp
  ultimately have "n mod 65536 + n div 65536 < n" by linarith
  then show ?thesis by (simp add: and_ffff drop_bit_eq_div)
qed

function fold_carry :: "nat \<Rightarrow> nat" where
  "fold_carry t =
     (if drop_bit 16 t \<noteq> 0 then fold_carry ((t AND 0xFFFF) + drop_bit 16 t) else t)"
  by pat_completeness auto
termination
  by (relation "measure id") (use carry_less in auto)

declare fold_carry.simps [simp del]

definition checksum :: "bytes \<Rightarrow> nat" where
  "checksum data = nat (NOT (int (fold_carry (sum_words data))) AND 0xFFFF)"

section \<open>Headers\<close>

text \<open>\<^verbatim>\<open>struct.pack\<close> of a bytes field of fixed width, and of big-endian fields.\<close>

definition pack_s :: "nat \<Rightarrow> bytes \<Rightarrow> bytes" where
  "pack_s n b = take n (b @ replicate n 0)"

definition pack_be :: "(nat \<times> int) list \<Rightarrow> bytes res" where
  "pack_be vs = foldr (\<lambda>(w, v) r. rbind (pack_uint be_bytes w v) (\<lambda>b. rbind r (\<lambda>bs. Inr (b @ bs)))) vs (Inr [])"

definition ethernet :: "bytes \<Rightarrow> bytes \<Rightarrow> bytes \<Rightarrow> bytes" where
  "ethernet src dst payload = pack_s 6 dst @ pack_s 6 src @ be_bytes 2 0x0800 @ payload"

definition ipv4 :: "ustr \<Rightarrow> ustr \<Rightarrow> int \<Rightarrow> bytes \<Rightarrow> int \<Rightarrow> bytes res" where
  "ipv4 src dst proto payload ident =
     rbind (ip_bytes src) (\<lambda>s. rbind (ip_bytes dst) (\<lambda>d.
     rbind (pack_be [(1, 0x45), (1, 0), (2, 20 + int (length payload)), (2, ident), (2, 0), (1, 64), (1, proto), (2, 0)])
       (\<lambda>hdr.
          let header = hdr @ pack_s 4 s @ pack_s 4 d;
              header = take 10 header @ be_bytes 2 (checksum header) @ drop 12 header
          in Inr (header @ payload))))"

definition tcp :: "int \<Rightarrow> int \<Rightarrow> int \<Rightarrow> int \<Rightarrow> int \<Rightarrow> bytes \<Rightarrow> bytes res" where
  "tcp sport dport seq ack flags payload =
     rbind (pack_be [(2, sport), (2, dport), (4, seq), (4, ack), (1, 0x50), (1, flags), (2, 65535), (2, 0), (2, 0)])
       (\<lambda>header. Inr (header @ payload))"

definition udp :: "int \<Rightarrow> int \<Rightarrow> bytes \<Rightarrow> bytes res" where
  "udp sport dport payload =
     rbind (pack_be [(2, sport), (2, dport), (2, 8 + int (length payload)), (2, 0)]) (\<lambda>header. Inr (header @ payload))"

section \<open>The recorded TCP session\<close>

record fixture =
  fx_packets :: "(rat \<times> bytes) list"
  fx_ts :: rat
  fx_ident :: int
  fx_c_seq :: int
  fx_s_seq :: int

definition c2s :: "int \<Rightarrow> bytes \<Rightarrow> fixture \<Rightarrow> fixture res" where
  "c2s flags payload fx =
     rbind (tcp CLIENT_PORT SERVER_PORT (fx_c_seq fx) (fx_s_seq fx) flags payload) (\<lambda>seg.
     rbind (ipv4 CLIENT_IP SERVER_IP 6 seg (fx_ident fx)) (\<lambda>pkt.
       Inr (fx\<lparr>fx_packets := fx_packets fx @ [(fx_ts fx, ethernet CLIENT_MAC SERVER_MAC pkt)],
         fx_ts := fx_ts fx + 5 / 10000, fx_ident := fx_ident fx + 1,
         fx_c_seq := fx_c_seq fx + max (int (length payload)) (if flags AND 0x02 \<noteq> 0 then 1 else 0)\<rparr>)))"

definition s2c :: "int \<Rightarrow> bytes \<Rightarrow> fixture \<Rightarrow> fixture res" where
  "s2c flags payload fx =
     rbind (tcp SERVER_PORT CLIENT_PORT (fx_s_seq fx) (fx_c_seq fx) flags payload) (\<lambda>seg.
     rbind (ipv4 SERVER_IP CLIENT_IP 6 seg (fx_ident fx)) (\<lambda>pkt.
       Inr (fx\<lparr>fx_packets := fx_packets fx @ [(fx_ts fx, ethernet SERVER_MAC CLIENT_MAC pkt)],
         fx_ts := fx_ts fx + 5 / 10000, fx_ident := fx_ident fx + 1,
         fx_s_seq := fx_s_seq fx + max (int (length payload)) (if flags AND 0x02 \<noteq> 0 then 1 else 0)\<rparr>)))"

definition DATA_TEXT :: bytes where
  "DATA_TEXT = ascii_bytes ''payload that crosses a segment boundary''"

definition fixture0 :: fixture where
  "fixture0 = \<lparr>fx_packets = [], fx_ts = 1757000000, fx_ident = 1, fx_c_seq = 1000, fx_s_seq = 5000\<rparr>"

text \<open>\<open>rng\<close> and \<open>rng'\<close> are the randomness of the two nonces.\<close>

definition tcp_session :: "(nat \<Rightarrow> bytes) \<Rightarrow> (nat \<Rightarrow> bytes) \<Rightarrow> (rat \<times> bytes) list res" where
  "tcp_session rng rng' =
     rbind (c2s 0x02 [] fixture0) (\<lambda>fx.
     rbind (s2c 0x12 [] fx) (\<lambda>fx.
     rbind (c2s 0x10 [] fx) (\<lambda>fx.
     rbind (encode_hello rng (ascii ''capture'') None) (\<lambda>h.
     rbind (encode (mk_frame HELLO 0 h 0) SECRET) (\<lambda>raw.
     rbind (c2s 0x18 raw fx) (\<lambda>fx.
     rbind (encode_hello_ack rng' (ascii ''cap01'') None) (\<lambda>h.
     rbind (encode (mk_frame HELLO_ACK 0 h 0) SECRET) (\<lambda>raw.
     rbind (s2c 0x18 raw fx) (\<lambda>fx.
     rbind (encode (mk_frame DATA 1 DATA_TEXT 0) SECRET) (\<lambda>data.
     rbind (c2s 0x18 (take 30 data) fx) (\<lambda>fx.
     rbind (c2s 0x18 (drop 30 data) fx) (\<lambda>fx.
     rbind (encode (mk_frame DATA 1 DATA_TEXT 0) SECRET) (\<lambda>raw.
     rbind (s2c 0x18 raw fx) (\<lambda>fx.
     rbind (encode (mk_frame BYE 2 [] 0) SECRET) (\<lambda>raw.
     rbind (c2s 0x18 raw fx) (\<lambda>fx.
     rbind (s2c 0x11 [] fx) (\<lambda>fx.
     rbind (c2s 0x10 [] fx) (\<lambda>fx.
       Inr (fx_packets fx)))))))))))))))))))"

definition udp_session :: "(rat \<times> bytes) list res" where
  "udp_session =
     rbind (encode (mk_frame PING 0 (ascii_bytes ''udp probe'') 0x01) SECRET) (\<lambda>request.
     rbind (encode (mk_frame PONG 0 (ascii_bytes ''udp probe'') 0) SECRET) (\<lambda>reply.
     rbind (udp 51235 9001 request) (\<lambda>u.
     rbind (ipv4 CLIENT_IP SERVER_IP 17 u 100) (\<lambda>p.
     rbind (udp 9001 51235 reply) (\<lambda>u'.
     rbind (ipv4 SERVER_IP CLIENT_IP 17 u' 101) (\<lambda>p'.
       Inr [(1757000100, ethernet CLIENT_MAC SERVER_MAC p),
            (1757000100 + 1 / 1000, ethernet SERVER_MAC CLIENT_MAC p')]))))))"

end
