(* ===== verification/Fixture_Facts.thy ===== *)
theory Fixture_Facts
  imports Fixture
begin

text \<open>
  Lemmas on the capture fixtures: the checksum that \<^verbatim>\<open>ipv4\<close> writes verifies, addresses print and
  parse back, the analyser reads the fields of the headers built here, and the recorded session
  reassembles to the frames it was built from.
\<close>

section \<open>The checksum\<close>

lemma fold_carry_facts:
  "fold_carry t < 65536 \<and> fold_carry t mod 65535 = t mod 65535 \<and> (0 < t \<longrightarrow> 0 < fold_carry t)"
proof (induction t rule: fold_carry.induct)
  case (1 t)
  show ?case
  proof (cases "drop_bit 16 t = 0")
    case True
    then have "t < 65536" by (simp add: drop_bit_eq_div div_eq_0_iff)
    with True show ?thesis by (subst (1 2 3) fold_carry.simps) simp
  next
    case False
    let ?u = "(t AND 0xFFFF) + drop_bit 16 t"
    have t: "t = 65536 * (t div 65536) + t mod 65536" by simp
    then have "t mod 65535 = (65535 * (t div 65536) + (t div 65536 + t mod 65536)) mod 65535"
      by (simp add: algebra_simps)
    also have "\<dots> = (t div 65536 + t mod 65536) mod 65535" by (rule mod_mult_self4)
    finally have "?u mod 65535 = t mod 65535" by (simp add: and_ffff drop_bit_eq_div add.commute)
    moreover have "0 < ?u" using False by simp
    moreover have "fold_carry t = fold_carry ?u" using False by (subst fold_carry.simps) simp
    ultimately show ?thesis using "1.IH" [OF False] by simp
  qed
qed

lemma checksum_eq: "checksum d = 65535 - fold_carry (sum_words d)"
proof -
  let ?n = "fold_carry (sum_words d)"
  have n: "?n < 65536" using fold_carry_facts by blast
  have "(0xFFFF :: int) = mask 16" by (simp add: mask_eq_exp_minus_1)
  then have "NOT (int ?n) AND 0xFFFF = take_bit 16 (NOT (int ?n))" by (simp only: take_bit_eq_mask)
  also have "\<dots> = (- int ?n - 1) mod 65536" by (simp add: take_bit_eq_mod not_int_def)
  also have "\<dots> = (- int ?n - 1 + 65536) mod 65536" by (simp only: mod_add_self2)
  also have "- int ?n - 1 + 65536 = 65535 - int ?n" by simp
  also have "(65535 - int ?n) mod 65536 = 65535 - int ?n" using n by (intro mod_pos_pos_trivial) linarith+
  finally show ?thesis by (simp add: checksum_def)
qed

lemma only_multiple: "(x :: nat) mod 65535 = 0 \<Longrightarrow> 0 < x \<Longrightarrow> x < 65536 \<Longrightarrow> x = 65535"
proof -
  assume "x mod 65535 = 0" and x: "0 < x" "x < 65536"
  then have "x = 65535 * (x div 65535)" by auto
  with x have "x div 65535 = 1" by linarith
  with \<open>x = 65535 * (x div 65535)\<close> show ?thesis by simp
qed

lemma be_bytes_2: "be_bytes 2 n = [word_of_nat (n div 256), word_of_nat n]"
proof -
  have two: "(2 :: nat) = Suc (Suc 0)" by simp
  show ?thesis unfolding two by (simp add: be_bytes_def)
qed

lemma sum_words_append: "even (length a) \<Longrightarrow> sum_words (a @ b) = sum_words a + sum_words b"
  by (induction a rule: sum_words.induct) simp_all

lemma sum_words_be: "n < 65536 \<Longrightarrow> sum_words (be_bytes 2 n) = n"
  by (simp add: be_bytes_2 push_bit_eq_mult less_mult_imp_div_less)

text \<open>Writing the checksum into a zero field at an even offset makes the whole sum verify.\<close>

lemma checksum_filled:
  assumes "even (length a)" "0 < sum_words (a @ [0, 0] @ b)"
  shows "checksum (a @ be_bytes 2 (checksum (a @ [0, 0] @ b)) @ b) = 0"
proof -
  let ?s = "sum_words (a @ [0, 0] @ b)" and ?c = "checksum (a @ [0, 0] @ b)"
  have f: "fold_carry ?s < 65536" "fold_carry ?s mod 65535 = ?s mod 65535" "0 < fold_carry ?s"
    using fold_carry_facts [of ?s] assms(2) by auto
  have c: "?c < 65536" "?c + fold_carry ?s = 65535" using f(1) by (simp_all add: checksum_eq)
  have "sum_words (a @ be_bytes 2 ?c @ b) = ?s + ?c"
    using assms(1) c(1) by (simp add: sum_words_append sum_words_be)
  moreover have "(?s + ?c) mod 65535 = 0"
    using mod_add_left_eq [of "fold_carry ?s" 65535 ?c] mod_add_left_eq [of ?s 65535 ?c] f(2) c(2)
    by (simp add: add.commute)
  ultimately have g: "fold_carry (sum_words (a @ be_bytes 2 ?c @ b)) mod 65535 = 0"
      "0 < fold_carry (sum_words (a @ be_bytes 2 ?c @ b))" "fold_carry (sum_words (a @ be_bytes 2 ?c @ b)) < 65536"
    using fold_carry_facts [of "?s + ?c"] assms(2) by auto
  then have "fold_carry (sum_words (a @ be_bytes 2 ?c @ b)) = 65535"
    by (rule only_multiple)
  then show ?thesis by (simp add: checksum_eq)
qed

section \<open>Addresses\<close>

lemma split_on_append: "c \<notin> set xs \<Longrightarrow> split_on c (xs @ c # ys) = xs # split_on c ys"
  by (induction xs) simp_all

lemma split_on_self: "c \<notin> set xs \<Longrightarrow> split_on c xs = [xs]"
  by (induction xs) simp_all

lemma ip_part_dec: "ip_part (dec_nat (unat b)) = Inr b"
  by (simp add: ip_part_def dec_nat_digits)

lemma dot_not_digit: "46 \<notin> set (dec_nat n)"
  using dec_nat_digits [of n] by (auto simp: list_all_iff is_digit_def)

lemma ip_bytes_text: "a \<noteq> [] \<Longrightarrow> ip_bytes (joined (ascii ''.'') (map (\<lambda>b. dec_nat (unat b)) a)) = Inr a"
proof (induction a rule: induct_list012)
  case (3 x y a)
  have dot: "ascii ''.'' = [46]" by (simp add: ascii_def of_char_def)
  from 3 show ?case by (simp add: dot split_on_append dot_not_digit ip_bytes_def ip_part_dec)
qed (simp_all add: ip_bytes_def split_on_self dot_not_digit ip_part_dec)

lemma ip_bytes_ip_str: "ip_str a = Inr t \<Longrightarrow> ip_bytes t = Inr a \<and> length a = 4"
proof -
  assume "ip_str a = Inr t"
  then have a: "length a = 4" "t = joined (ascii ''.'') (map (\<lambda>b. dec_nat (unat b)) a)"
    by (simp_all add: ip_str_def split: if_split_asm)
  then have "a \<noteq> []" by auto
  with ip_bytes_text [OF this] a show ?thesis by simp
qed

section \<open>What the headers contain\<close>

lemma pack_be_simps:
  "pack_be [] = Inr []"
  "pack_be ((w, v) # vs) = rbind (pack_uint be_bytes w v) (\<lambda>b. rbind (pack_be vs) (\<lambda>bs. Inr (b @ bs)))"
  by (simp_all add: pack_be_def)

lemma be_bytes_1: "be_bytes (Suc 0) n = [word_of_nat n]"
  by (simp add: be_bytes_def)

lemma pack_s_exact: "length b = n \<Longrightarrow> pack_s n b = b"
  by (simp add: pack_s_def)

definition ip_head :: "nat \<Rightarrow> nat \<Rightarrow> nat \<Rightarrow> bytes" where
  "ip_head total_length ident proto =
     [0x45, 0] @ be_bytes 2 total_length @ be_bytes 2 ident @ [0, 0, 64, word_of_nat proto]"

lemma length_ip_head [simp]: "length (ip_head n i p) = 10"
  by (simp add: ip_head_def)

lemma pack_ip_fields:
  "pack_be [(1, 0x45), (1, 0), (2, n), (2, ident), (2, 0), (1, 64), (1, proto), (2, 0)] =
     (if 0 \<le> n \<and> n < 65536 \<and> 0 \<le> ident \<and> ident < 65536 \<and> 0 \<le> proto \<and> proto < 256
      then Inr (ip_head (nat n) (nat ident) (nat proto) @ [0, 0]) else Inl StructError)"
  by (simp add: pack_be_simps pack_uint_def ip_head_def be_bytes_1 be_bytes_2)

lemma ipv4_eq_Inr_iff:
  "ipv4 src dst proto payload ident = Inr pkt \<longleftrightarrow>
     (\<exists>s d. ip_bytes src = Inr s \<and> ip_bytes dst = Inr d \<and> 20 + length payload < 65536 \<and> 0 \<le> ident \<and> ident < 65536
        \<and> 0 \<le> proto \<and> proto < 256
        \<and> (let h = ip_head (20 + length payload) (nat ident) (nat proto); t = pack_s 4 s @ pack_s 4 d
           in pkt = h @ be_bytes 2 (checksum (h @ [0, 0] @ t)) @ t @ payload))"
proof -
  have len: "0 \<le> 20 + int (length payload)" "20 + int (length payload) < 65536 \<longleftrightarrow> 20 + length payload < 65536"
    "nat (20 + int (length payload)) = 20 + length payload" by linarith+
  have parts: "take 10 (ip_head n i p @ 0 # 0 # t) = ip_head n i p" "drop 12 (ip_head n i p @ 0 # 0 # t) = t" for n i p t
    by simp_all
  show ?thesis
    unfolding ipv4_def pack_ip_fields len
    by (auto simp: rbind_eq_Inr_iff Let_def parts)
qed

lemma tcp_eq_Inr_iff:
  "tcp sport dport seq ack flags payload = Inr seg \<longleftrightarrow>
     0 \<le> sport \<and> sport < 65536 \<and> 0 \<le> dport \<and> dport < 65536 \<and> 0 \<le> seq \<and> seq < 4294967296
     \<and> 0 \<le> ack \<and> ack < 4294967296 \<and> 0 \<le> flags \<and> flags < 256
     \<and> seg = be_bytes 2 (nat sport) @ be_bytes 2 (nat dport) @ be_bytes 4 (nat seq) @ be_bytes 4 (nat ack)
         @ [0x50, word_of_nat (nat flags)] @ be_bytes 2 65535 @ [0, 0, 0, 0] @ payload"
  by (auto simp: tcp_def pack_be_simps pack_uint_def be_bytes_1 be_bytes_2 rbind_eq_Inr_iff)

lemma udp_eq_Inr_iff:
  "udp sport dport payload = Inr seg \<longleftrightarrow>
     0 \<le> sport \<and> sport < 65536 \<and> 0 \<le> dport \<and> dport < 65536 \<and> 8 + length payload < 65536
     \<and> seg = be_bytes 2 (nat sport) @ be_bytes 2 (nat dport) @ be_bytes 2 (8 + length payload) @ [0, 0] @ payload"
proof -
  have len: "0 \<le> 8 + int (length payload)" "8 + int (length payload) < 65536 \<longleftrightarrow> 8 + length payload < 65536"
    "nat (8 + int (length payload)) = 8 + length payload" by linarith+
  show ?thesis
    by (auto simp: udp_def pack_be_simps pack_uint_def len be_bytes_2 rbind_eq_Inr_iff)
qed

section \<open>What the analyser reads from them\<close>

lemma be_nat_2: "n < 65536 \<Longrightarrow> be_nat (be_bytes 2 n) = n"
  by (rule be.get_put) simp

lemma dissect_l3_built:
  assumes "ipv4 src dst (int proto) payload ident = Inr pkt" "ip_str s = Inr src" "ip_str d = Inr dst"
  shows "dissect_l3 pkt row = dissect_l4 proto payload (row\<lparr>rw_l3_src := src, rw_l3_dst := dst\<rparr>)"
proof -
  from assms(2,3) have sd: "ip_bytes src = Inr s" "length s = 4" "ip_bytes dst = Inr d" "length d = 4"
    by (auto dest: ip_bytes_ip_str)
  from assms(1) sd obtain ck where pkt: "pkt = ip_head (20 + length payload) (nat ident) proto @ be_bytes 2 ck @ s @ d @ payload"
    and n: "20 + length payload < 65536" and p: "proto < 256"
    by (auto simp: ipv4_eq_Inr_iff Let_def pack_s_exact)
  have "length pkt = 20 + length payload" using sd by (simp add: pkt)
  moreover have "pkt ! 0 = 0x45" "unat (pkt ! 9) = proto"
    using p by (simp_all add: pkt ip_head_def be_bytes_2)
  moreover have "be_nat (pyslice 2 4 pkt) = 20 + length payload"
    using be_nat_2 [OF n] by (simp add: pkt ip_head_def be_bytes_2 pyslice_def)
  moreover have "pyslice 12 16 pkt = s" "pyslice 16 20 pkt = d" "pyslice 20 (20 + length payload) pkt = payload"
    using sd by (simp_all add: pkt pyslice_def)
  ultimately show ?thesis
    using assms(2,3) by (simp add: dissect_l3_def Let_def)
qed

lemma dissect_l4_tcp:
  assumes "tcp sport dport seq ack flags payload = Inr seg"
  shows "dissect_l4 PROTO_TCP seg row = dissect_l7 payload (row\<lparr>rw_l4_proto := ascii ''TCP'',
    rw_l4_sport := nat sport, rw_l4_dport := nat dport, rw_l4_flags := tcp_flags (nat flags)\<rparr>)"
proof -
  from assms have b: "nat sport < 65536" "nat dport < 65536" "nat flags < 256"
    and seg: "seg = be_bytes 2 (nat sport) @ be_bytes 2 (nat dport) @ be_bytes 4 (nat seq) @ be_bytes 4 (nat ack)
         @ [0x50, word_of_nat (nat flags)] @ be_bytes 2 65535 @ [0, 0, 0, 0] @ payload"
    by (auto simp: tcp_eq_Inr_iff)
  have "\<not> length seg < 20" "seg ! 12 = 0x50" "unat (seg ! 13) = nat flags" "drop 20 seg = payload"
    using b by (simp_all add: seg nth_append)
  moreover have "be_nat (pyslice 0 2 seg) = nat sport" "be_nat (pyslice 2 4 seg) = nat dport"
    using b by (simp_all add: seg pyslice_def be_nat_2)
  ultimately show ?thesis by (simp add: dissect_l4_def Let_def)
qed

lemma dissect_l4_udp:
  assumes "udp sport dport payload = Inr seg"
  shows "dissect_l4 PROTO_UDP seg row = dissect_l7 payload (row\<lparr>rw_l4_proto := ascii ''UDP'',
    rw_l4_sport := nat sport, rw_l4_dport := nat dport\<rparr>)"
proof -
  from assms have b: "nat sport < 65536" "nat dport < 65536" "8 + length payload < 65536"
    and seg: "seg = be_bytes 2 (nat sport) @ be_bytes 2 (nat dport) @ be_bytes 2 (8 + length payload) @ [0, 0] @ payload"
    by (auto simp: udp_eq_Inr_iff)
  have "\<not> length seg < 8" "pyslice 8 (8 + length payload) seg = payload"
    by (simp_all add: seg pyslice_def)
  moreover have "be_nat (pyslice 0 2 seg) = nat sport" "be_nat (pyslice 2 4 seg) = nat dport"
    "be_nat (pyslice 4 6 seg) = 8 + length payload"
    using b by (simp_all add: seg pyslice_def be_nat_2)
  ultimately show ?thesis by (simp add: dissect_l4_def Let_def PROTO_TCP_def PROTO_UDP_def)
qed

lemma dissect_packet_ethernet:
  assumes "length smac = 6" "length dmac = 6"
  shows "dissect_packet LINKTYPE_ETHERNET \<lparr>pk_timestamp = ts, pk_data = ethernet smac dmac pkt, pk_original_length = n\<rparr>
    = dissect_l3 pkt ((new_row ts)\<lparr>rw_l2_dst := mac_str dmac, rw_l2_src := mac_str smac\<rparr>)"
proof -
  let ?d = "ethernet smac dmac pkt"
  have "\<not> length ?d < 14" "pyslice 0 6 ?d = dmac" "pyslice 6 12 ?d = smac" "be_nat (pyslice 12 14 ?d) = 0x0800"
    "drop 14 ?d = pkt"
    using assms by (simp_all add: ethernet_def pack_s_exact pyslice_def be_nat_2)
  then show ?thesis by (simp add: dissect_packet_def Let_def ETH_HEADER_SIZE_def ETHERTYPE_IPV4_def)
qed

section \<open>Writing and dissecting the recorded packets\<close>

lemma py_round_bounds: "0 \<le> x \<Longrightarrow> x < 1000000 \<Longrightarrow> 0 \<le> py_round x \<and> py_round x \<le> 1000000"
proof -
  assume "0 \<le> x" "x < 1000000"
  then have "0 \<le> \<lfloor>x\<rfloor>" "\<lfloor>x\<rfloor> < 1000000" by (simp_all add: floor_less_iff)
  then show ?thesis by (simp add: py_round_def Let_def)
qed

lemma write_records_total:
  "\<forall>(ts, d) \<in> set ps. 0 \<le> ts \<and> ts < 4294967295 \<and> length d < 256 ^ 4 \<Longrightarrow> \<exists>b. write_records ps = Inr b"
proof (induction ps)
  case (Cons p ps)
  obtain ts d where p: "p = (ts, d)" by (cases p)
  with Cons.prems have ts: "0 \<le> ts" "ts < 4294967295" "length d < 256 ^ 4" by auto
  have sec: "py_trunc ts = \<lfloor>ts\<rfloor>" "0 \<le> py_trunc ts" "py_trunc ts < 256 ^ 4"
    using ts by (simp_all add: py_trunc_def floor_less_iff)
  have "0 \<le> (ts - of_int \<lfloor>ts\<rfloor>) * 1000000" "(ts - of_int \<lfloor>ts\<rfloor>) * 1000000 < 1000000"
    using floor_correct [of ts] unfolding left_diff_distrib by linarith+
  from py_round_bounds [OF this]
  have usec: "0 \<le> py_round ((ts - of_int \<lfloor>ts\<rfloor>) * 1000000)" "py_round ((ts - of_int \<lfloor>ts\<rfloor>) * 1000000) < 256 ^ 4"
    by simp_all
  from Cons obtain b where "write_records ps = Inr b" by auto
  with sec usec ts show ?case by (simp add: p Let_def pack_le32s_simps pack_uint_def)
qed simp

text \<open>
  What the rest of the analyser uses of a recorded packet: its direction, its payload and the
  frames the scan of the payload finds.
\<close>

definition carries :: "ustr \<Rightarrow> bytes \<Rightarrow> bytes \<Rightarrow> bool" where
  "carries key payload data \<longleftrightarrow> (\<forall>ts n. \<exists>row.
     dissect_packet LINKTYPE_ETHERNET \<lparr>pk_timestamp = ts, pk_data = data, pk_original_length = n\<rparr> = Inr (Some row)
     \<and> rw_l4_proto row \<noteq> [] \<and> flow_key row = key \<and> rw_payload row = payload
     \<and> try_parse_wireline payload = Inr (rw_l7 row))"

definition row_of :: "row \<Rightarrow> ustr \<times> bytes \<Rightarrow> bool" where
  "row_of row kp \<longleftrightarrow> rw_l4_proto row \<noteq> [] \<and> flow_key row = fst kp \<and> rw_payload row = snd kp
     \<and> try_parse_wireline (snd kp) = Inr (rw_l7 row)"

lemma dissect_carried:
  "list_all2 (\<lambda>(ts, d) (k, p). carries k p d) packets spec \<Longrightarrow>
     \<exists>rows. dissect_packets (map (\<lambda>(ts, d). (LINKTYPE_ETHERNET,
         \<lparr>pk_timestamp = stamp ts, pk_data = d, pk_original_length = length d\<rparr>)) packets) = Inr rows
       \<and> list_all2 row_of rows spec"
proof (induction packets spec rule: list_all2_induct)
  case (Cons x xs y ys)
  obtain ts d k p where xy: "x = (ts, d)" "y = (k, p)" by (cases x, cases y)
  with Cons(1) obtain row where
    "dissect_packet LINKTYPE_ETHERNET \<lparr>pk_timestamp = stamp ts, pk_data = d, pk_original_length = length d\<rparr> = Inr (Some row)"
    "row_of row y"
    unfolding carries_def row_of_def by fastforce
  with Cons(3) show ?case by (auto simp: xy)
qed simp

lemma dissect_written:
  assumes "list_all2 (\<lambda>(ts, d) (k, p). carries k p d) packets spec"
    "write_packets packets (int LINKTYPE_ETHERNET) snaplen = Inr raw"
  shows "\<exists>rows. dissect raw = Inr rows \<and> list_all2 row_of rows spec"
  using dissect_carried [OF assms(1)] write_read [OF assms(2)] by (auto simp: dissect_def)

lemma payloads_of_spec:
  "list_all2 row_of rows spec \<Longrightarrow> payloads key rows = map snd (filter (\<lambda>(k, p). k = key \<and> p \<noteq> []) spec)"
  by (induction rows spec rule: list_all2_induct) (auto simp: payloads_def relevant_def row_of_def)

lemma summarise_of_spec:
  "list_all2 row_of rows spec \<Longrightarrow> list_all2 (\<lambda>(k, p) is. try_parse_wireline p = Inr is) spec iss \<Longrightarrow>
     summarise rows = fold (fold count_info) iss []"
proof -
  assume "list_all2 row_of rows spec" "list_all2 (\<lambda>(k, p) is. try_parse_wireline p = Inr is) spec iss"
  then have "iss = map rw_l7 rows"
  proof (induction rows spec arbitrary: iss rule: list_all2_induct)
    case (Cons x xs y ys)
    from Cons(4) Cons(3) Cons(1) show ?case by (cases iss) (auto simp: row_of_def split: prod.split_asm)
  qed simp
  then show ?thesis by (simp add: summarise_def fold_map comp_def)
qed

section \<open>The recorded session\<close>

definition C2S_KEY :: ustr where "C2S_KEY = ascii ''10.0.0.10:51234 -> 10.0.0.20:9000''"
definition S2C_KEY :: ustr where "S2C_KEY = ascii ''10.0.0.20:9000 -> 10.0.0.10:51234''"

lemma ip_texts: "ip_str [10, 0, 0, 10] = Inr CLIENT_IP" "ip_str [10, 0, 0, 20] = Inr SERVER_IP"
  by code_simp+

lemma port_texts: "dec_nat (nat CLIENT_PORT) = ascii ''51234''" "dec_nat (nat SERVER_PORT) = ascii ''9000''"
  by (simp_all add: CLIENT_PORT_def SERVER_PORT_def dec_nat.simps ascii_def of_char_def)

lemma keys:
  "CLIENT_IP @ ascii '':'' @ dec_nat (nat CLIENT_PORT) @ ascii '' -> '' @ SERVER_IP @ ascii '':'' @ dec_nat (nat SERVER_PORT) = C2S_KEY"
  "SERVER_IP @ ascii '':'' @ dec_nat (nat SERVER_PORT) @ ascii '' -> '' @ CLIENT_IP @ ascii '':'' @ dec_nat (nat CLIENT_PORT) = S2C_KEY"
  by (simp_all add: port_texts C2S_KEY_def S2C_KEY_def CLIENT_IP_def SERVER_IP_def ascii_def)

lemma keys_differ: "C2S_KEY \<noteq> S2C_KEY"
  by code_simp

lemma dissect_tcp_built:
  assumes "tcp sport dport seq ack flags payload = Inr seg" "ipv4 src dst (int PROTO_TCP) seg ident = Inr pkt"
    "ip_str s = Inr src" "ip_str d = Inr dst" "length smac = 6" "length dmac = 6"
  shows "dissect_packet LINKTYPE_ETHERNET \<lparr>pk_timestamp = ts, pk_data = ethernet smac dmac pkt, pk_original_length = n\<rparr>
    = dissect_l7 payload ((new_row ts)\<lparr>rw_l2_dst := mac_str dmac, rw_l2_src := mac_str smac, rw_l3_src := src, rw_l3_dst := dst,
        rw_l4_proto := ascii ''TCP'', rw_l4_sport := nat sport, rw_l4_dport := nat dport, rw_l4_flags := tcp_flags (nat flags)\<rparr>)"
  by (simp add: dissect_packet_ethernet [OF assms(5,6)] dissect_l3_built [OF assms(2-4)] dissect_l4_tcp [OF assms(1)])

lemma carries_built:
  assumes "tcp sport dport seq ack flags payload = Inr seg" "ipv4 src dst (int PROTO_TCP) seg ident = Inr pkt"
    "ip_str s = Inr src" "ip_str d = Inr dst" "length smac = 6" "length dmac = 6"
    "key = src @ ascii '':'' @ dec_nat (nat sport) @ ascii '' -> '' @ dst @ ascii '':'' @ dec_nat (nat dport)"
  shows "carries key payload (ethernet smac dmac pkt)"
proof -
  obtain infos where "try_parse_wireline payload = Inr infos"
    using parse_from_total [of payload 0] by (auto simp: try_parse_wireline_def)
  then show ?thesis
    unfolding carries_def dissect_tcp_built [OF assms(1-6)]
    by (simp add: dissect_l7_def flow_key_def assms(7) ascii_def)
qed

lemma built_exists:
  assumes "0 \<le> sport" "sport < 65536" "0 \<le> dport" "dport < 65536" "0 \<le> seq" "seq < 4294967296"
    "0 \<le> ack" "ack < 4294967296" "0 \<le> flags" "flags < 256" "length payload \<le> 30000" "0 \<le> ident" "ident < 65536"
    "ip_str s = Inr src" "ip_str d = Inr dst"
  shows "\<exists>seg pkt. tcp sport dport seq ack flags payload = Inr seg \<and> ipv4 src dst (int PROTO_TCP) seg ident = Inr pkt
    \<and> length pkt \<le> 30100"
proof -
  obtain seg where seg: "tcp sport dport seq ack flags payload = Inr seg" "length seg = 20 + length payload"
    using assms(1-10) by (simp add: tcp_eq_Inr_iff)
  then have "length seg \<le> 30020" using assms(11) by simp
  moreover have "ip_bytes src = Inr s" "length s = 4" "ip_bytes dst = Inr d" "length d = 4"
    using assms(14,15) by (auto dest: ip_bytes_ip_str)
  ultimately have "\<exists>pkt. ipv4 src dst (int PROTO_TCP) seg ident = Inr pkt \<and> length pkt \<le> 30100"
    using assms(12,13) by (simp add: ipv4_eq_Inr_iff Let_def PROTO_TCP_def pack_s_exact)
  with seg(1) show ?thesis by blast
qed

definition recorded :: "(ustr \<times> bytes) list \<Rightarrow> (rat \<times> bytes) list \<Rightarrow> bool" where
  "recorded spec packets \<longleftrightarrow> list_all2 (\<lambda>(ts, d) (k, p). carries k p d) packets spec
     \<and> (\<forall>(ts, d) \<in> set packets. 0 \<le> ts \<and> ts < 4294967295 \<and> length d < 256 ^ 4)"

definition fx_ok :: "(ustr \<times> bytes) list \<Rightarrow> fixture \<Rightarrow> bool" where
  "fx_ok spec fx \<longleftrightarrow> recorded spec (fx_packets fx)
     \<and> 0 \<le> fx_ts fx \<and> fx_ts fx \<le> 1757000000 + of_nat (length spec)
     \<and> 0 \<le> fx_ident fx \<and> fx_ident fx \<le> 1 + int (length spec)
     \<and> 0 \<le> fx_c_seq fx \<and> fx_c_seq fx \<le> 1000 + 30000 * int (length spec)
     \<and> 0 \<le> fx_s_seq fx \<and> fx_s_seq fx \<le> 5000 + 30000 * int (length spec)"

lemma exchange_bind:
  assumes "\<exists>fx'. m = Inr fx' \<and> fx_ok spec fx'" "\<And>fx'. fx_ok spec fx' \<Longrightarrow> \<exists>ps. k fx' = Inr ps \<and> Q ps"
  shows "\<exists>ps. rbind m k = Inr ps \<and> Q ps"
  using assms by auto

lemma fixture0_ok: "fx_ok [] fixture0"
  by (simp add: fx_ok_def recorded_def fixture0_def)

lemma c2s_ok:
  assumes "fx_ok spec fx" "length spec \<le> 100" "length payload \<le> 30000" "0 \<le> flags" "flags < 256"
  shows "\<exists>fx'. c2s flags payload fx = Inr fx' \<and> fx_ok (spec @ [(C2S_KEY, payload)]) fx'"
proof -
  obtain seg pkt where b: "tcp CLIENT_PORT SERVER_PORT (fx_c_seq fx) (fx_s_seq fx) flags payload = Inr seg"
    "ipv4 CLIENT_IP SERVER_IP (int PROTO_TCP) seg (fx_ident fx) = Inr pkt" "length pkt \<le> 30100"
    using built_exists [OF _ _ _ _ _ _ _ _ assms(4,5,3) _ _ ip_texts,
        of CLIENT_PORT SERVER_PORT "fx_c_seq fx" "fx_s_seq fx" "fx_ident fx"] assms(1,2)
    by (auto simp: fx_ok_def CLIENT_PORT_def SERVER_PORT_def)
  have "carries C2S_KEY payload (ethernet CLIENT_MAC SERVER_MAC pkt)"
    by (rule carries_built [OF b(1,2) ip_texts]) (simp_all add: CLIENT_MAC_def SERVER_MAC_def keys)
  moreover have "length (ethernet CLIENT_MAC SERVER_MAC pkt) < 256 ^ 4" "fx_ts fx < 4294967295"
    using b(3) assms(1,2) by (simp_all add: ethernet_def pack_s_def fx_ok_def)
  ultimately show ?thesis
    using b(1,2) assms by (auto simp: c2s_def fx_ok_def recorded_def PROTO_TCP_def list_all2_appendI)
qed

lemma s2c_ok:
  assumes "fx_ok spec fx" "length spec \<le> 100" "length payload \<le> 30000" "0 \<le> flags" "flags < 256"
  shows "\<exists>fx'. s2c flags payload fx = Inr fx' \<and> fx_ok (spec @ [(S2C_KEY, payload)]) fx'"
proof -
  obtain seg pkt where b: "tcp SERVER_PORT CLIENT_PORT (fx_s_seq fx) (fx_c_seq fx) flags payload = Inr seg"
    "ipv4 SERVER_IP CLIENT_IP (int PROTO_TCP) seg (fx_ident fx) = Inr pkt" "length pkt \<le> 30100"
    using built_exists [OF _ _ _ _ _ _ _ _ assms(4,5,3) _ _ ip_texts(2,1),
        of SERVER_PORT CLIENT_PORT "fx_s_seq fx" "fx_c_seq fx" "fx_ident fx"] assms(1,2)
    by (auto simp: fx_ok_def CLIENT_PORT_def SERVER_PORT_def)
  have "carries S2C_KEY payload (ethernet SERVER_MAC CLIENT_MAC pkt)"
    by (rule carries_built [OF b(1,2) ip_texts(2,1)]) (simp_all add: CLIENT_MAC_def SERVER_MAC_def keys)
  moreover have "length (ethernet SERVER_MAC CLIENT_MAC pkt) < 256 ^ 4" "fx_ts fx < 4294967295"
    using b(3) assms(1,2) by (simp_all add: ethernet_def pack_s_def fx_ok_def)
  ultimately show ?thesis
    using b(1,2) assms by (auto simp: s2c_def fx_ok_def recorded_def PROTO_TCP_def list_all2_appendI)
qed

lemmas c2s_bind = exchange_bind [OF c2s_ok] and s2c_bind = exchange_bind [OF s2c_ok]

text \<open>The frames of the session, and the payload of each of its packets.\<close>

definition session_frames :: "bytes \<Rightarrow> bytes \<Rightarrow> frame list \<times> frame list" where
  "session_frames hello hello_ack =
     ([mk_frame HELLO 0 hello 0, mk_frame DATA 1 DATA_TEXT 0, mk_frame BYE 2 [] 0],
      [mk_frame HELLO_ACK 0 hello_ack 0, mk_frame DATA 1 DATA_TEXT 0])"

definition session_spec :: "bytes \<Rightarrow> bytes \<Rightarrow> (ustr \<times> bytes) list" where
  "session_spec hello hello_ack =
     (let data = wire SECRET (mk_frame DATA 1 DATA_TEXT 0)
      in [(C2S_KEY, []), (S2C_KEY, []), (C2S_KEY, []), (C2S_KEY, wire SECRET (mk_frame HELLO 0 hello 0)),
          (S2C_KEY, wire SECRET (mk_frame HELLO_ACK 0 hello_ack 0)), (C2S_KEY, take 30 data), (C2S_KEY, drop 30 data),
          (S2C_KEY, data), (C2S_KEY, wire SECRET (mk_frame BYE 2 [] 0)), (S2C_KEY, []), (C2S_KEY, [])])"

lemma frames_small:
  assumes "length hello \<le> 20000" "length hello_ack \<le> 20000"
  shows "list_all frame_ok (fst (session_frames hello hello_ack))" "list_all frame_ok (snd (session_frames hello hello_ack))"
    "frame_ok (mk_frame DATA 1 DATA_TEXT 0)" "length DATA_TEXT = 39"
  using assms by (simp_all add: session_frames_def frame_ok_def MAX_SEQ_def MAX_PAYLOAD_def DATA_TEXT_def)

lemma tcp_session_ok:
  assumes "length (rng NONCE_BYTES) = NONCE_BYTES" "length (rng' NONCE_BYTES) = NONCE_BYTES"
  shows "\<exists>hello hello_ack packets. encode_hello rng (ascii ''capture'') None = Inr hello
    \<and> encode_hello_ack rng' (ascii ''cap01'') None = Inr hello_ack \<and> length hello \<le> 20000 \<and> length hello_ack \<le> 20000
    \<and> tcp_session rng rng' = Inr packets \<and> recorded (session_spec hello hello_ack) packets"
proof -
  have a: "list_all (\<lambda>c. c < 128) (ascii ''capture'')" "list_all (\<lambda>c. c < 128) (ascii ''cap01'')" by code_simp+
  obtain hello where h1: "encode_hello rng (ascii ''capture'') None = Inr hello" "length hello \<le> 20000"
    using encode_hello_fits [OF a(1), of rng] assms(1) by auto
  obtain hello_ack where h2: "encode_hello_ack rng' (ascii ''cap01'') None = Inr hello_ack" "length hello_ack \<le> 20000"
    using encode_hello_ack_fits [OF a(2), of rng'] assms(2) by auto
  note h = h1(1) h2(1) h1(2) h2(2)
  note ok = frames_small [OF h(3,4)]
  have enc: "encode (mk_frame HELLO 0 hello 0) SECRET = Inr (wire SECRET (mk_frame HELLO 0 hello 0))"
    "encode (mk_frame HELLO_ACK 0 hello_ack 0) SECRET = Inr (wire SECRET (mk_frame HELLO_ACK 0 hello_ack 0))"
    "encode (mk_frame DATA 1 DATA_TEXT 0) SECRET = Inr (wire SECRET (mk_frame DATA 1 DATA_TEXT 0))"
    "encode (mk_frame BYE 2 [] 0) SECRET = Inr (wire SECRET (mk_frame BYE 2 [] 0))"
    using ok by (simp_all add: session_frames_def encode_wire)
  have len: "length (wire SECRET (mk_frame t q p fl)) = 51 + length p" for t q p fl
    by (simp add: wire_def frame_bytes_def frame_mac_def)
  have b: "length hello \<le> 29949" "length hello_ack \<le> 29949" using h(3,4) by simp_all
  have "\<exists>packets. tcp_session rng rng' = Inr packets \<and> recorded (session_spec hello hello_ack) packets"
    unfolding tcp_session_def h(1,2) enc rbind_Inr
    by (rule c2s_bind [OF fixture0_ok], simp, simp, simp, simp,
        (rule c2s_bind s2c_bind, assumption, simp, simp add: len b ok(4), simp, simp)+)
      (simp add: fx_ok_def session_spec_def Let_def)
  with h show ?thesis by auto
qed

end
