(* ===== verification/Fixture_Props.thy ===== *)
theory Fixture_Props
  imports Fixture_Facts
begin

text \<open>
  What holds of the capture fixtures and, through them, of the whole analyser: written to a
  capture file, read back, dissected and reassembled.
\<close>

section \<open>Single packets\<close>

text \<open>
  The header that \<^verbatim>\<open>ipv4\<close> builds is one that a receiver accepts: the checksum over it, its own
  field included, is zero; the length field is the length of the packet; the payload follows.
\<close>

theorem checksum_verifies:
  assumes "ipv4 src dst proto payload ident = Inr pkt"
  shows "checksum (take 20 pkt) = 0 \<and> be_nat (pyslice 2 4 pkt) = length pkt \<and> drop 20 pkt = payload"
proof -
  from assms obtain s d where n: "20 + length payload < 65536" and pkt:
    "let h = ip_head (20 + length payload) (nat ident) (nat proto); t = pack_s 4 s @ pack_s 4 d
     in pkt = h @ be_bytes 2 (checksum (h @ [0, 0] @ t)) @ t @ payload"
    unfolding ipv4_eq_Inr_iff by blast
  let ?h = "ip_head (20 + length payload) (nat ident) (nat proto)" and ?t = "pack_s 4 s @ pack_s 4 d"
  have pkt: "pkt = (?h @ be_bytes 2 (checksum (?h @ [0, 0] @ ?t)) @ ?t) @ payload"
    using pkt by (simp add: Let_def)
  have len: "length ?t = 8" by (simp add: pack_s_def)
  have "0 < sum_words (?h @ [0, 0] @ ?t)" by (simp add: ip_head_def push_bit_eq_mult)
  from checksum_filled [OF _ this] len have "checksum (take 20 pkt) = 0" by (simp add: pkt)
  moreover have "pyslice 2 4 pkt = be_bytes 2 (20 + length payload)"
    by (simp add: pkt ip_head_def be_bytes_2 pyslice_def)
  ultimately show ?thesis using len be_nat_2 [OF n] by (simp add: pkt)
qed

theorem checksum_verifies_witness:
  "\<exists>pkt. ipv4 CLIENT_IP SERVER_IP 17 [1, 2] 1 = Inr pkt \<and> checksum (take 20 pkt) = 0"
proof -
  have "\<exists>pkt. ipv4 CLIENT_IP SERVER_IP 17 [1, 2] 1 = Inr pkt"
    using ip_bytes_ip_str [OF ip_texts(1)] ip_bytes_ip_str [OF ip_texts(2)] by (simp add: ipv4_eq_Inr_iff Let_def)
  then show ?thesis using checksum_verifies by blast
qed

text \<open>
  C34. The analyser reads what the fixture builder wrote: a TCP or UDP packet assembled by hand yields
  the row with the two hardware addresses, the two IP addresses, the transport, the ports, the TCP
  flags, the payload and the frames found in it.
\<close>

theorem built_packet_dissected:
  assumes "proto = PROTO_TCP \<and> l4 = ascii ''TCP'' \<and> fl = tcp_flags (nat flags) \<and> tcp sport dport seq ack flags payload = Inr seg
      \<or> proto = PROTO_UDP \<and> l4 = ascii ''UDP'' \<and> fl = [] \<and> udp sport dport payload = Inr seg"
    and "ipv4 src dst (int proto) seg ident = Inr pkt"
    and "ip_str s = Inr src" "ip_str d = Inr dst" "length smac = 6" "length dmac = 6"
  shows "\<exists>infos. try_parse_wireline payload = Inr infos
    \<and> dissect_packet LINKTYPE_ETHERNET \<lparr>pk_timestamp = ts, pk_data = ethernet smac dmac pkt, pk_original_length = n\<rparr>
      = Inr (Some \<lparr>rw_ts = ts, rw_l2_src = mac_str smac, rw_l2_dst = mac_str dmac, rw_l3_src = src, rw_l3_dst = dst,
          rw_l4_proto = l4, rw_l4_sport = nat sport, rw_l4_dport = nat dport, rw_l4_flags = fl,
          rw_payload_len = length payload, rw_payload = payload, rw_l7 = infos, rw_note = []\<rparr>)"
proof -
  obtain infos where i: "try_parse_wireline payload = Inr infos"
    using parse_from_total [of payload 0] by (auto simp: try_parse_wireline_def)
  show ?thesis
    unfolding dissect_packet_ethernet [OF assms(5,6)] dissect_l3_built [OF assms(2-4)]
    using assms(1) i by (auto simp: dissect_l4_tcp dissect_l4_udp dissect_l7_def new_row_def)
qed

theorem built_packet_dissected_witness:
  "\<exists>seg pkt row. udp 51235 9001 [7] = Inr seg \<and> ipv4 CLIENT_IP SERVER_IP 17 seg 100 = Inr pkt
    \<and> dissect_packet LINKTYPE_ETHERNET \<lparr>pk_timestamp = 0, pk_data = ethernet CLIENT_MAC SERVER_MAC pkt, pk_original_length = 0\<rparr>
      = Inr (Some row) \<and> rw_payload row = [7] \<and> rw_l4_dport row = 9001"
proof -
  obtain seg where seg: "udp 51235 9001 [7] = Inr seg" "length seg = 9" by (simp add: udp_eq_Inr_iff)
  then obtain pkt where pkt: "ipv4 CLIENT_IP SERVER_IP 17 seg 100 = Inr pkt"
    using ip_bytes_ip_str [OF ip_texts(1)] ip_bytes_ip_str [OF ip_texts(2)] by (auto simp: ipv4_eq_Inr_iff Let_def)
  have "length CLIENT_MAC = 6" "length SERVER_MAC = 6" by (simp_all add: CLIENT_MAC_def SERVER_MAC_def)
  from built_packet_dissected [of PROTO_UDP "ascii ''UDP''" "[]", OF _ _ ip_texts this] seg pkt show ?thesis
    by (fastforce simp: PROTO_UDP_def)
qed

section \<open>The whole pipeline\<close>

lemma scan_rest_of_data:
  "try_parse_wireline (drop 30 (wire SECRET (mk_frame DATA 1 DATA_TEXT 0))) = Inr []"
proof -
  let ?m = "frame_mac (mk_frame DATA 1 DATA_TEXT 0) SECRET"
  have tail: "drop 30 (wire SECRET (mk_frame DATA 1 DATA_TEXT 0)) = drop 11 DATA_TEXT @ ?m"
    by (simp add: wire_def frame_bytes_def DATA_TEXT_def)
  have chars: "drop 11 DATA_TEXT = ascii_bytes ''t crosses a segment boundary''"
    by (simp add: DATA_TEXT_def ascii_bytes_def)
  have "decode_header (take 19 (drop 11 DATA_TEXT @ ?m)) \<noteq> Inr h" for h
    by (auto simp: decode_header_eq_Inr_iff chars ascii_bytes_def header_bytes_def MAGIC_def)
  then obtain e where e: "decode_header (take 19 (drop 11 DATA_TEXT @ ?m)) = Inl e"
    by (cases "decode_header (take 19 (drop 11 DATA_TEXT @ ?m))") auto
  then obtain c t where "e = ProtocolError c t" using decode_header_Inl is_protocol_errorE by metis
  with e show ?thesis
    unfolding tail try_parse_wireline_def by (subst parse_from.simps) (simp add: pyslice_0 HEADER_SIZE_def)
qed

lemma scans:
  assumes "length hello \<le> 20000" "length hello_ack \<le> 20000"
  shows "list_all2 (\<lambda>(k, p) is. try_parse_wireline p = Inr is) (session_spec hello hello_ack)
    [[], [], [], [info_of (header_of (mk_frame HELLO 0 hello 0))], [info_of (header_of (mk_frame HELLO_ACK 0 hello_ack 0))],
     [], [], [info_of (header_of (mk_frame DATA 1 DATA_TEXT 0))], [info_of (header_of (mk_frame BYE 2 [] 0))], [], []]"
proof -
  note ok = frames_small [OF assms]
  have one: "try_parse_wireline (wire SECRET f) = Inr [info_of (header_of f)]" if "frame_ok f" for f
    using scan_whole [of "[f]" SECRET] that by simp
  have none: "try_parse_wireline [] = Inr []" using scan_whole [of "[]" SECRET] by simp
  have "30 < length (wire SECRET (mk_frame DATA 1 DATA_TEXT 0))" by (simp add: wire_def frame_bytes_def frame_mac_def)
  from scan_cut [OF _ ok(3) this, of "[]"] have cut: "try_parse_wireline (take 30 (wire SECRET (mk_frame DATA 1 DATA_TEXT 0))) = Inr []"
    by simp
  show ?thesis
    using ok by (simp add: session_spec_def Let_def session_frames_def one none cut scan_rest_of_data)
qed

lemma session_payloads:
  assumes "list_all2 row_of rows (session_spec hello hello_ack)"
  shows "concat (payloads C2S_KEY rows) = concat (map (wire SECRET) (fst (session_frames hello hello_ack)))"
    "concat (payloads S2C_KEY rows) = concat (map (wire SECRET) (snd (session_frames hello hello_ack)))"
    "payloads C2S_KEY rows \<noteq> []" "payloads S2C_KEY rows \<noteq> []"
proof -
  have len: "length (wire SECRET f) = 51 + length (f_payload f)" for f
    by (simp add: wire_def frame_bytes_def frame_mac_def)
  have ne: "wire SECRET f \<noteq> []" for f using len [of f] by auto
  have cut: "take n w @ drop n w @ r = w @ r" for n and w r :: bytes
    by (metis append.assoc append_take_drop_id)
  have part: "take 30 (wire SECRET f) \<noteq> []" "drop 30 (wire SECRET f) \<noteq> []" for f
    by (simp_all add: ne len)
  show "concat (payloads C2S_KEY rows) = concat (map (wire SECRET) (fst (session_frames hello hello_ack)))"
    "concat (payloads S2C_KEY rows) = concat (map (wire SECRET) (snd (session_frames hello hello_ack)))"
    "payloads C2S_KEY rows \<noteq> []" "payloads S2C_KEY rows \<noteq> []"
    unfolding payloads_of_spec [OF assms] session_spec_def session_frames_def Let_def
    using keys_differ by (simp_all add: ne part cut del: take_eq_Nil drop_eq_Nil)
qed

text \<open>
  C29. The recorded TCP session through the whole analyser. Built, written to a file, read back,
  dissected: one row per packet. The scan of single packets sees the DATA frame of the server but
  not the one of the client, which is cut across two segments; reassembly recovers both directions
  completely and in order.
\<close>

theorem recorded_session_reassembles:
  assumes "length (rng NONCE_BYTES) = NONCE_BYTES" "length (rng' NONCE_BYTES) = NONCE_BYTES"
  shows "\<exists>hello hello_ack packets raw rows flows.
    encode_hello rng (ascii ''capture'') None = Inr hello \<and> encode_hello_ack rng' (ascii ''cap01'') None = Inr hello_ack
    \<and> tcp_session rng rng' = Inr packets \<and> write_packets packets (int LINKTYPE_ETHERNET) 65535 = Inr raw
    \<and> dissect raw = Inr rows \<and> length rows = 11
    \<and> summarise rows = [(ascii ''HELLO'', 1), (ascii ''HELLO_ACK'', 1), (ascii ''DATA'', 1), (ascii ''BYE'', 1)]
    \<and> reassemble_flows rows = Inr flows
    \<and> map_of flows (ascii ''10.0.0.10:51234 -> 10.0.0.20:9000'')
        = Some [mk_frame HELLO 0 hello 0, mk_frame DATA 1 DATA_TEXT 0, mk_frame BYE 2 [] 0]
    \<and> map_of flows (ascii ''10.0.0.20:9000 -> 10.0.0.10:51234'')
        = Some [mk_frame HELLO_ACK 0 hello_ack 0, mk_frame DATA 1 DATA_TEXT 0]"
proof -
  from tcp_session_ok [of rng rng'] assms obtain hello hello_ack packets where
    h: "encode_hello rng (ascii ''capture'') None = Inr hello" "encode_hello_ack rng' (ascii ''cap01'') None = Inr hello_ack"
      "length hello \<le> 20000" "length hello_ack \<le> 20000"
    and p: "tcp_session rng rng' = Inr packets" "recorded (session_spec hello hello_ack) packets" by blast
  note ok = frames_small [OF h(3,4)]
  obtain b where "write_records packets = Inr b"
    using p(2) write_records_total [of packets] unfolding recorded_def by blast
  then obtain raw where raw: "write_packets packets (int LINKTYPE_ETHERNET) 65535 = Inr raw"
    by (simp add: write_packets_def pack_le32s_simps pack_uint_def LINKTYPE_ETHERNET_def)
  obtain rows where rows: "dissect raw = Inr rows" "list_all2 row_of rows (session_spec hello hello_ack)"
    using dissect_written [OF _ raw] p(2) by (auto simp: recorded_def)
  have "length rows = 11" using list_all2_lengthD [OF rows(2)] by (simp add: session_spec_def Let_def)
  moreover have "summarise rows = [(ascii ''HELLO'', 1), (ascii ''HELLO_ACK'', 1), (ascii ''DATA'', 1), (ascii ''BYE'', 1)]"
    unfolding summarise_of_spec [OF rows(2) scans [OF h(3,4)]]
    by (simp add: count_info_def info_of_def ascii_def of_char_def)
  moreover obtain flows where flows: "reassemble_flows rows = Inr flows"
    using reassemble_rows_total [of rows "(Map.empty, [])"] by (auto simp: reassemble_flows_def)
  moreover have "map_of flows C2S_KEY = Some (fst (session_frames hello hello_ack))"
    using reassemble_flows_drain [of C2S_KEY rows] flows drain_observer [OF ok(1), of SECRET]
    by (simp add: session_payloads [OF rows(2)])
  moreover have "map_of flows S2C_KEY = Some (snd (session_frames hello hello_ack))"
    using reassemble_flows_drain [of S2C_KEY rows] flows drain_observer [OF ok(2), of SECRET]
    by (simp add: session_payloads [OF rows(2)])
  ultimately show ?thesis
    using h(1,2) p(1) raw rows(1) by (auto simp: C2S_KEY_def S2C_KEY_def session_frames_def)
qed

theorem recorded_session_reassembles_witness:
  "\<exists>packets raw rows flows. tcp_session (\<lambda>k. replicate k 0) (\<lambda>k. replicate k 0) = Inr packets
    \<and> write_packets packets (int LINKTYPE_ETHERNET) 65535 = Inr raw \<and> dissect raw = Inr rows \<and> length rows = 11
    \<and> reassemble_flows rows = Inr flows"
proof -
  have "length (replicate NONCE_BYTES (0 :: byte)) = NONCE_BYTES" by simp
  from recorded_session_reassembles [of "\<lambda>k. replicate k 0" "\<lambda>k. replicate k 0", OF this this] show ?thesis by blast
qed

section \<open>The fixture is not the same on every run\<close>

lemma carries_unique: "carries k p d \<Longrightarrow> carries k' p' d \<Longrightarrow> p = p'"
proof -
  have one: "\<exists>row. dissect_packet LINKTYPE_ETHERNET \<lparr>pk_timestamp = 0, pk_data = d, pk_original_length = 0\<rparr> = Inr (Some row)
      \<and> rw_payload row = q" if "carries j q d" for j q
    using that unfolding carries_def by blast
  assume "carries k p d" "carries k' p' d"
  from one [OF this(1)] one [OF this(2)] show ?thesis by auto
qed

lemma recorded_unique:
  assumes "recorded spec packets" "recorded spec' packets"
  shows "map snd spec = map snd spec'"
proof -
  have "map snd spec = map snd spec'"
    if "list_all2 (\<lambda>(ts, d) (k, p). carries k p d) packets spec" "list_all2 (\<lambda>(ts, d) (k, p). carries k p d) packets spec'"
    using that
  proof (induction packets spec arbitrary: spec' rule: list_all2_induct)
    case (Cons x xs y ys)
    from Cons(4) obtain z zs where z: "spec' = z # zs" "case x of (ts, d) \<Rightarrow> case z of (k, p) \<Rightarrow> carries k p d"
      "list_all2 (\<lambda>(ts, d) (k, p). carries k p d) xs zs" unfolding list_all2_Cons1 by blast
    have "snd y = snd z" using Cons(1) z(2) carries_unique by (cases x, cases y, cases z) simp
    with Cons(3) [OF z(3)] z(1) show ?case by simp
  qed simp
  with assms show ?thesis by (simp add: recorded_def)
qed

text \<open>
  The session file carries the nonce of its HELLO, which is drawn anew on every run: files built
  with different nonces differ, although the module promises a byte-identical fixture.
\<close>

theorem fixture_depends_on_nonce:
  assumes "length (rng NONCE_BYTES) = NONCE_BYTES" "length (rng' NONCE_BYTES) = NONCE_BYTES"
    "length (r NONCE_BYTES) = NONCE_BYTES" "length (r' NONCE_BYTES) = NONCE_BYTES"
    "tcp_session rng rng' = tcp_session r r'"
  shows "new_nonce rng = new_nonce r"
proof -
  from tcp_session_ok [of rng rng'] assms obtain hello hello_ack packets where
    a: "encode_hello rng (ascii ''capture'') None = Inr hello" "length hello \<le> 20000" "length hello_ack \<le> 20000"
      "tcp_session rng rng' = Inr packets" "recorded (session_spec hello hello_ack) packets" by blast
  from tcp_session_ok [of r r'] assms obtain hello' hello_ack' where
    b: "encode_hello r (ascii ''capture'') None = Inr hello'" "length hello' \<le> 20000" "length hello_ack' \<le> 20000"
      "recorded (session_spec hello' hello_ack') packets" using a(4) by auto
  have "wire SECRET (mk_frame HELLO 0 hello 0) = wire SECRET (mk_frame HELLO 0 hello' 0)"
    using recorded_unique [OF a(5) b(4)] by (simp add: session_spec_def Let_def)
  moreover have "frame_ok (mk_frame HELLO 0 hello 0)" "frame_ok (mk_frame HELLO 0 hello' 0)"
    using frames_small(1) [OF a(2,3)] frames_small(1) [OF b(2,3)] by (simp_all add: session_frames_def)
  ultimately have "mk_frame HELLO 0 hello 0 = mk_frame HELLO 0 hello' 0"
    using decode_wire by (metis sum.inject(2))
  then have "hello = hello'" by (metis mk_frame_sel(3))
  with decode_encoded_hello [OF a(1), of py_env0] decode_encoded_hello [OF b(1), of py_env0] show ?thesis
    by (simp add: py_env0_def)
qed

theorem fixture_depends_on_nonce_witness:
  "tcp_session (\<lambda>k. replicate k 0) (\<lambda>k. replicate k 0) \<noteq> tcp_session (\<lambda>k. replicate k 1) (\<lambda>k. replicate k 0)"
proof
  assume "tcp_session (\<lambda>k. replicate k 0) (\<lambda>k. replicate k 0) = tcp_session (\<lambda>k. replicate k 1) (\<lambda>k. replicate k 0)"
  then have "new_nonce (\<lambda>k. replicate k 0) = new_nonce (\<lambda>k. replicate k 1)"
    by (intro fixture_depends_on_nonce) simp_all
  moreover have "new_nonce (\<lambda>k. replicate k 0) \<noteq> new_nonce (\<lambda>k. replicate k 1)" by code_simp
  ultimately show False by contradiction
qed

end
