(* ===== verification/Lifecycle.thy ===== *)
theory Lifecycle
  imports Udp_Server
begin

text \<open>
  Starting and closing the two servers: the parts of \<^verbatim>\<open>src/wireline/server.py\<close> and
  \<^verbatim>\<open>src/wireline/transport/udp.py\<close> around the handlers. What \<^verbatim>\<open>asyncio\<close> returns or raises when it
  binds or serves is an argument; of a bound server only the names of its sockets matter.
\<close>

type_synonym sockname = "ustr \<times> int"

section \<open>The TCP listener\<close>

record tcp_listener = server +
  sv_listener :: "sockname list option"

definition new_listener :: "bytes \<Rightarrow> tcp_listener" where
  "new_listener secret = server.extend (new_server secret) \<lparr>sv_listener = None\<rparr>"

definition sv_address :: "tcp_listener \<Rightarrow> sockname res" where
  "sv_address sv =
     (case sv_listener sv of
        None \<Rightarrow> Inl (RuntimeError (ascii ''server is not started''))
      | Some [] \<Rightarrow> Inl (RuntimeError (ascii ''server has no bound socket''))
      | Some (s # _) \<Rightarrow> Inr s)"

text \<open>The address is read to log it, after the listener is recorded.\<close>

definition sv_start :: "sockname list res \<Rightarrow> tcp_listener \<Rightarrow> unit res \<times> tcp_listener" where
  "sv_start created sv =
     (case created of
        Inl e \<Rightarrow> (Inl e, sv)
      | Inr socks \<Rightarrow>
          let sv1 = sv\<lparr>sv_listener := Some socks\<rparr>
          in (rbind (sv_address sv1) (\<lambda>_. Inr ()), sv1))"

text \<open>Leaving \<^verbatim>\<open>async with self._server\<close> closes the listener, which then has no sockets; it stays set.\<close>

definition sv_serve_forever :: "sockname list res \<Rightarrow> unit res \<Rightarrow> tcp_listener \<Rightarrow> unit res \<times> tcp_listener" where
  "sv_serve_forever created forever sv =
     (case (if sv_listener sv = None then sv_start created sv else (Inr (), sv)) of
        (Inl e, sv1) \<Rightarrow> (Inl e, sv1)
      | (Inr _, sv1) \<Rightarrow> (forever, sv1\<lparr>sv_listener := Some []\<rparr>))"

definition sv_close :: "tcp_listener \<Rightarrow> tcp_listener" where
  "sv_close sv = (if sv_listener sv \<noteq> None then sv\<lparr>sv_listener := None\<rparr> else sv)"

section \<open>The UDP endpoint\<close>

record 'a udp_endpoint = "'a udp_server" +
  us_transport :: "sockname option"

definition new_endpoint :: "bytes \<Rightarrow> int \<Rightarrow> 'a udp_endpoint" where
  "new_endpoint secret dedup_window =
     udp_server.extend (new_udp_server secret dedup_window) \<lparr>us_transport = None\<rparr>"

text \<open>
  \<^verbatim>\<open>create_datagram_endpoint\<close> calls \<^verbatim>\<open>connection_made\<close>, that is \<^verbatim>\<open>_attach\<close>, with the transport.
\<close>

definition us_start :: "sockname res \<Rightarrow> 'a udp_endpoint \<Rightarrow> unit res \<times> 'a udp_endpoint" where
  "us_start created us =
     (case created of
        Inl e \<Rightarrow> (Inl e, us)
      | Inr s \<Rightarrow>
          (Inr (), udp_server.extend (us_attach (udp_server.truncate us)) \<lparr>us_transport = Some s\<rparr>))"

definition us_address :: "'a udp_endpoint \<Rightarrow> sockname res" where
  "us_address us =
     (case us_transport us of
        None \<Rightarrow> Inl (RuntimeError (ascii ''server is not started''))
      | Some s \<Rightarrow> Inr s)"

definition us_close :: "'a udp_endpoint \<Rightarrow> 'a udp_endpoint" where
  "us_close us = (if us_transport us \<noteq> None then us\<lparr>us_transport := None\<rparr> else us)"

section \<open>What starting and closing change\<close>

lemma sv_start_address:
  "sv_start (Inr (s # socks)) sv = (Inr (), sv1) \<Longrightarrow> sv_address sv1 = Inr s \<and> server.truncate sv1 = server.truncate sv"
  by (auto simp: sv_start_def sv_address_def server.defs)

lemma sv_serve_forever_result:
  assumes "sv_listener sv = None" "created = Inr (s # socks)"
  shows "fst (sv_serve_forever created forever sv) = forever"
  using assms by (simp add: sv_serve_forever_def sv_start_def sv_address_def)

lemma sv_close_address: "\<exists>t. sv_address (sv_close sv) = Inl (RuntimeError t)"
  by (cases "sv_listener sv") (simp_all add: sv_close_def sv_address_def)

text \<open>The send function outlives the transport: a closed endpoint still answers what it is handed.\<close>

lemma us_close_keeps_attached: "udp_server.truncate (us_close us) = udp_server.truncate us"
  by (simp add: us_close_def udp_server.defs)

end
