(* ===== verification/Cli.thy ===== *)
theory Cli
  imports Client_Props Dissect_Facts Lifecycle
begin

text \<open>
  \<^verbatim>\<open>src/wireline/config.py\<close> and \<^verbatim>\<open>src/wireline/__main__.py\<close>: the shared secret and the commands. What
  a command takes from outside (the environment variable, the connection, the capture file, the
  clock, the texts of exceptions of the standard library) is the record \<open>cli_env\<close>. A command
  yields what it prints and its exit code or exception. Parsing of the arguments is \<^verbatim>\<open>argparse\<close>'s.
\<close>

section \<open>Configuration\<close>

definition DEV_SECRET :: bytes where "DEV_SECRET = ascii_bytes ''dev-secret-not-for-real-use''"

text \<open>The second component: whether the fallback was warned about.\<close>

definition load_secret :: "ustr option \<Rightarrow> ustr option \<Rightarrow> bytes res \<times> bool" where
  "load_secret explicit env_value =
     (case explicit of
        Some (c # cs) \<Rightarrow> (utf8_encode (c # cs), False)
      | _ \<Rightarrow>
          (case env_value of
             Some (c # cs) \<Rightarrow> (utf8_encode (c # cs), False)
           | _ \<Rightarrow> (Inr DEV_SECRET, True)))"

section \<open>Arguments and environment\<close>

datatype command = Serve | Ping int | Send ustr | Sniff bool

record args =
  a_command :: command
  a_host :: ustr
  a_port :: int
  a_secret :: "ustr option"

record cli_env =
  ce_secret :: "ustr option"
  ce_py :: py_env
  ce_rng :: "nat \<Rightarrow> bytes"
  ce_opened :: "reader res"
  ce_created :: "sockname list res"
  ce_forever :: "unit res"
  ce_file :: "bytes res"
  ce_elapsed :: "nat \<Rightarrow> rat"
  ce_message :: "exn \<Rightarrow> ustr"

definition print_line :: "ustr \<Rightarrow> ustr" where
  "print_line s = s @ [10]"

text \<open>\<^verbatim>\<open>{x:.2f}\<close>\<close>

definition fixed2 :: "rat \<Rightarrow> ustr" where
  "fixed2 x = (let n = nat (py_round (x * 100)) in dec_nat (n div 100) @ ascii ''.'' @ dec_fixed 2 n)"

text \<open>\<^verbatim>\<open>bytes.decode("utf-8", errors="replace")\<close>: each range in error becomes U+FFFD.\<close>

function utf8_replace :: "nat list \<Rightarrow> ustr" where
  "utf8_replace [] = []"
| "utf8_replace (b # bs) =
     (case utf8_char b bs of
        Inl (reason, n) \<Rightarrow> 0xFFFD # utf8_replace (drop (n - 1) bs)
      | Inr (c, n) \<Rightarrow> c # utf8_replace (drop (n - 1) bs))"
  by pat_completeness auto
termination
  by (relation "measure length") auto

section \<open>Commands\<close>

definition cmd_serve :: "cli_env \<Rightarrow> args \<Rightarrow> ustr \<times> nat res" where
  "cmd_serve env args =
     ([], rbind (fst (load_secret (a_secret args) (ce_secret env))) (\<lambda>key.
            rbind (fst (sv_serve_forever (ce_created env) (ce_forever env) (new_listener key))) (\<lambda>_. Inr 0)))"

definition with_client ::
  "cli_env \<Rightarrow> args \<Rightarrow> (client \<Rightarrow> ustr \<times> unit res \<times> client) \<Rightarrow> (ustr \<times> nat res) \<times> bytes list"
where
  "with_client env args body =
     (case fst (load_secret (a_secret args) (ce_secret env)) of
        Inl e \<Rightarrow> (([], Inl e), [])
      | Inr key \<Rightarrow>
          (case async_with (ce_py env) (ce_rng env) (ce_opened env)
                  (new_client key (ascii ''wireline-cli'') DEFAULT_TIMEOUT) body of
             ((out, r), w) \<Rightarrow> ((out, rbind r (\<lambda>_. Inr 0)), w)))"

text \<open>The loop of \<^verbatim>\<open>_ping\<close> from round \<open>i\<close> on, with \<open>k\<close> rounds left.\<close>

fun ping_loop :: "(nat \<Rightarrow> rat) \<Rightarrow> int \<Rightarrow> nat \<Rightarrow> nat \<Rightarrow> client \<Rightarrow> ustr \<times> unit res \<times> client" where
  "ping_loop elapsed count i 0 cl = ([], Inr (), cl)"
| "ping_loop elapsed count i (Suc k) cl =
     (case cl_ping (ascii_bytes ''probe'') cl of
        (Inl e, cl1) \<Rightarrow> ([], Inl e, cl1)
      | (Inr _, cl1) \<Rightarrow>
          (case ping_loop elapsed count (i + 1) k cl1 of (out, r, cl2) \<Rightarrow>
             (print_line (ascii ''pong '' @ dec_nat (i + 1) @ ascii ''/'' @ dec_int count @ ascii ''  rtt=''
                @ fixed2 (elapsed i) @ ascii '' ms'') @ out, r, cl2)))"

definition cmd_ping :: "cli_env \<Rightarrow> args \<Rightarrow> int \<Rightarrow> (ustr \<times> nat res) \<times> bytes list" where
  "cmd_ping env args count =
     with_client env args (\<lambda>cl.
       case ping_loop (ce_elapsed env) count 0 (nat count) cl of (out, r, cl1) \<Rightarrow>
         (print_line (ascii ''session '' @ (case cl_session_id cl of None \<Rightarrow> ascii ''None'' | Some s \<Rightarrow> s)) @ out, r, cl1))"

definition cmd_send :: "cli_env \<Rightarrow> args \<Rightarrow> ustr \<Rightarrow> (ustr \<times> nat res) \<times> bytes list" where
  "cmd_send env args txt =
     with_client env args (\<lambda>cl.
       case utf8_encode txt of
         Inl e \<Rightarrow> ([], Inl e, cl)
       | Inr data \<Rightarrow>
           (case cl_send_data data cl of
              (Inl e, cl1) \<Rightarrow> ([], Inl e, cl1)
            | (Inr b, cl1) \<Rightarrow> (print_line (utf8_replace (map unat b)), Inr (), cl1)))"

definition counts_text :: "py_env \<Rightarrow> (ustr \<times> nat) list \<Rightarrow> ustr" where
  "counts_text py counts =
     (if counts = [] then ascii ''none''
      else 123 # join_comma (map (\<lambda>(k, n). repr_str py k @ ascii '': '' @ dec_nat n) counts) @ [125])"

definition flow_line :: "ustr \<times> frame list \<Rightarrow> ustr" where
  "flow_line kf =
     (let names = joined (ascii '', '')
            (map (\<lambda>f. msg_name (f_type f) @ ascii ''(seq='' @ dec_int (f_seq f) @ ascii '')'') (snd kf))
      in print_line (ascii ''  '' @ fst kf @ ascii '': '' @ (if names \<noteq> [] then names else ascii ''no complete messages'')))"

definition cmd_sniff :: "cli_env \<Rightarrow> bool \<Rightarrow> ustr \<times> nat res" where
  "cmd_sniff env flows =
     (case rbind (ce_file env) dissect of
        Inl e \<Rightarrow> ([], Inl e)
      | Inr rows \<Rightarrow>
          let out = concat (map print_line (format_rows rows))
                @ print_line ([10] @ dec_nat (length rows) @ ascii '' packets, wireline messages seen per packet: ''
                    @ counts_text (ce_py env) (summarise rows))
          in if \<not> flows then (out, Inr 0)
             else
               let out = out @ print_line ([10] @ ascii ''reassembled per direction:'')
               in (case reassemble_flows rows of
                     Inl e \<Rightarrow> (out, Inl e)
                   | Inr fl \<Rightarrow> (out @ concat (map flow_line fl), Inr 0)))"

section \<open>Failures and exit codes\<close>

text \<open>\<^verbatim>\<open>type(exc).__name__\<close>; the plain \<^verbatim>\<open>OSError\<close> of the model stands for its other subclasses.\<close>

fun exn_class :: "exn \<Rightarrow> ustr" where
  "exn_class (ProtocolError _ _) = ascii ''ProtocolError''"
| "exn_class StructError = ascii ''error''"
| "exn_class ValueError = ascii ''ValueError''"
| "exn_class RecursionError = ascii ''RecursionError''"
| "exn_class UnicodeEncodeError = ascii ''UnicodeEncodeError''"
| "exn_class IndexError = ascii ''IndexError''"
| "exn_class KeyError = ascii ''KeyError''"
| "exn_class IncompleteReadError = ascii ''IncompleteReadError''"
| "exn_class TimeoutError = ascii ''TimeoutError''"
| "exn_class ConnectionResetError = ascii ''ConnectionResetError''"
| "exn_class AssertionError = ascii ''AssertionError''"
| "exn_class (PcapError _) = ascii ''PcapError''"
| "exn_class OSError = ascii ''OSError''"
| "exn_class ConnectionRefusedError = ascii ''ConnectionRefusedError''"
| "exn_class KeyboardInterrupt = ascii ''KeyboardInterrupt''"
| "exn_class (RuntimeError _) = ascii ''RuntimeError''"
| "exn_class TypeError = ascii ''TypeError''"
| "exn_class ZeroDivisionError = ascii ''ZeroDivisionError''"
| "exn_class OverflowError = ascii ''OverflowError''"
| "exn_class UnicodeError = ascii ''UnicodeError''"

definition exn_detail :: "(exn \<Rightarrow> ustr) \<Rightarrow> exn \<Rightarrow> ustr" where
  "exn_detail message e =
     (case e of ProtocolError c m \<Rightarrow> error_text c m | PcapError t \<Rightarrow> t | RuntimeError t \<Rightarrow> t | _ \<Rightarrow> message e)"

definition describe_failure :: "(exn \<Rightarrow> ustr) \<Rightarrow> exn \<Rightarrow> args \<Rightarrow> ustr" where
  "describe_failure message e args =
     (let detail = exn_detail message e;
          txt = ascii ''wireline: '' @ exn_class e @ (if detail \<noteq> [] then ascii '': '' @ detail else []);
          address = a_host args @ ascii '':'' @ dec_int (a_port args)
      in case e of
           ConnectionRefusedError \<Rightarrow> txt @ ascii '' - is a server listening on '' @ address @ ascii ''?''
         | TimeoutError \<Rightarrow> txt @ ascii '' - no reply from '' @ address @ ascii '' in time''
         | ProtocolError c _ \<Rightarrow>
             if c = ERR_AUTH then txt @ ascii '' - do client and server use the same WIRELINE_SECRET?'' else txt
         | _ \<Rightarrow> txt)"

text \<open>The second except clause of \<^verbatim>\<open>main\<close>, subclasses of \<^verbatim>\<open>OSError\<close> and \<^verbatim>\<open>EOFError\<close> included.\<close>

fun expected_failure :: "exn \<Rightarrow> bool" where
  "expected_failure (ProtocolError _ _) = True"
| "expected_failure (PcapError _) = True"
| "expected_failure OSError = True"
| "expected_failure ConnectionRefusedError = True"
| "expected_failure ConnectionResetError = True"
| "expected_failure TimeoutError = True"
| "expected_failure IncompleteReadError = True"
| "expected_failure _ = False"

definition run_command :: "cli_env \<Rightarrow> args \<Rightarrow> ustr \<times> nat res" where
  "run_command env args =
     (case a_command args of
        Sniff flows \<Rightarrow> cmd_sniff env flows
      | Serve \<Rightarrow> cmd_serve env args
      | Ping count \<Rightarrow> fst (cmd_ping env args count)
      | Send txt \<Rightarrow> fst (cmd_send env args txt))"

text \<open>Standard output, standard error, and the exit code or the exception that escapes.\<close>

definition main_cmd :: "cli_env \<Rightarrow> args \<Rightarrow> ustr \<times> ustr \<times> nat res" where
  "main_cmd env args =
     (case run_command env args of
        (out, Inr n) \<Rightarrow> (out, [], Inr n)
      | (out, Inl e) \<Rightarrow>
          if e = KeyboardInterrupt then (out, [], Inr 130)
          else if expected_failure e then (out, print_line (describe_failure (ce_message env) e args), Inr 1)
          else (out, [], Inl e))"

end
