(* ===== verification/Startup.thy ===== *)
theory Startup
  imports Cli
begin

text \<open>
  The start of \<^verbatim>\<open>src/wireline/__main__.py\<close>: the options of the commands, and \<^verbatim>\<open>main\<close> from the command
  line on. The options are data. Of \<^verbatim>\<open>argparse\<close> the model has the plain use of them: the command
  first, then options spelled in full, each with its value as the next word. \<^verbatim>\<open>None\<close> stands for
  everything else: what \<^verbatim>\<open>argparse\<close> refuses or answers with help, and its other spellings
  (abbreviations, \<^verbatim>\<open>--name=value\<close>, values that start with a dash, numbers that are not plain digits).
\<close>

section \<open>Options as data\<close>

record cli_values =
  cv_host :: ustr
  cv_port :: int
  cv_secret :: "ustr option"
  cv_log_level :: ustr
  cv_count :: int
  cv_text :: "ustr option"
  cv_path :: "ustr option"
  cv_flows :: bool

definition default_values :: cli_values where
  "default_values = \<lparr>cv_host = ascii ''127.0.0.1'', cv_port = 9000, cv_secret = None, cv_log_level = ascii ''INFO'',
     cv_count = 3, cv_text = None, cv_path = None, cv_flows = False\<rparr>"

definition plain_int :: "ustr \<Rightarrow> int option" where
  "plain_int v = (if v \<noteq> [] \<and> list_all is_digit v \<and> length v \<le> 4300 then Some (int (digits_nat v)) else None)"

datatype opt_action = Store "ustr \<Rightarrow> cli_values \<Rightarrow> cli_values option" | Store_true "cli_values \<Rightarrow> cli_values"

type_synonym opt_spec = "(ustr \<times> opt_action) list"

definition common_options :: opt_spec where
  "common_options =
     [(ascii ''--host'', Store (\<lambda>v c. Some (c\<lparr>cv_host := v\<rparr>))),
      (ascii ''--port'', Store (\<lambda>v c. map_option (\<lambda>n. c\<lparr>cv_port := n\<rparr>) (plain_int v))),
      (ascii ''--secret'', Store (\<lambda>v c. Some (c\<lparr>cv_secret := Some v\<rparr>))),
      (ascii ''--log-level'', Store (\<lambda>v c. Some (c\<lparr>cv_log_level := v\<rparr>)))]"

text \<open>Each command: its name, its options, and whether it takes a path.\<close>

definition subcommands :: "(ustr \<times> opt_spec \<times> bool) list" where
  "subcommands =
     [(ascii ''serve'', common_options, False),
      (ascii ''ping'', common_options
         @ [(ascii ''--count'', Store (\<lambda>v c. map_option (\<lambda>n. c\<lparr>cv_count := n\<rparr>) (plain_int v)))], False),
      (ascii ''send'', common_options @ [(ascii ''--text'', Store (\<lambda>v c. Some (c\<lparr>cv_text := Some v\<rparr>)))], False),
      (ascii ''sniff'', common_options @ [(ascii ''--flows'', Store_true (\<lambda>c. c\<lparr>cv_flows := True\<rparr>))], True)]"

section \<open>Reading a command line\<close>

definition plain_word :: "ustr \<Rightarrow> bool" where
  "plain_word v \<longleftrightarrow> v = [] \<or> hd v \<noteq> 45"

fun parse_words :: "opt_spec \<Rightarrow> bool \<Rightarrow> ustr list \<Rightarrow> cli_values \<Rightarrow> cli_values option" where
  "parse_words opts path [] c = Some c"
| "parse_words opts path (t # ts) c =
     (case map_of opts t of
        Some (Store f) \<Rightarrow>
          (case ts of
             [] \<Rightarrow> None
           | v # ts' \<Rightarrow> if plain_word v then Option.bind (f v c) (parse_words opts path ts') else None)
      | Some (Store_true g) \<Rightarrow> parse_words opts path ts (g c)
      | None \<Rightarrow>
          if plain_word t \<and> path \<and> cv_path c = None then parse_words opts path ts (c\<lparr>cv_path := Some t\<rparr>)
          else None)"

text \<open>The namespace of a command; a required option or argument that is missing is an error.\<close>

record parsed_args = args +
  pa_log_level :: ustr
  pa_path :: "ustr option"

definition to_args :: "command \<Rightarrow> cli_values \<Rightarrow> parsed_args" where
  "to_args cmd c = \<lparr>a_command = cmd, a_host = cv_host c, a_port = cv_port c, a_secret = cv_secret c,
     pa_log_level = cv_log_level c, pa_path = cv_path c\<rparr>"

definition finish_args :: "ustr \<Rightarrow> cli_values \<Rightarrow> parsed_args option" where
  "finish_args name c =
     (if name = ascii ''serve'' then Some (to_args Serve c)
      else if name = ascii ''ping'' then Some (to_args (Ping (cv_count c)) c)
      else if name = ascii ''send'' then map_option (\<lambda>t. to_args (Send t) c) (cv_text c)
      else map_option (\<lambda>p. to_args (Sniff (cv_flows c)) c) (cv_path c))"

definition parse_args :: "ustr list \<Rightarrow> parsed_args option" where
  "parse_args argv =
     (case argv of
        [] \<Rightarrow> None
      | name # ws \<Rightarrow>
          (case map_of subcommands name of
             None \<Rightarrow> None
           | Some (opts, path) \<Rightarrow> Option.bind (parse_words opts path ws default_values) (finish_args name)))"

section \<open>Logging\<close>

text \<open>
  \<^verbatim>\<open>getattr(logging, name, logging.INFO)\<close> for a name in capitals: the attributes of the module that
  are spelled so are its levels and two other objects. Setting the level to a text that names no
  level raises ValueError, to an object that is neither text nor number TypeError.
\<close>

datatype log_attr = Log_level nat | Log_text | Log_object

definition logging_attrs :: "(ustr \<times> log_attr) list" where
  "logging_attrs =
     [(ascii ''CRITICAL'', Log_level 50), (ascii ''FATAL'', Log_level 50), (ascii ''ERROR'', Log_level 40),
      (ascii ''WARNING'', Log_level 30), (ascii ''WARN'', Log_level 30), (ascii ''INFO'', Log_level 20),
      (ascii ''DEBUG'', Log_level 10), (ascii ''NOTSET'', Log_level 0), (ascii ''BASIC_FORMAT'', Log_text),
      (ascii ''_STYLES'', Log_object)]"

record log_root =
  lr_handlers :: nat
  lr_level :: nat

definition log_start :: log_root where
  "log_start = \<lparr>lr_handlers = 0, lr_level = 30\<rparr>"

text \<open>
  \<^verbatim>\<open>basicConfig\<close> does nothing once there is a handler, and adds one before it sets the level.
  \<open>upper\<close> is \<^verbatim>\<open>str.upper\<close>.
\<close>

definition setup_logging :: "(ustr \<Rightarrow> ustr) \<Rightarrow> ustr \<Rightarrow> log_root \<Rightarrow> unit res \<times> log_root" where
  "setup_logging upper level lr =
     (let attr = (case map_of logging_attrs (upper level) of None \<Rightarrow> Log_level 20 | Some a \<Rightarrow> a)
      in if lr_handlers lr \<noteq> 0 then (Inr (), lr)
         else
           let lr1 = lr\<lparr>lr_handlers := 1\<rparr>
           in case attr of
                Log_level n \<Rightarrow> (Inr (), lr1\<lparr>lr_level := n\<rparr>)
              | Log_text \<Rightarrow> (Inl ValueError, lr1)
              | Log_object \<Rightarrow> (Inl TypeError, lr1))"

section \<open>The whole of \<^verbatim>\<open>main\<close>\<close>

text \<open>The files are a function from paths; logging is set up before the \<^verbatim>\<open>try\<close>.\<close>

definition main_argv ::
  "(ustr \<Rightarrow> ustr) \<Rightarrow> (ustr \<Rightarrow> bytes res) \<Rightarrow> cli_env \<Rightarrow> ustr list \<Rightarrow> (ustr \<times> ustr \<times> nat res) option"
where
  "main_argv upper files env argv =
     map_option (\<lambda>p.
       case fst (setup_logging upper (pa_log_level p) log_start) of
         Inl e \<Rightarrow> ([], [], Inl e)
       | Inr _ \<Rightarrow>
           main_cmd (case pa_path p of None \<Rightarrow> env | Some f \<Rightarrow> env\<lparr>ce_file := files f\<rparr>) (args.truncate p))
       (parse_args argv)"

end
