(* ===== verification/Cli_Props.thy ===== *)
theory Cli_Props
  imports Cli
begin

text \<open>
  Properties of the commands: how each run of the program ends, and that \<^verbatim>\<open>ping\<close> and \<^verbatim>\<open>send\<close>
  against a server with the same secret print what they should.
\<close>

section \<open>What a command can raise\<close>

definition escaping :: "exn set" where
  "escaping = {ValueError, RecursionError, UnicodeEncodeError}"

definition cmd_exn :: "exn \<Rightarrow> bool" where
  "cmd_exn e \<longleftrightarrow> expected_failure e \<or> e \<in> escaping"

text \<open>
  What a command lets pass from outside: the exception of opening its connection, of creating or
  running its server, or of reading its file. It may be any exception: the port is not checked
  before it is used, and neither is the host.
\<close>

definition from_outside :: "cli_env \<Rightarrow> command \<Rightarrow> exn \<Rightarrow> bool" where
  "from_outside env c e =
     (case c of
        Serve \<Rightarrow> ce_created env = Inl e \<or> ce_forever env = Inl e
      | Ping _ \<Rightarrow> ce_opened env = Inl e
      | Send _ \<Rightarrow> ce_opened env = Inl e
      | Sniff _ \<Rightarrow> ce_file env = Inl e)"

lemma expected_protocol: "is_protocol_error e \<Longrightarrow> expected_failure e"
  by (auto elim: is_protocol_errorE)

lemma cmd_exn_load: "load_exn e \<Longrightarrow> cmd_exn e"
  by (auto simp: load_exn_def cmd_exn_def escaping_def expected_protocol)

lemma cmd_exn_read: "read_exn e \<Longrightarrow> cmd_exn e"
  by (auto simp: read_exn_def cmd_exn_def)

lemma encode_hello_Inl: "encode_hello rng cid n = Inl e \<Longrightarrow> e \<in> escaping"
  by (auto simp: encode_hello_def dump_obj_def escaping_def dest: utf8_encode_Inl split: if_split_asm)

lemma encode_Inl: "encode f secret = Inl e \<Longrightarrow> expected_failure e"
  using encode_not_ok [of f secret] encode_frame_ok [of f secret] by (cases "frame_ok f") auto

lemma cl_send_Inl: "cl_send t p fl cl = (Inl e, cl') \<Longrightarrow> expected_failure e"
  by (auto simp: cl_send_def cl_next_seq_def dest: encode_Inl split: option.split_asm sum.split_asm prod.split_asm)

lemma cl_recv_Inl: "cl_recv cl = (Inl e, cl') \<Longrightarrow> cmd_exn e"
  by (auto simp: cl_recv_def Let_def cmd_exn_def dest!: wait_frame_Inl cmd_exn_read
      split: option.split_asm sum.split_asm prod.split_asm if_split_asm)

lemma cl_handshake_Inl: "cl_handshake env rng cl = (Inl e, cl') \<Longrightarrow> cmd_exn e"
  by (auto simp: cl_handshake_def cmd_exn_def dest!: encode_hello_Inl cl_send_Inl cl_recv_Inl
        decode_error_Inl [THEN cmd_exn_load] decode_hello_ack_Inl [THEN cmd_exn_load]
      split: sum.split_asm prod.split_asm if_split_asm)

lemma cl_request_Inl: "cl_request t p fl cl = (Inl e, cl') \<Longrightarrow> cmd_exn e"
  by (auto simp: cl_request_def cmd_exn_def dest: cl_send_Inl cl_recv_Inl
      split: sum.split_asm prod.split_asm if_split_asm)

lemma cl_close_Inl: "cl_close cl = (Inl e, w, cl') \<Longrightarrow> expected_failure e"
  by (auto simp: cl_close_def Let_def dest: cl_send_Inl
      split: option.split_asm sum.split_asm prod.split_asm if_split_asm)

lemma ping_loop_Inl: "ping_loop el count i k cl = (out, Inl e, cl') \<Longrightarrow> cmd_exn e"
  by (induction el count i k cl arbitrary: out cl' rule: ping_loop.induct)
    (auto simp: cl_ping_def dest: cl_request_Inl split: sum.split_asm prod.split_asm)

lemma load_secret_Inl: "fst (load_secret explicit v) = Inl e \<Longrightarrow> e = UnicodeEncodeError"
  by (auto simp: load_secret_def split: option.split_asm list.split_asm simp del: utf8_encode.simps dest: utf8_encode_Inl)

lemma async_with_Inl:
  assumes "async_with env rng opened cl body = ((out, Inl e), w)"
    and "\<And>cl out e cl'. body cl = (out, Inl e, cl') \<Longrightarrow> cmd_exn e"
  shows "cmd_exn e \<or> opened = Inl e"
proof -
  obtain r cl1 where c: "cl_connect env rng opened cl = (r, cl1)" by force
  show ?thesis
  proof (cases r)
    case (Inl x)
    with c assms(1) have "x = e" by (simp add: async_with_def)
    with c Inl show ?thesis by (auto simp: cl_connect_def dest: cl_handshake_Inl split: sum.split_asm)
  next
    case r: (Inr u)
    obtain out1 r1 cl2 where b: "body cl1 = (out1, r1, cl2)" by (cases "body cl1") auto
    obtain r2 w' cl3 where cl: "cl_close cl2 = (r2, w', cl3)" by (cases "cl_close cl2") auto
    show ?thesis
      using assms(1) c r b cl assms(2) [of cl1 out1 e cl2] cl_close_Inl [of cl2 e w' cl3]
      by (cases r1; cases r2) (auto simp: async_with_def cmd_exn_def)
  qed
qed

lemma with_client_Inl:
  assumes "fst (with_client env args body) = (out, Inl e)"
    "\<And>cl out e cl'. body cl = (out, Inl e, cl') \<Longrightarrow> cmd_exn e"
  shows "cmd_exn e \<or> ce_opened env = Inl e"
proof (cases "fst (load_secret (a_secret args) (ce_secret env))")
  case (Inl x)
  with assms(1) show ?thesis by (auto simp: with_client_def cmd_exn_def escaping_def dest: load_secret_Inl)
next
  case (Inr key)
  let ?w = "async_with (ce_py env) (ce_rng env) (ce_opened env) (new_client key (ascii ''wireline-cli'') DEFAULT_TIMEOUT) body"
  obtain out' r w where w: "?w = ((out', r), w)" by (metis prod.collapse)
  with assms(1) Inr have r: "r = Inl e" by (auto simp: with_client_def rbind_eq_Inl_iff)
  from async_with_Inl [OF w [unfolded r]] assms(2) show ?thesis by blast
qed

section \<open>How a run ends\<close>

text \<open>The failures that are reported in one line, and that line.\<close>

definition reported :: "exn \<Rightarrow> bool" where
  "reported e \<longleftrightarrow> (\<exists>c m. e = ProtocolError c m) \<or> (\<exists>t. e = PcapError t)
     \<or> e \<in> {OSError, ConnectionRefusedError, ConnectionResetError, TimeoutError, IncompleteReadError}"

definition advice :: "exn \<Rightarrow> args \<Rightarrow> ustr" where
  "advice e args =
     (let address = a_host args @ ascii '':'' @ dec_int (a_port args)
      in if e = ConnectionRefusedError then ascii '' - is a server listening on '' @ address @ ascii ''?''
         else if e = TimeoutError then ascii '' - no reply from '' @ address @ ascii '' in time''
         else if \<exists>m. e = ProtocolError ERR_AUTH m
           then ascii '' - do client and server use the same WIRELINE_SECRET?''
         else [])"

definition report_line :: "cli_env \<Rightarrow> exn \<Rightarrow> args \<Rightarrow> ustr" where
  "report_line env e args =
     (let detail = exn_detail (ce_message env) e
      in ascii ''wireline: '' @ exn_class e @ (if detail = [] then [] else ascii '': '' @ detail) @ advice e args @ [10])"

lemma expected_failure_iff: "expected_failure e \<longleftrightarrow> reported e"
  by (cases e) (simp_all add: reported_def)

lemma describe_failure_line: "print_line (describe_failure (ce_message env) e args) = report_line env e args"
  by (cases e) (simp_all add: describe_failure_def report_line_def advice_def print_line_def Let_def)

lemma dissect_Inl: "dissect raw = Inl e \<Longrightarrow> \<exists>t. e = PcapError t"
proof -
  assume d: "dissect raw = Inl e"
  obtain ps x where r: "read_packets raw = (ps, x)" by (cases "read_packets raw")
  obtain rows where "dissect_packets ps = Inr rows" using dissect_packets_total by blast
  with d r have "x = Some e" by (simp add: dissect_def split: option.split_asm)
  with r read_packets_error show ?thesis by blast
qed

lemma reassemble_flows_total: "\<exists>flows. reassemble_flows rows = Inr flows"
  using reassemble_rows_total [of rows "(Map.empty, [])"] by (auto simp: reassemble_flows_def)

lemma cmd_sniff_outcome:
  "(\<exists>out. cmd_sniff env flows = (out, Inr 0))
    \<or> (\<exists>e. cmd_sniff env flows = ([], Inl e) \<and> (ce_file env = Inl e \<or> (\<exists>t. e = PcapError t)))"
proof (cases "rbind (ce_file env) dissect")
  case (Inl e)
  then have "ce_file env = Inl e \<or> (\<exists>t. e = PcapError t)" by (auto simp: rbind_eq_Inl_iff dest: dissect_Inl)
  with Inl show ?thesis by (simp add: cmd_sniff_def)
next
  case (Inr rows)
  obtain fl where "reassemble_flows rows = Inr fl" using reassemble_flows_total by blast
  with Inr show ?thesis by (simp add: cmd_sniff_def Let_def)
qed

lemma cmd_serve_Inl:
  assumes "snd (cmd_serve env args) = Inl e" "ce_created env \<noteq> Inr []"
  shows "ce_created env = Inl e \<or> ce_forever env = Inl e \<or> e = UnicodeEncodeError"
proof -
  have "ce_created env = Inl e \<or> ce_forever env = Inl e"
    if "fst (sv_serve_forever (ce_created env) (ce_forever env) (new_listener key)) = Inl e" for key
    using that assms(2)
    by (auto simp: sv_serve_forever_def sv_start_def sv_address_def new_listener_def server.defs
        split: sum.split_asm if_split_asm list.split_asm)
  with assms(1) show ?thesis by (auto simp: cmd_serve_def rbind_eq_Inl_iff dest: load_secret_Inl)
qed

lemma run_command_Inl:
  assumes "run_command env args = (out, Inl e)" "ce_created env \<noteq> Inr []"
  shows "from_outside env (a_command args) e \<or> expected_failure e
    \<or> e \<in> escaping \<and> (\<forall>flows. a_command args \<noteq> Sniff flows)"
proof (cases "a_command args")
  case Serve
  with assms cmd_serve_Inl [of env args e] show ?thesis
    by (auto simp: run_command_def from_outside_def escaping_def)
next
  case (Ping n)
  have "cmd_exn e \<or> ce_opened env = Inl e"
    by (rule with_client_Inl)
      (use assms(1) Ping in \<open>auto simp: run_command_def cmd_ping_def dest: ping_loop_Inl split: prod.split_asm\<close>)
  with Ping show ?thesis by (auto simp: cmd_exn_def from_outside_def)
next
  case (Send t)
  have "cmd_exn x" if "cl_send_data b cl = (Inl x, cl')" for b cl x cl'
    using that by (auto simp: cl_send_data_def dest: cl_request_Inl split: prod.split_asm sum.split_asm)
  moreover have "cmd_exn x" if "utf8_encode t = Inl x" for x
    using utf8_encode_Inl [OF that] by (simp add: cmd_exn_def escaping_def)
  ultimately have "cmd_exn e \<or> ce_opened env = Inl e"
    by (intro with_client_Inl)
      (use assms(1) Send in \<open>auto simp: run_command_def cmd_send_def split: prod.split_asm sum.split_asm\<close>)
  with Send show ?thesis by (auto simp: cmd_exn_def from_outside_def)
next
  case (Sniff flows)
  have "ce_file env = Inl e \<or> (\<exists>t. e = PcapError t)"
    using cmd_sniff_outcome [of env flows] assms Sniff by (auto simp: run_command_def)
  with Sniff show ?thesis by (auto simp: from_outside_def)
qed

lemma run_command_Inr: "run_command env args = (out, Inr n) \<Longrightarrow> n = 0"
proof (cases "a_command args")
  case (Sniff flows)
  assume "run_command env args = (out, Inr n)"
  with Sniff cmd_sniff_outcome [of env flows] show ?thesis by (auto simp: run_command_def)
qed (auto simp: run_command_def cmd_serve_def cmd_ping_def cmd_send_def with_client_def async_with_def
    rbind_eq_Inr_iff split: sum.split_asm prod.split_asm)


definition env0 :: cli_env where
  "env0 = \<lparr>ce_secret = None, ce_py = py_env0, ce_rng = (\<lambda>n. replicate n 0), ce_opened = Inl OverflowError,
     ce_created = Inr [([], 9000)], ce_forever = Inl KeyboardInterrupt, ce_file = Inr [1, 2, 3], ce_elapsed = (\<lambda>_. 0), ce_message = (\<lambda>_. [])\<rparr>"

definition args0 :: args where
  "args0 = \<lparr>a_command = Sniff True, a_host = ascii ''h'', a_port = 70000, a_secret = None\<rparr>"


section \<open>Commands against a server\<close>

lemma utf8_replace_valid: "utf8_scan pos bs = Inr cs \<Longrightarrow> utf8_replace bs = cs"
proof (induction bs arbitrary: pos cs rule: utf8_replace.induct)
  case (2 b bs)
  from "2.prems" obtain c n ds where "utf8_char b bs = Inr (c, n)"
    "utf8_scan (pos + n) (drop (n - 1) bs) = Inr ds" "cs = c # ds"
    by (auto simp: rbind_eq_Inr_iff split: sum.split_asm)
  with "2.IH"(2) [of "(c, n)" c n] show ?case by simp
qed simp

lemma utf8_replace_encode: "utf8_encode s = Inr bs \<Longrightarrow> utf8_replace (map unat bs) = s"
  using utf8_roundtrip [of s bs] utf8_replace_valid [of 0 "map unat bs"] by (simp add: utf8_decode_def)

lemma cl_requests_ok: "client_ok cl \<Longrightarrow> cl_requests reqs cl = (rs, cl') \<Longrightarrow> client_ok cl' \<and> cl_state cl' = cl_state cl"
proof (induction reqs arbitrary: cl rs)
  case (Cons req reqs)
  obtain t p where req: "req = (t, p)" by (cases req)
  obtain r cl1 where r: "cl_request t p 0 cl = (r, cl1)" by (cases "cl_request t p 0 cl")
  obtain rs1 where "cl_requests reqs cl1 = (rs1, cl')"
    using Cons.prems(2) by (auto simp: req r split: prod.split_asm)
  with Cons.IH cl_request_ok [OF Cons.prems(1) r] show ?case by auto
qed simp

lemma cl_connect_ok:
  assumes "client_ok cl" "cl_connect env rng opened cl = (Inr (), cl')" "cl_state cl \<noteq> READY"
  shows "client_ok cl' \<and> cl_state cl' = READY"
proof -
  from assms(2) obtain rd where h: "cl_handshake env rng (cl\<lparr>cl_conn := Some (rd, [])\<rparr>) = (Inr (), cl')"
    by (auto simp: cl_connect_def split: sum.split_asm)
  have "client_ok (cl\<lparr>cl_conn := Some (rd, [])\<rparr>)"
    using assms(1) by (auto simp: client_ok_def sent_frames_def)
  from cl_handshake_ok [OF this h] assms(3) show ?thesis by simp
qed

lemma cl_close_works:
  assumes "client_ok cl"
  shows "\<exists>w cl'. cl_close cl = (Inr (), w, cl')"
proof (cases "cl_conn cl")
  case None
  then show ?thesis by (simp add: cl_close_def)
next
  case (Some ro)
  obtain rd out where ro: "ro = (rd, out)" by (cases ro)
  have "frame_ok (mk_frame BYE (cl_out_seq cl) [] 0)"
    using assms by (simp add: client_ok_def frame_ok_def MAX_PAYLOAD_def)
  with Some ro cl_send_wire [of cl rd out BYE "[]"] show ?thesis by (simp add: cl_close_def Let_def)
qed

text \<open>
  The connection of the command leads to a server with the same secret; the server receives in
  time what the command writes for the requests, and its answers come back in time.
\<close>

definition served :: "cli_env \<Rightarrow> args \<Rightarrow> (msg_type \<times> bytes) list \<Rightarrow> ustr \<Rightarrow> bool" where
  "served env args reqs sid \<longleftrightarrow> (\<exists>key p x sv rng0 rng rds e ss rds' outs sv' rdc.
     fst (load_secret (a_secret args) (ce_secret env)) = Inr key \<and> sv_secret sv = key
     \<and> 0 < json_depth (ce_py env) \<and> rng_ok rng
     \<and> encode_hello (ce_rng env) (ascii ''wireline-cli'') None = Inr p \<and> length p \<le> MAX_PAYLOAD
     \<and> decode_hello (ce_py env) p = Inr x
     \<and> in_time sv rds \<and> stream rds = concat (map (wire key) (client_frames p reqs))
     \<and> handle (ce_py env) rng0 rng sv rds = ((e, ss, rds', outs), sv')
     \<and> ce_opened env = Inr rdc \<and> prompt (new_client key (ascii ''wireline-cli'') DEFAULT_TIMEOUT) rdc
     \<and> stream rdc = concat outs \<and> sid = ss_id (new_session rng0))"

lemma with_client_served:
  assumes "served env args reqs sid" "list_all request_ok reqs" "int (length reqs) < 2 ^ 32 - 1"
    and body: "\<And>cl gs cl'. cl_session_id cl = Some sid \<Longrightarrow> cl_requests reqs cl = (map Inr gs, cl') \<Longrightarrow>
      map (\<lambda>g. (f_type g, f_payload g)) gs = map answer_of reqs \<Longrightarrow> body cl = (out, Inr (), cl')"
  shows "\<exists>w. with_client env args body = ((out, Inr 0), w)"
proof -
  from assms(1) obtain key p x sv rng0 rng rds e ss rds' outs sv' rdc where s:
    "fst (load_secret (a_secret args) (ce_secret env)) = Inr key" "sv_secret sv = key"
    "0 < json_depth (ce_py env)" "rng_ok rng"
    "encode_hello (ce_rng env) (ascii ''wireline-cli'') None = Inr p" "length p \<le> MAX_PAYLOAD"
    "decode_hello (ce_py env) p = Inr x" "in_time sv rds" "stream rds = concat (map (wire key) (client_frames p reqs))"
    "handle (ce_py env) rng0 rng sv rds = ((e, ss, rds', outs), sv')" "ce_opened env = Inr rdc"
    "prompt (new_client key (ascii ''wireline-cli'') DEFAULT_TIMEOUT) rdc" "stream rdc = concat outs"
    "sid = ss_id (new_session rng0)" unfolding served_def by blast
  let ?cl = "new_client key (ascii ''wireline-cli'') DEFAULT_TIMEOUT"
  obtain cl gs cl' where r: "cl_connect (ce_py env) (ce_rng env) (ce_opened env) ?cl = (Inr (), cl)"
    "cl_session_id cl = Some sid" "cl_requests reqs cl = (map Inr gs, cl')"
    "map (\<lambda>g. (f_type g, f_payload g)) gs = map answer_of reqs"
    using end_to_end [OF s(2-7) assms(2,3) s(8-10) s(12,13)] unfolding s(11,14) by blast
  have "client_ok cl" using cl_connect_ok [OF new_client_ok r(1)] by (simp add: new_client_def)
  with r(3) have "client_ok cl'" using cl_requests_ok by blast
  then obtain w cl2 where "cl_close cl' = (Inr (), w, cl2)" using cl_close_works by blast
  with s(1) r(1) body [OF r(2-4)] show ?thesis by (simp add: with_client_def async_with_def)
qed

definition probes :: "int \<Rightarrow> (msg_type \<times> bytes) list" where
  "probes count = replicate (nat count) (PING, ascii_bytes ''probe'')"

definition pong_line :: "(nat \<Rightarrow> rat) \<Rightarrow> int \<Rightarrow> nat \<Rightarrow> ustr" where
  "pong_line elapsed count i = print_line (ascii ''pong '' @ dec_nat (i + 1) @ ascii ''/'' @ dec_int count
     @ ascii ''  rtt='' @ fixed2 (elapsed i) @ ascii '' ms'')"

lemma ping_loop_requests:
  "cl_requests (replicate k (PING, ascii_bytes ''probe'')) cl = (map Inr gs, cl') \<Longrightarrow>
     ping_loop el count i k cl = (concat (map (pong_line el count) [i..<i + k]), Inr (), cl')"
proof (induction k arbitrary: i cl gs)
  case (Suc k)
  from Suc.prems obtain g hs cl1 where r: "cl_request PING (ascii_bytes ''probe'') 0 cl = (Inr g, cl1)"
    "cl_requests (replicate k (PING, ascii_bytes ''probe'')) cl1 = (map Inr hs, cl')"
    by (auto simp: Cons_eq_map_conv split: prod.split_asm)
  have "[i..<i + Suc k] = i # [Suc i..<Suc i + k]" by (simp add: upt_rec)
  with r Suc.IH [OF r(2), of "Suc i"] show ?case by (simp add: cl_ping_def pong_line_def)
qed simp

text \<open>There is such a server for any requests: it and the network need one time unit each.\<close>

lemma served_exists:
  assumes "a_secret args = None"
  shows "\<exists>env sid. ce_elapsed env = (\<lambda>_. 0) \<and> served env args reqs sid"
proof -
  let ?z = "\<lambda>n. replicate n (0 :: byte)" and ?key = DEV_SECRET and ?cid = "ascii ''wireline-cli''"
  have "list_all (\<lambda>c. c < 128) ?cid" by code_simp
  then obtain p where p: "encode_hello ?z ?cid None = Inr p" "length p \<le> 20000"
    using encode_hello_fits [of ?cid ?z] by auto
  have x: "decode_hello py_env0 p = Inr (?cid, new_nonce ?z)"
    using p(1) by (rule decode_encoded_hello) (simp add: py_env0_def)
  let ?rds = "new_reader 0 [(1, Chunk (concat (map (wire ?key) (client_frames p reqs))))]"
  obtain e ss rds' outs sv' where h: "handle py_env0 ?z ?z (new_server ?key) ?rds = ((e, ss, rds', outs), sv')"
    by (cases "handle py_env0 ?z ?z (new_server ?key) ?rds") auto
  let ?rdc = "new_reader 0 [(2, Chunk (concat outs))]"
  let ?env = "\<lparr>ce_secret = None, ce_py = py_env0, ce_rng = ?z, ce_opened = Inr ?rdc, ce_created = Inr [([], 9000)], ce_forever = Inr (),
    ce_file = Inr [], ce_elapsed = (\<lambda>_. 0), ce_message = (\<lambda>_. [])\<rparr>"
  have "sv_secret (new_server ?key) = ?key" "in_time (new_server ?key) ?rds"
    "stream ?rds = concat (map (wire ?key) (client_frames p reqs))"
    by (simp_all add: in_time_def new_server_def new_reader_def punctual_def stream_def
        DEFAULT_IDLE_TIMEOUT_def DEFAULT_HANDSHAKE_TIMEOUT_def)
  moreover have "prompt (new_client ?key ?cid DEFAULT_TIMEOUT) ?rdc" "stream ?rdc = concat outs"
    by (simp_all add: prompt_def new_client_def new_reader_def punctual_def stream_def DEFAULT_TIMEOUT_def)
  moreover have "fst (load_secret (a_secret args) None) = Inr ?key" "0 < json_depth py_env0" "length p \<le> MAX_PAYLOAD"
    using assms p(2) by (simp_all add: load_secret_def py_env0_def MAX_PAYLOAD_def)
  ultimately have "served ?env args reqs (ss_id (new_session ?z))"
    unfolding served_def cli_env.simps using zeros_ok p(1) x h by blast
  then show ?thesis by (intro exI [of _ ?env] exI conjI) simp_all
qed

text \<open>
  C24. \<^verbatim>\<open>wireline ping\<close> against a server with the same secret that answers in time prints the session id
  of the server and one numbered line per round, and exits with code 0. A count of zero or less
  prints the session only.
\<close>

theorem ping_command:
  assumes "served env args (probes count) sid" "a_command args = Ping count" "count < 2 ^ 32 - 1"
  shows "main_cmd env args = (print_line (ascii ''session '' @ sid)
      @ concat (map (pong_line (ce_elapsed env) count) [0..<nat count]), [], Inr 0)"
proof -
  have ok: "list_all request_ok (probes count)" "int (length (probes count)) < 2 ^ 32 - 1"
    using assms(3) by (simp_all add: probes_def list_all_iff request_ok_def MAX_PAYLOAD_def)
  have "\<exists>w. cmd_ping env args count = ((print_line (ascii ''session '' @ sid)
      @ concat (map (pong_line (ce_elapsed env) count) [0..<nat count]), Inr 0), w)"
    unfolding cmd_ping_def
    by (rule with_client_served [OF assms(1) ok]) (simp add: probes_def ping_loop_requests)
  then show ?thesis using assms(2) by (auto simp: main_cmd_def run_command_def)
qed

theorem ping_command_witness:
  "\<exists>env sid. main_cmd env (args0\<lparr>a_command := Ping 2\<rparr>)
    = (print_line (ascii ''session '' @ sid) @ concat (map (pong_line (\<lambda>_. 0) 2) [0..<2]), [], Inr 0)"
proof -
  obtain env sid where e: "ce_elapsed env = (\<lambda>_. 0)" "served env (args0\<lparr>a_command := Ping 2\<rparr>) (probes 2) sid"
    using served_exists [of "args0\<lparr>a_command := Ping 2\<rparr>" "probes 2"] by (auto simp: args0_def)
  from ping_command [OF e(2)] show ?thesis by (auto simp: e(1))
qed

text \<open>
  C25. \<^verbatim>\<open>wireline send\<close> against such a server prints exactly the text it was given, whatever characters
  it has, and exits with code 0: the text survives encoding, the round trip and decoding.
\<close>

theorem send_command:
  assumes "utf8_encode t = Inr data" "length data \<le> MAX_PAYLOAD"
    "served env args [(DATA, data)] sid" "a_command args = Send t"
  shows "main_cmd env args = (print_line t, [], Inr 0)"
proof -
  have ok: "list_all request_ok [(DATA, data)]" "int (length [(DATA, data)]) < 2 ^ 32 - 1"
    using assms(2) by (simp_all add: request_ok_def)
  have "\<exists>w. cmd_send env args t = ((print_line t, Inr 0), w)"
    unfolding cmd_send_def
  proof (rule with_client_served [OF assms(3) ok])
    fix cl gs cl' assume "cl_requests [(DATA, data)] cl = (map Inr gs, cl')"
      "map (\<lambda>g. (f_type g, f_payload g)) gs = map answer_of [(DATA, data)]"
    then obtain g where "cl_request DATA data 0 cl = (Inr g, cl')" "f_payload g = data"
      by (auto simp: answer_of_def split: prod.split_asm)
    then show "(case utf8_encode t of Inl e \<Rightarrow> ([], Inl e, cl) | Inr data \<Rightarrow>
        (case cl_send_data data cl of (Inl e, cl1) \<Rightarrow> ([], Inl e, cl1)
         | (Inr b, cl1) \<Rightarrow> (print_line (utf8_replace (map unat b)), Inr (), cl1))) = (print_line t, Inr (), cl')"
      by (simp add: assms(1) cl_send_data_def utf8_replace_encode [OF assms(1)])
  qed
  then show ?thesis using assms(4) by (auto simp: main_cmd_def run_command_def)
qed

theorem send_command_witness:
  "\<exists>env. main_cmd env (args0\<lparr>a_command := Send [233]\<rparr>) = (print_line [233], [], Inr 0)"
proof -
  have u: "utf8_encode [233] = Inr [0xC3, 0xA9]" by (simp add: scalar_def utf8_units_def)
  obtain env sid where "served env (args0\<lparr>a_command := Send [233]\<rparr>) [(DATA, [0xC3, 0xA9])] sid"
    using served_exists [of "args0\<lparr>a_command := Send [233]\<rparr>" "[(DATA, [0xC3, 0xA9])]"] by (auto simp: args0_def)
  from send_command [OF u _ this] show ?thesis by (auto simp: MAX_PAYLOAD_def)
qed

end
