(* ===== verification/Startup_Props.thy ===== *)
theory Startup_Props
  imports Startup Cli_Props
begin

text \<open>
  The command line: arguments that are written out are read back, for every command, and what the
  logging level does to a run.
\<close>

section \<open>Writing arguments out\<close>

definition common_words :: "parsed_args \<Rightarrow> ustr list" where
  "common_words p =
     [ascii ''--host'', a_host p, ascii ''--port'', dec_nat (nat (a_port p))]
       @ (case a_secret p of None \<Rightarrow> [] | Some s \<Rightarrow> [ascii ''--secret'', s])
       @ [ascii ''--log-level'', pa_log_level p]"

fun command_words :: "command \<Rightarrow> ustr option \<Rightarrow> ustr list" where
  "command_words Serve path = []"
| "command_words (Ping n) path = [ascii ''--count'', dec_nat (nat n)]"
| "command_words (Send t) path = [ascii ''--text'', t]"
| "command_words (Sniff flows) path =
     (if flows then [ascii ''--flows''] else []) @ (case path of None \<Rightarrow> [] | Some f \<Rightarrow> [f])"

fun command_name :: "command \<Rightarrow> ustr" where
  "command_name Serve = ascii ''serve''"
| "command_name (Ping _) = ascii ''ping''"
| "command_name (Send _) = ascii ''send''"
| "command_name (Sniff _) = ascii ''sniff''"

definition show_argv :: "parsed_args \<Rightarrow> ustr list" where
  "show_argv p = command_name (a_command p) # common_words p @ command_words (a_command p) (pa_path p)"

text \<open>Arguments that can be written plainly: no text starts with a dash, no number is negative.\<close>

definition plain_number :: "int \<Rightarrow> bool" where
  "plain_number n \<longleftrightarrow> 0 \<le> n \<and> length (dec_nat (nat n)) \<le> 4300"

definition plain_args :: "parsed_args \<Rightarrow> bool" where
  "plain_args p \<longleftrightarrow> plain_word (a_host p) \<and> plain_number (a_port p)
     \<and> (case a_secret p of None \<Rightarrow> True | Some s \<Rightarrow> plain_word s) \<and> plain_word (pa_log_level p)
     \<and> (case a_command p of Serve \<Rightarrow> pa_path p = None | Ping n \<Rightarrow> plain_number n \<and> pa_path p = None
        | Send t \<Rightarrow> plain_word t \<and> pa_path p = None
        | Sniff _ \<Rightarrow> (case pa_path p of None \<Rightarrow> False | Some f \<Rightarrow> plain_word f))"

lemma plain_int_number: "plain_number n \<Longrightarrow> plain_int (dec_nat (nat n)) = Some n"
  by (simp add: plain_number_def plain_int_def dec_nat_digits)

lemma plain_number_word: "plain_word (dec_nat n)"
proof -
  have "is_digit (hd (dec_nat n))" using dec_nat_digits [of n] by (cases "dec_nat n") simp_all
  then show ?thesis by (auto simp: plain_word_def is_digit_def)
qed

lemma common_options_map:
  "map_of (common_options @ opts) (ascii ''--host'') = Some (Store (\<lambda>v c. Some (c\<lparr>cv_host := v\<rparr>)))"
  "map_of (common_options @ opts) (ascii ''--port'') = Some (Store (\<lambda>v c. map_option (\<lambda>n. c\<lparr>cv_port := n\<rparr>) (plain_int v)))"
  "map_of (common_options @ opts) (ascii ''--secret'') = Some (Store (\<lambda>v c. Some (c\<lparr>cv_secret := Some v\<rparr>)))"
  "map_of (common_options @ opts) (ascii ''--log-level'') = Some (Store (\<lambda>v c. Some (c\<lparr>cv_log_level := v\<rparr>)))"
  "map_of (common_options @ opts) (ascii ''--count'') = map_of opts (ascii ''--count'')"
  "map_of (common_options @ opts) (ascii ''--text'') = map_of opts (ascii ''--text'')"
  "map_of (common_options @ opts) (ascii ''--flows'') = map_of opts (ascii ''--flows'')"
  by (simp_all add: common_options_def ascii_def of_char_def)

lemma common_options_word: "plain_word t \<Longrightarrow> map_of (common_options @ [(ascii ''--flows'', a)]) t = None"
  by (auto simp: common_options_def plain_word_def ascii_def of_char_def)

lemma parse_common:
  assumes "plain_args p"
  shows "parse_words (common_options @ opts) path (common_words p @ ws) default_values =
    parse_words (common_options @ opts) path ws (default_values\<lparr>cv_host := a_host p, cv_port := a_port p,
      cv_secret := a_secret p, cv_log_level := pa_log_level p\<rparr>)"
proof -
  have "plain_word (a_host p)" "plain_number (a_port p)" "plain_word (pa_log_level p)"
    "\<And>s. a_secret p = Some s \<Longrightarrow> plain_word s"
    using assms by (auto simp: plain_args_def)
  then show ?thesis
    by (cases "a_secret p")
      (simp_all add: common_words_def common_options_map plain_int_number plain_number_word default_values_def
        del: map_of_append)
qed

lemma subcommand_options:
  "map_of subcommands (ascii ''serve'') = Some (common_options @ [], False)"
  "map_of subcommands (ascii ''ping'') = Some (common_options
     @ [(ascii ''--count'', Store (\<lambda>v c. map_option (\<lambda>n. c\<lparr>cv_count := n\<rparr>) (plain_int v)))], False)"
  "map_of subcommands (ascii ''send'') = Some (common_options @ [(ascii ''--text'', Store (\<lambda>v c. Some (c\<lparr>cv_text := Some v\<rparr>)))], False)"
  "map_of subcommands (ascii ''sniff'') = Some (common_options @ [(ascii ''--flows'', Store_true (\<lambda>c. c\<lparr>cv_flows := True\<rparr>))], True)"
  by (simp_all add: subcommands_def ascii_def of_char_def)

text \<open>
  C27. Arguments that are written out plainly are read back: for every command, with all its options
  given, \<^verbatim>\<open>parse_args\<close> yields the namespace they were written from.
\<close>

theorem arguments_roundtrip:
  assumes "plain_args p"
  shows "parse_args (show_argv p) = Some p"
proof -
  note common = parse_common [OF assms, unfolded default_values_def]
  have names: "ascii ''ping'' \<noteq> ascii ''serve''" "ascii ''send'' \<noteq> ascii ''serve''" "ascii ''send'' \<noteq> ascii ''ping''"
    "ascii ''sniff'' \<noteq> ascii ''serve''" "ascii ''sniff'' \<noteq> ascii ''ping''" "ascii ''sniff'' \<noteq> ascii ''send''"
    by (simp_all add: ascii_def)
  show ?thesis
  proof (cases "a_command p")
    case Serve
    with assms have "pa_path p = None" by (simp add: plain_args_def)
    with Serve show ?thesis
      using common [of "[]" False "[]"]
      by (simp add: show_argv_def parse_args_def subcommand_options finish_args_def to_args_def default_values_def
          del: map_of_append)
  next
    case (Ping n)
    with assms have "pa_path p = None" "plain_number n" by (simp_all add: plain_args_def)
    with Ping show ?thesis
      by (simp add: show_argv_def parse_args_def subcommand_options common common_options_map plain_number_word
          plain_int_number finish_args_def to_args_def default_values_def names
          del: map_of_append)
  next
    case (Send t)
    with assms have "pa_path p = None" "plain_word t" by (simp_all add: plain_args_def)
    with Send show ?thesis
      by (simp add: show_argv_def parse_args_def subcommand_options common common_options_map
          finish_args_def to_args_def default_values_def names
          del: map_of_append)
  next
    case (Sniff flows)
    with assms obtain f where f: "pa_path p = Some f" "plain_word f" by (auto simp: plain_args_def split: option.split_asm)
    then have "f \<noteq> ascii ''--flows''" by (auto simp: plain_word_def ascii_def of_char_def)
    with Sniff f show ?thesis
      by (simp add: show_argv_def parse_args_def subcommand_options common common_options_map common_options_word
          finish_args_def to_args_def default_values_def names
          del: map_of_append)
  qed
qed

definition parsed0 :: "ustr \<Rightarrow> parsed_args" where
  "parsed0 level = \<lparr>a_command = Sniff True, a_host = ascii ''h'', a_port = 1, a_secret = None,
     pa_log_level = level, pa_path = Some (ascii ''f'')\<rparr>"

theorem arguments_roundtrip_witness:
  "parse_args (show_argv (parsed0 (ascii ''INFO''))) = Some (parsed0 (ascii ''INFO''))"
  by (rule arguments_roundtrip)
    (simp add: plain_args_def parsed0_def plain_word_def plain_number_def ascii_def of_char_def dec_nat.simps)

section \<open>The logging level\<close>

text \<open>
  C28. Setting up logging comes before the clause that turns failures into exit codes. A level that
  names no attribute of the logging module counts as INFO, but two names are attributes that are no
  levels: with them the program ends in a ValueError or TypeError before the command runs.
  With any other level the run is that of the command.
\<close>

theorem log_level_outcome:
  assumes "parse_args argv = Some p"
  shows "main_argv upper files env argv = Some
    (if upper (pa_log_level p) = ascii ''BASIC_FORMAT'' then ([], [], Inl ValueError)
     else if upper (pa_log_level p) = ascii ''_STYLES'' then ([], [], Inl TypeError)
     else main_cmd (case pa_path p of None \<Rightarrow> env | Some f \<Rightarrow> env\<lparr>ce_file := files f\<rparr>) (args.truncate p))"
proof -
  have differ: "ascii ''BASIC_FORMAT'' \<noteq> ascii ''_STYLES''" by (simp add: ascii_def)
  have "fst (setup_logging upper l log_start) =
      (if upper l = ascii ''BASIC_FORMAT'' then Inl ValueError
       else if upper l = ascii ''_STYLES'' then Inl TypeError else Inr ())" for l
  proof (cases "map_of logging_attrs (upper l)")
    case None
    then have "upper l \<noteq> ascii ''BASIC_FORMAT'' \<and> upper l \<noteq> ascii ''_STYLES''"
      by (auto simp: logging_attrs_def split: if_split_asm)
    with None show ?thesis by (simp add: setup_logging_def log_start_def Let_def)
  next
    case (Some a)
    then have "(case a of Log_level n \<Rightarrow> upper l \<noteq> ascii ''BASIC_FORMAT'' \<and> upper l \<noteq> ascii ''_STYLES''
        | Log_text \<Rightarrow> upper l = ascii ''BASIC_FORMAT'' | Log_object \<Rightarrow> upper l = ascii ''_STYLES'')"
      by (auto simp: logging_attrs_def ascii_def split: if_split_asm)
    with Some differ show ?thesis by (cases a) (auto simp: setup_logging_def log_start_def Let_def)
  qed
  with assms differ show ?thesis by (simp add: main_argv_def)
qed

theorem log_level_outcome_witness:
  "main_argv id (\<lambda>_. Inr []) env0 [ascii ''serve'', ascii ''--log-level'', ascii ''BASIC_FORMAT''] = Some ([], [], Inl ValueError)"
proof -
  let ?p = "to_args Serve (default_values\<lparr>cv_log_level := ascii ''BASIC_FORMAT''\<rparr>)"
  have "plain_word (ascii ''BASIC_FORMAT'')" by (simp add: plain_word_def ascii_def of_char_def)
  then have "parse_args [ascii ''serve'', ascii ''--log-level'', ascii ''BASIC_FORMAT''] = Some ?p"
    by (simp add: parse_args_def subcommand_options common_options_map [of "[]", simplified] finish_args_def)
  from log_level_outcome [OF this, of id "\<lambda>_. Inr []" env0] show ?thesis by (simp add: to_args_def)
qed

end
