(* ===== verification/Tls.thy ===== *)
theory Tls
  imports Errors
begin

text \<open>
  \<^verbatim>\<open>src/wireline/tls.py\<close>: the two TLS contexts. Of the \<^verbatim>\<open>ssl\<close> module it uses the attributes of a
  context, the defaults that its documentation gives them, and the order in which two of them may be
  changed; loading certificates is an argument.
\<close>

section \<open>Contexts\<close>

datatype tls_version = TLSv1 | TLSv1_1 | TLSv1_2 | TLSv1_3
datatype verify_mode = CERT_NONE | CERT_OPTIONAL | CERT_REQUIRED
datatype tls_side = Tls_server | Tls_client

record ssl_context =
  sc_side :: tls_side
  sc_minimum_version :: tls_version
  sc_check_hostname :: bool
  sc_verify_mode :: verify_mode
  sc_cert_chain :: "(ustr \<times> ustr) option"
  sc_trusted :: "ustr option"

text \<open>
  \<^verbatim>\<open>ssl.SSLContext(PROTOCOL_TLS_SERVER)\<close> and \<^verbatim>\<open>ssl.create_default_context\<close>; no file means the
  trust store of the system. The default minimum version depends on the build.
\<close>

definition server_defaults :: "tls_version \<Rightarrow> ssl_context" where
  "server_defaults v = \<lparr>sc_side = Tls_server, sc_minimum_version = v, sc_check_hostname = False,
     sc_verify_mode = CERT_NONE, sc_cert_chain = None, sc_trusted = None\<rparr>"

definition client_defaults :: "tls_version \<Rightarrow> ustr option \<Rightarrow> ssl_context" where
  "client_defaults v cafile = \<lparr>sc_side = Tls_client, sc_minimum_version = v, sc_check_hostname = True,
     sc_verify_mode = CERT_REQUIRED, sc_cert_chain = None, sc_trusted = cafile\<rparr>"

text \<open>
  The setters: a peer that is not verified has no name to check, so \<^verbatim>\<open>CERT_NONE\<close> is refused while
  \<^verbatim>\<open>check_hostname\<close> is set, and setting \<^verbatim>\<open>check_hostname\<close> turns verification on.
\<close>

definition set_check_hostname :: "bool \<Rightarrow> ssl_context \<Rightarrow> ssl_context" where
  "set_check_hostname b c =
     c\<lparr>sc_check_hostname := b,
       sc_verify_mode := if b \<and> sc_verify_mode c = CERT_NONE then CERT_REQUIRED else sc_verify_mode c\<rparr>"

definition set_verify_mode :: "verify_mode \<Rightarrow> ssl_context \<Rightarrow> ssl_context res" where
  "set_verify_mode m c =
     (if m = CERT_NONE \<and> sc_check_hostname c then Inl ValueError else Inr (c\<lparr>sc_verify_mode := m\<rparr>))"

section \<open>The functions of the program\<close>

definition server_context :: "tls_version \<Rightarrow> (ustr \<Rightarrow> ustr \<Rightarrow> unit res) \<Rightarrow> ustr \<Rightarrow> ustr \<Rightarrow> ssl_context res" where
  "server_context v load_chain certfile keyfile =
     (let c = (server_defaults v)\<lparr>sc_minimum_version := TLSv1_2\<rparr>
      in rbind (load_chain certfile keyfile) (\<lambda>_. Inr (c\<lparr>sc_cert_chain := Some (certfile, keyfile)\<rparr>)))"

text \<open>An empty \<^verbatim>\<open>cafile\<close> counts as none.\<close>

definition client_context :: "tls_version \<Rightarrow> (ustr option \<Rightarrow> unit res) \<Rightarrow> ustr option \<Rightarrow> bool \<Rightarrow> ssl_context res" where
  "client_context v load_trusted cafile verify =
     (let ca = (case cafile of Some (c # cs) \<Rightarrow> Some (c # cs) | _ \<Rightarrow> None)
      in rbind (load_trusted ca) (\<lambda>_.
           let c = (client_defaults v ca)\<lparr>sc_minimum_version := TLSv1_2\<rparr>
           in if \<not> verify then set_verify_mode CERT_NONE (set_check_hostname False c) else Inr c))"

section \<open>What they guarantee\<close>

text \<open>A context whose connections are only to the named peer, with a verified certificate.\<close>

definition authenticates :: "ssl_context \<Rightarrow> bool" where
  "authenticates c \<longleftrightarrow> sc_side c = Tls_client \<and> sc_check_hostname c \<and> sc_verify_mode c = CERT_REQUIRED"

text \<open>
  A client context authenticates the server unless \<^verbatim>\<open>verify\<close> is switched off, no version before
  TLS 1.2 is accepted on either side, and the only thing that can raise is loading the files: the
  order of the two settings that switch verification off is the one \<^verbatim>\<open>ssl\<close> accepts.
\<close>

theorem tls_contexts:
  "case client_context v load_trusted cafile verify of
     Inr c \<Rightarrow> sc_minimum_version c = TLSv1_2 \<and> authenticates c = verify
   | Inl e \<Rightarrow> \<exists>ca. load_trusted ca = Inl e"
  "case server_context v load_chain certfile keyfile of
     Inr c \<Rightarrow> sc_minimum_version c = TLSv1_2 \<and> sc_cert_chain c = Some (certfile, keyfile)
   | Inl e \<Rightarrow> load_chain certfile keyfile = Inl e"
  by (auto simp: client_context_def server_context_def client_defaults_def server_defaults_def set_verify_mode_def
      set_check_hostname_def authenticates_def rbind_eq_Inl_iff rbind_eq_Inr_iff Let_def split: sum.splits if_splits)

end
