(* ===== verification/Bench.thy ===== *)
theory Bench
  imports Cli "HOL-Library.Multiset"
begin

text \<open>
  \<^verbatim>\<open>benchmarks/bench_tcp.py\<close>: the statistics, the two measurements and the tables. Times are exact
  rationals and arguments: \<open>elapsed\<close> gives the time of each request, \<open>wall\<close> that of a whole run.
\<close>

section \<open>Statistics\<close>

text \<open>\<^verbatim>\<open>xs[i]\<close> of a list, negative indices counting from the end.\<close>

definition py_index :: "'a list \<Rightarrow> int \<Rightarrow> 'a res" where
  "py_index xs i =
     (if 0 \<le> i \<and> i < int (length xs) then Inr (xs ! nat i)
      else if i < 0 \<and> - int (length xs) \<le> i then Inr (xs ! nat (int (length xs) + i))
      else Inl IndexError)"

definition percentile :: "rat list \<Rightarrow> rat \<Rightarrow> rat res" where
  "percentile values p =
     (let ordered = sort values;
          index = min (py_round (p / 100 * (of_nat (length ordered) - 1))) (int (length ordered) - 1)
      in py_index ordered index)"

definition py_div :: "rat \<Rightarrow> rat \<Rightarrow> rat res" where
  "py_div a b = (if b = 0 then Inl ZeroDivisionError else Inr (a / b))"

section \<open>Measurements\<close>

text \<open>A cell of a table: an integer or a float.\<close>

datatype cell = Int_cell int | Float_cell rat

text \<open>The request loop: \<open>i\<close> counts the requests made, \<open>k\<close> those left.\<close>

fun send_loop :: "(nat \<Rightarrow> rat) \<Rightarrow> bytes \<Rightarrow> nat \<Rightarrow> nat \<Rightarrow> client \<Rightarrow> rat list \<times> unit res \<times> client" where
  "send_loop elapsed body i 0 cl = ([], Inr (), cl)"
| "send_loop elapsed body i (Suc k) cl =
     (case cl_send_data body cl of
        (Inl e, cl1) \<Rightarrow> ([], Inl e, cl1)
      | (Inr _, cl1) \<Rightarrow>
          (case send_loop elapsed body (i + 1) k cl1 of (samples, r, cl2) \<Rightarrow> (elapsed i * 1000 # samples, r, cl2)))"

definition latency_stats :: "int \<Rightarrow> int \<Rightarrow> rat list \<Rightarrow> (ustr \<times> cell) list res" where
  "latency_stats requests payload samples =
     (let total_bytes = requests * payload * 2;
          wall = sum_list samples / 1000
      in rbind (percentile samples 50) (\<lambda>p50. rbind (percentile samples 95) (\<lambda>p95.
         rbind (percentile samples 99) (\<lambda>p99.
         rbind (py_div (of_int total_bytes) wall) (\<lambda>rate. rbind (py_div (of_int requests) wall) (\<lambda>per_s.
           Inr [(ascii ''requests'', Int_cell requests), (ascii ''payload_bytes'', Int_cell payload),
                (ascii ''p50_ms'', Float_cell p50), (ascii ''p95_ms'', Float_cell p95), (ascii ''p99_ms'', Float_cell p99),
                (ascii ''mean_ms'', Float_cell (sum_list samples / of_nat (length samples))),
                (ascii ''max_ms'', Float_cell (Max (set samples))),
                (ascii ''throughput_mb_s'', Float_cell (rate / 1024 / 1024)),
                (ascii ''messages_s'', Float_cell per_s)]))))))"

definition BENCH_SECRET :: bytes where "BENCH_SECRET = ascii_bytes ''benchmark-secret''"

definition measure_latency ::
  "py_env \<Rightarrow> (nat \<Rightarrow> bytes) \<Rightarrow> reader res \<Rightarrow> (nat \<Rightarrow> rat) \<Rightarrow> int \<Rightarrow> int \<Rightarrow> (ustr \<times> cell) list res"
where
  "measure_latency env rng opened elapsed requests payload =
     (case async_with env rng opened (new_client BENCH_SECRET (ascii ''bench-latency'') DEFAULT_TIMEOUT)
             (send_loop elapsed (replicate (nat payload) 0x78) 0 (nat requests)) of
        ((samples, r), _) \<Rightarrow> rbind r (\<lambda>_. latency_stats requests payload samples))"

text \<open>One worker of the load test: its samples and whether an exception ended it.\<close>

definition worker ::
  "py_env \<Rightarrow> (nat \<Rightarrow> bytes) \<Rightarrow> reader res \<Rightarrow> (nat \<Rightarrow> rat) \<Rightarrow> int \<Rightarrow> int \<Rightarrow> nat \<Rightarrow> rat list \<times> bool"
where
  "worker env rng opened elapsed requests_each payload index =
     (case async_with env rng opened (new_client BENCH_SECRET (ascii ''bench-'' @ dec_nat index) 10)
             (send_loop elapsed (replicate (nat payload) 0x78) 0 (nat requests_each)) of
        ((samples, r), _) \<Rightarrow> (samples, case r of Inl e \<Rightarrow> True | Inr _ \<Rightarrow> False))"

text \<open>
  The workers share only the list of samples, to which they append in the order of their replies.
  The statistics do not depend on that order (\<open>percentile_mset\<close>), so the samples are taken worker by
  worker.
\<close>

definition concurrency_stats :: "int \<Rightarrow> int \<Rightarrow> rat \<Rightarrow> (rat list \<times> bool) list \<Rightarrow> (ustr \<times> cell) list res" where
  "concurrency_stats clients requests_each wall workers =
     (let samples = concat (map fst workers);
          errors = length (filter snd workers);
          pct = (\<lambda>p. if samples \<noteq> [] then percentile samples p else Inr 0)
      in rbind (pct 50) (\<lambda>p50. rbind (pct 95) (\<lambda>p95. rbind (pct 99) (\<lambda>p99.
           Inr [(ascii ''clients'', Int_cell clients), (ascii ''requests_each'', Int_cell requests_each),
                (ascii ''wall_s'', Float_cell wall),
                (ascii ''rps'', Float_cell (if wall \<noteq> 0 then of_nat (length samples) / wall else 0)),
                (ascii ''p50_ms'', Float_cell p50), (ascii ''p95_ms'', Float_cell p95), (ascii ''p99_ms'', Float_cell p99),
                (ascii ''errors'', Int_cell (int errors))]))))"

definition measure_concurrency ::
  "py_env \<Rightarrow> (nat \<Rightarrow> nat \<Rightarrow> bytes) \<Rightarrow> (nat \<Rightarrow> reader res) \<Rightarrow> (nat \<Rightarrow> nat \<Rightarrow> rat) \<Rightarrow> rat \<Rightarrow> int \<Rightarrow> int \<Rightarrow> int
     \<Rightarrow> (ustr \<times> cell) list res"
where
  "measure_concurrency env rng opened elapsed wall clients requests_each payload =
     concurrency_stats clients requests_each wall
       (map (\<lambda>i. worker env (rng i) (opened i) (elapsed i) requests_each payload i) [0..<nat clients])"

section \<open>Tables\<close>

text \<open>\<^verbatim>\<open>{x:.3f}\<close> of a non-negative number.\<close>

definition fixed3 :: "rat \<Rightarrow> ustr" where
  "fixed3 x = (let n = nat (py_round (x * 1000)) in dec_nat (n div 1000) @ ascii ''.'' @ dec_fixed 3 n)"

definition rendered :: "cell \<Rightarrow> ustr" where
  "rendered v = (case v of Float_cell x \<Rightarrow> fixed3 x | Int_cell n \<Rightarrow> dec_int n)"

definition table :: "ustr \<Rightarrow> (ustr \<times> cell) list \<Rightarrow> ustr" where
  "table title rows =
     joined [10]
       ([ascii ''### '' @ title, [], ascii ''| metric | value |'', ascii ''|---|---|'']
        @ map (\<lambda>(k, v). ascii ''| '' @ k @ ascii '' | '' @ rendered v @ ascii '' |'') rows) @ [10]"

section \<open>What a percentile is\<close>

lemma sort_mset: "mset xs = mset ys \<Longrightarrow> sort xs = (sort ys :: 'a :: linorder list)"
  by (simp flip: sorted_list_of_multiset_mset)

lemma percentile_mset: "mset xs = mset ys \<Longrightarrow> percentile xs p = percentile ys p"
  unfolding percentile_def by (drule sort_mset) simp

lemma half_even: "(d :: rat) \<le> d' \<Longrightarrow> d' < 1 / 2 \<or> d' = 1 / 2 \<and> even f \<Longrightarrow> d < 1 / 2 \<or> d = 1 / 2 \<and> even (f :: int)"
  by auto

lemma sort_Nil: "sort xs = [] \<longleftrightarrow> xs = []"
  by (metis set_empty set_sort)

lemma py_round_mono: "x \<le> y \<Longrightarrow> py_round x \<le> py_round y"
proof -
  assume le: "x \<le> y"
  then have f: "\<lfloor>x\<rfloor> \<le> \<lfloor>y\<rfloor>" by (rule floor_mono)
  show ?thesis
  proof (cases "\<lfloor>x\<rfloor> = \<lfloor>y\<rfloor>")
    case True
    have "x - of_int \<lfloor>x\<rfloor> \<le> y - of_int \<lfloor>x\<rfloor>" using le by simp
    from half_even [OF this, of "\<lfloor>x\<rfloor>"] show ?thesis
      unfolding py_round_def Let_def True [symmetric] by (simp split: if_split)
  next
    case False
    with f have "\<lfloor>x\<rfloor> + 1 \<le> \<lfloor>y\<rfloor>" by linarith
    then show ?thesis by (auto simp: py_round_def Let_def)
  qed
qed

lemma py_round_of_int: "py_round (of_int n) = n"
  by (simp add: py_round_def)

text \<open>The index of a percentile is that of a sample, and grows with the percentile.\<close>

definition pct_index :: "nat \<Rightarrow> rat \<Rightarrow> int" where
  "pct_index n p = min (py_round (p / 100 * (of_nat n - 1))) (int n - 1)"

lemma pct_index_bounds:
  assumes "0 < n" "0 \<le> p"
  shows "0 \<le> pct_index n p" "pct_index n p < int n"
proof -
  have "(0 :: rat) \<le> p / 100 * (of_nat n - 1)" using assms by (intro mult_nonneg_nonneg) simp_all
  then have "py_round (of_int 0) \<le> py_round (p / 100 * (of_nat n - 1))" by (intro py_round_mono) simp
  then show "0 \<le> pct_index n p" "pct_index n p < int n"
    using assms(1) unfolding py_round_of_int by (simp_all add: pct_index_def)
qed

lemma pct_index_mono: "0 < n \<Longrightarrow> p \<le> q \<Longrightarrow> pct_index n p \<le> pct_index n q"
proof -
  assume "0 < n" "p \<le> q"
  then have "p / 100 * (of_nat n - 1) \<le> q / 100 * (of_nat n - 1)"
    by (intro mult_right_mono divide_right_mono) simp_all
  then have "py_round (p / 100 * (of_nat n - 1)) \<le> py_round (q / 100 * (of_nat n - 1))" by (rule py_round_mono)
  then show ?thesis unfolding pct_index_def by (intro min.mono order_refl)
qed

lemma percentile_nth:
  assumes "values \<noteq> []" "0 \<le> p"
  shows "percentile values p = Inr (sort values ! nat (pct_index (length values) p))"
  using pct_index_bounds [of "length values" p] assms
  by (simp add: percentile_def py_index_def pct_index_def Let_def sort_Nil)

text \<open>
  A percentile of a non-empty list of samples is one of the samples, lies between the smallest and
  the largest, which are its values at 0 and 100, and does not decrease with the percentage; of no
  samples there is none, and the call raises IndexError.
\<close>

theorem percentile_order:
  assumes "values \<noteq> []" "0 \<le> p" "p \<le> q" "q \<le> 100"
  shows "\<exists>x y. percentile values p = Inr x \<and> percentile values q = Inr y \<and> x \<le> y \<and> x \<in> set values \<and> y \<in> set values
    \<and> percentile values 0 = Inr (Min (set values)) \<and> percentile values 100 = Inr (Max (set values))
    \<and> percentile [] p = Inl IndexError"
proof -
  let ?n = "length values" and ?s = "sort values"
  have n: "0 < ?n" using assms(1) by simp
  have lt: "nat (pct_index ?n r) < length ?s" if "0 \<le> r" for r
    using pct_index_bounds [OF n that] by simp
  have mono: "?s ! nat (pct_index ?n a) \<le> ?s ! nat (pct_index ?n b)" if "0 \<le> a" "a \<le> b" for a b
    using pct_index_mono [OF n that(2)] lt [of b] that by (intro sorted_nth_mono) (simp_all add: nat_mono)
  have mem: "?s ! nat (pct_index ?n r) \<in> set values" if "0 \<le> r" for r
    using nth_mem [OF lt [OF that]] by simp
  have "pct_index ?n 0 = 0" "pct_index ?n 100 = int ?n - 1"
    using n py_round_of_int [of "int ?n - 1"] py_round_of_int [of 0] by (simp_all add: pct_index_def)
  moreover have last: "nat (int ?n - 1) = ?n - 1" by simp
  ultimately have ends: "percentile values 0 = Inr (?s ! 0)" "percentile values 100 = Inr (?s ! (?n - 1))"
    using assms(1) last by (simp_all add: percentile_nth del: One_nat_def)
  have all: "?s ! 0 \<le> y \<and> y \<le> ?s ! (?n - 1)" if "y \<in> set values" for y
  proof -
    from that have "y \<in> set ?s" by simp
    then obtain i where "y = ?s ! i" "i < ?n" unfolding in_set_conv_nth by auto
    then show ?thesis by (auto intro!: sorted_nth_mono)
  qed
  have "Min (set values) = ?s ! 0" "Max (set values) = ?s ! (?n - 1)"
    using all n nth_mem [of 0 ?s] nth_mem [of "?n - 1" ?s] by (auto intro!: Min_eqI Max_eqI)
  moreover have "percentile [] p = Inl IndexError" by (auto simp: percentile_def py_index_def Let_def min_def)
  ultimately show ?thesis
    using assms ends mono [of p q] mem [of p] mem [of q] by (simp add: percentile_nth)
qed

theorem percentile_order_witness:
  "\<exists>x y. percentile [3, 1, 2] 50 = Inr x \<and> percentile [3, 1, 2] 99 = Inr y \<and> x \<le> y"
  using percentile_order [of "[3, 1, 2]" 50 99] by force

text \<open>The load statistics do not depend on the order in which the workers' samples arrived.\<close>

lemma concurrency_stats_mset:
  assumes "mset (concat (map fst ws)) = mset (concat (map fst vs))" "length (filter snd ws) = length (filter snd vs)"
  shows "concurrency_stats c n wall ws = concurrency_stats c n wall vs"
proof -
  have "length (concat (map fst ws)) = length (concat (map fst vs))" using assms(1) by (rule mset_eq_length)
  moreover have "concat (map fst ws) = [] \<longleftrightarrow> concat (map fst vs) = []" 
    using assms(1) by (metis mset_zero_iff)
  ultimately show ?thesis
    unfolding concurrency_stats_def Let_def percentile_mset [OF assms(1)] assms(2) by (simp del: concat_eq_Nil_conv)
qed

end
