(* ===== verification/Spec2Isabelle.thy ===== *)
theory Spec2Isabelle
  imports Udp_Props Fixture_Props Startup_Props Tls Bench
begin

text \<open>
  Wireline is a small authenticated message protocol over TCP and UDP, with a server, clients, an
  offline analyser for captures and a command line, written in Python. This development models the
  program under \<^verbatim>\<open>src/wireline\<close> (and the fixture builder under \<^verbatim>\<open>tools\<close>) and proves what makes it
  correct. All paths below are relative to the repository's root.

  \<^bold>\<open>How the program is put together.\<close> A frame is encoded and decoded by the codec (header, payload,
  CRC, HMAC). Control messages are JSON payloads of frames. A server session is a state machine
  without I/O: it is handed decoded frames and returns reactions (frames to send, whether to close).
  The TCP server reads frames from a stream with a timeout, hands them to one session per
  connection and writes the reactions. The UDP server decodes each datagram, looks the number up in
  a window of stored replies and otherwise hands the frame to the session of the peer address. The
  TCP client sends a request and returns the next frame. The UDP client sends, waits and
  retransmits until a datagram answers its request. The analyser reads a capture file, strips the
  layers of each packet, scans payloads for frames and reassembles each direction with the frame
  buffer. The command line runs one of these and turns its end into an exit code.

  \<^bold>\<open>Which theory models what.\<close>

  \<^item> \<open>Prelude\<close>, \<open>Errors\<close>, \<open>Bytes\<close>, \<open>Pytext\<close>: values of Python (bytes, text, integers, slices,
    \<^verbatim>\<open>struct\<close> fields, f-strings); exceptions are the datatype \<open>exn\<close> and code that may raise returns
    \<open>exn + 'a\<close>. \<open>Errors\<close> is \<^verbatim>\<open>protocol/errors.py\<close>. The locale \<open>int_layout\<close> holds for both byte orders.
  \<^item> \<open>Crc32\<close>, \<open>Sha256\<close>, \<open>Utf8\<close>, \<open>Json\<close>, \<open>Json_Facts\<close>: the parts of the standard library the code rests
    on, written out: \<^verbatim>\<open>zlib.crc32\<close>, SHA-256 and HMAC, UTF-8, \<^verbatim>\<open>json.loads\<close> and \<^verbatim>\<open>json.dumps\<close>.
  \<^item> \<open>Codec\<close>: \<^verbatim>\<open>protocol/codec.py\<close>, function by function. Decoding inverts encoding in both directions,
    \<open>encode\<close> raises exactly outside its bounds, a changed byte of the payload is detected.
  \<^item> \<open>Messages\<close>, \<open>Messages_Facts\<close>: \<^verbatim>\<open>protocol/messages.py\<close>. The locale \<open>control_message\<close> (encode, then
    decode) is interpreted for the four kinds of message; what each decoder can raise.
  \<^item> \<open>Framing\<close>: \<open>FrameBuffer\<close> of \<^verbatim>\<open>transport/framing.py\<close>. The locale \<open>incremental\<close> states when a parser
    does not depend on how its input is cut; the buffer interprets it.
  \<^item> \<open>Reader\<close>: \<^verbatim>\<open>read_frame\<close> over a model of asyncio's stream reader: timed arrivals and a deadline.
    It agrees with the buffer.
  \<^item> \<open>Sequence\<close>: the locale \<open>sequence\<close> of 32-bit counters, interpreted for the session and both clients.
  \<^item> \<open>Session\<close>, \<open>Session_Facts\<close>, \<open>Session_Spec\<close>, \<open>Session_Runs\<close>: \<^verbatim>\<open>session.py\<close>. \<open>Session_Spec\<close> states the
    state machine of section 5 of \<^verbatim>\<open>docs/PROTOCOL.md\<close> as a step relation and shows that every frame on
    every good session is a step of it; \<open>Session_Runs\<close> treats reachable sessions and whole runs.
  \<^item> \<open>Server\<close>, \<open>Server_Facts\<close>, \<open>Server_Props\<close>: the connection handler of \<^verbatim>\<open>server.py\<close>.
  \<^item> \<open>Client\<close>, \<open>Client_Props\<close>: \<^verbatim>\<open>client.py\<close>, alone and end to end against the server.
  \<^item> \<open>Dedup\<close>: \<open>LossyLink\<close>, \<open>DedupWindow\<close> and \<open>split_datagram\<close> of \<^verbatim>\<open>transport/udp.py\<close>; the locale
    \<open>reply_cache\<close> states what a window promises.
  \<^item> \<open>Udp_Server\<close>, \<open>Udp_Server_Props\<close>: the receive path of \<open>UdpServer\<close>; \<open>Udp_Client\<close>: \<open>UdpClient\<close> against
    a network that may do anything; \<open>Udp_Exchange\<close>, \<open>Udp_Props\<close>: client and server with a lossy link
    in each direction.
  \<^item> \<open>Lifecycle\<close>: starting, serving and closing the two servers.
  \<^item> \<open>Pcap\<close>: \<^verbatim>\<open>sniff/pcap.py\<close>; \<open>Dissect\<close>, \<open>Dissect_Facts\<close>: \<^verbatim>\<open>sniff/dissect.py\<close>.
  \<^item> \<open>Fixture\<close>, \<open>Fixture_Facts\<close>, \<open>Fixture_Props\<close>: \<^verbatim>\<open>tools/make_pcap_fixture.py\<close>, and the analyser run on
    what it builds.
  \<^item> \<open>Cli\<close>, \<open>Cli_Props\<close>: \<^verbatim>\<open>config.py\<close> and the commands of \<^verbatim>\<open>__main__.py\<close>; \<open>Startup\<close>, \<open>Startup_Props\<close>:
    its start, that is \<^verbatim>\<open>build_parser\<close> with the options as data, \<^verbatim>\<open>setup_logging\<close> and \<^verbatim>\<open>main\<close> from the
    words of the command line.
  \<^item> \<open>Tls\<close>: \<^verbatim>\<open>tls.py\<close>, the settings of the two contexts; \<open>Bench\<close>: what \<^verbatim>\<open>benchmarks/bench_tcp.py\<close>
    computes from the times it measures.

  \<^bold>\<open>How state and operations correspond.\<close> A class is a record with the class's attributes, a method is
  a function from the record to its result and the updated record, and where the code mutates before
  it raises, the updated record is returned beside the exception. \<^verbatim>\<open>state\<close>, \<^verbatim>\<open>msg_type\<close> and
  \<^verbatim>\<open>error_code\<close> are datatypes with the source's members. What a component writes to a socket is a list
  of byte strings; what a command prints is text. The session objects held by the UDP server's
  dictionary are shared by reference in the code; each is reached through one key only, so they are
  values in the map here, stored back after every operation.

  \<^bold>\<open>Loops, bounds and fuel.\<close> Loops are recursive functions with termination proofs: draining by the
  bytes left in the buffer, the connection handler by the arrivals still pending, the scans of the
  analyser by the bytes left, the carries of the checksum by their sum, the attempts of a UDP request
  by the retries left. The only fuel is that of the JSON scanner, twice the length of the text and 2,
  and \<open>Json_Facts.scan_fuel\<close> proves that it never runs out. Sequence numbers are integers masked
  to 32 bits as in the code; a CRC is computed on 32-bit words. The bound on nesting at which the
  JSON scanner raises \<^verbatim>\<open>RecursionError\<close> depends on the Python build and is a field of \<open>py_env\<close>, as
  are the \<^verbatim>\<open>repr\<close> of a float and which characters are printable.

  \<^bold>\<open>What is given to the model.\<close> Random bytes are functions from a length to bytes; a run of the UDP
  server or of a client uses one such function for all its draws, so no property says that two draws
  differ. Times are exact rationals where the code has floats. The times at which data arrives, the
  random numbers of the lossy link, the result of opening a connection, reading a file or binding a
  socket, the time a measured request takes, \<^verbatim>\<open>str.upper\<close>, and the texts of exceptions of the standard
  library are arguments. Timeouts are taken to be positive: asyncio treats one of zero or less
  differently, and the properties that depend on time assume none that is negative.

  \<^bold>\<open>Not modelled.\<close> Sockets, what TLS does on the wire, flow control of a writer and what the logger
  prints, none of which the modelled state depends on; the encoding of standard output. Of argparse
  only the plain use of the options is modelled; its errors, its help and its other spellings
  (abbreviations, \<^verbatim>\<open>--name=value\<close>) are undecided, \<open>None\<close>. \<^verbatim>\<open>tools/make_certs.py\<close> only calls a
  third-party package. The \<^verbatim>\<open>main\<close> functions of the benchmark and of the fixture tool, which start a
  server, write files and print, are left out, as is the text naming the platform.

  \<^bold>\<open>What the properties say.\<close> In groups, each in the theory that completes what it speaks of: the wire
  format (\<open>Codec\<close>, \<open>Messages_Facts\<close>), streams of frames (\<open>Framing\<close>, \<open>Reader\<close>), the session as the protocol
  describes it (\<open>Session_Runs\<close>), a TCP connection from the server's side and end to end (\<open>Server_Props\<close>,
  \<open>Client_Props\<close>), at-most-once execution over UDP and its limits (\<open>Udp_Server_Props\<close>, \<open>Udp_Props\<close>),
  capture files and the analyser (\<open>Pcap\<close>, \<open>Dissect_Facts\<close>, \<open>Fixture_Props\<close>), and the commands
  (\<open>Cli_Props\<close>, \<open>Startup_Props\<close>). Some are about behaviour that the code has and its documentation does not expect: a
  late reply taken for another request's, a HELLO that makes the session raise, an empty datagram
  that makes the client raise, a retransmitted BYE that is executed again, a fixture that differs from
  run to run, a logging level that ends the program before its command runs, a port that ends it in
  a traceback, a buffer that keeps what comes after a bad header.
\<close>

end
